(* ===== verification/Prelude.thy ===== *)
theory Prelude
  imports Main "HOL-Library.Sublist"
begin

text \<open>
  Shared vocabulary of the development: the theorem collections the component theories
  feed, the error-or-value results that stand for Python exceptions, association lists
  that stand for insertion-ordered dicts, and the generic list lemmas the components use.
\<close>

named_theorems run_simps \<open>rewrite rules that evaluate the model on a given state\<close>
named_theorems keeps \<open>frame facts: what an operation leaves unchanged\<close>
named_theorems inv_intros \<open>introduction rules that establish component invariants\<close>

type_synonym run_id = string
type_synonym time = int

section \<open>Exceptions as values\<close>

text \<open>
  A Python call either returns or raises; \<open>Inl\<close> carries what it raised. The
  combinators follow \<open>try\<close>-less sequencing: the first raise ends the computation.
\<close>

type_synonym ('e, 'a) result = "'e + 'a"

definition bind_result :: "('e, 'a) result \<Rightarrow> ('a \<Rightarrow> ('e, 'b) result) \<Rightarrow> ('e, 'b) result" where
  "bind_result r f = (case r of Inl e \<Rightarrow> Inl e | Inr x \<Rightarrow> f x)"

lemma bind_result_simps [simp]:
  "bind_result (Inl e) f = Inl e"
  "bind_result (Inr x) f = f x"
  by (simp_all add: bind_result_def)

lemma bind_result_Inr_iff:
  "bind_result r f = Inr y \<longleftrightarrow> (\<exists>x. r = Inr x \<and> f x = Inr y)"
  by (cases r) simp_all

definition is_ok :: "('e, 'a) result \<Rightarrow> bool" where
  "is_ok r = (case r of Inl _ \<Rightarrow> False | Inr _ \<Rightarrow> True)"

lemma is_ok_simps [simp]: "\<not> is_ok (Inl e)" "is_ok (Inr x)"
  by (simp_all add: is_ok_def)

text \<open>
  A call that also changes the outside world (a repository, a file tree, a process): the
  state is threaded through and survives a raise, as effects already made do.
\<close>

type_synonym ('w, 'e, 'a) io = "'w \<Rightarrow> ('e, 'a) result \<times> 'w"

definition ret_io :: "'a \<Rightarrow> ('w, 'e, 'a) io" where
  "ret_io x w = (Inr x, w)"

definition raise_io :: "'e \<Rightarrow> ('w, 'e, 'a) io" where
  "raise_io e w = (Inl e, w)"

definition bind_io :: "('w, 'e, 'a) io \<Rightarrow> ('a \<Rightarrow> ('w, 'e, 'b) io) \<Rightarrow> ('w, 'e, 'b) io" where
  "bind_io m f w = (case m w of (Inl e, w') \<Rightarrow> (Inl e, w') | (Inr x, w') \<Rightarrow> f x w')"

text \<open>\<open>try: m except e: h e\<close>, for the exceptions \<open>p\<close> accepts.\<close>

definition catch_io :: "('w, 'e, 'a) io \<Rightarrow> ('e \<Rightarrow> bool) \<Rightarrow> ('e \<Rightarrow> ('w, 'e, 'a) io) \<Rightarrow> ('w, 'e, 'a) io" where
  "catch_io m p h w = (case m w of
     (Inl e, w') \<Rightarrow> if p e then h e w' else (Inl e, w') | (Inr x, w') \<Rightarrow> (Inr x, w'))"

lemmas io_defs = ret_io_def raise_io_def bind_io_def catch_io_def

lemma bind_io_cases [simp]:
  "m w = (Inl e, w') \<Longrightarrow> bind_io m f w = (Inl e, w')"
  "m w = (Inr x, w') \<Longrightarrow> bind_io m f w = f x w'"
  by (simp_all add: bind_io_def)

lemma bind_io_InrE:
  assumes "bind_io m f w = (Inr y, w'')"
  obtains x w' where "m w = (Inr x, w')" "f x w' = (Inr y, w'')"
  using assms by (auto simp: bind_io_def split: sum.splits prod.splits)

lemma bind_io_assoc: "bind_io (bind_io m f) g = bind_io m (\<lambda>x. bind_io (f x) g)"
  by (rule ext) (simp add: bind_io_def split: sum.splits prod.splits)

lemma bind_ret_io [simp]: "bind_io (ret_io x) f = f x" "bind_io m ret_io = m"
  by (rule ext, simp add: io_defs split: sum.splits prod.splits)+

section \<open>Insertion-ordered dicts\<close>

text \<open>
  A dict whose order the code observes is an association list with distinct keys:
  assigning an existing key overwrites in place, a new key goes last, as in Python.
\<close>

type_synonym ('k, 'v) dict = "('k \<times> 'v) list"

fun dict_set :: "'k \<Rightarrow> 'v \<Rightarrow> ('k, 'v) dict \<Rightarrow> ('k, 'v) dict" where
  "dict_set k v [] = [(k, v)]"
| "dict_set k v ((k', v') # d) = (if k = k' then (k, v) # d else (k', v') # dict_set k v d)"

definition dict_get :: "('k, 'v) dict \<Rightarrow> 'k \<Rightarrow> 'v option" where
  "dict_get d k = map_of d k"

definition dict_keys :: "('k, 'v) dict \<Rightarrow> 'k list" where
  "dict_keys d = map fst d"

lemma dict_get_Nil [simp]: "dict_get [] k = None"
  by (simp add: dict_get_def)

lemma dict_get_set [simp]: "dict_get (dict_set k v d) k' = (if k' = k then Some v else dict_get d k')"
  by (induction d) (auto simp: dict_get_def)

lemma set_keys_dict_set [simp]: "set (dict_keys (dict_set k v d)) = insert k (set (dict_keys d))"
  by (induction k v d rule: dict_set.induct) (auto simp: dict_keys_def)

lemma distinct_keys_dict_set [simp]:
  "distinct (dict_keys d) \<Longrightarrow> distinct (dict_keys (dict_set k v d))"
proof (induction k v d rule: dict_set.induct)
  case (2 k v k' v' d)
  have "k' \<notin> set (dict_keys (dict_set k v d))" if "k \<noteq> k'"
    using "2.prems" that set_keys_dict_set [of k v d] by (auto simp: dict_keys_def)
  with 2 show ?case by (auto simp: dict_keys_def)
qed (simp add: dict_keys_def)

lemma dict_get_None_iff: "dict_get d k = None \<longleftrightarrow> k \<notin> set (dict_keys d)"
  by (simp add: dict_get_def dict_keys_def map_of_eq_None_iff)

lemma dict_get_Some_in: "dict_get d k = Some v \<Longrightarrow> (k, v) \<in> set d"
  by (simp add: dict_get_def map_of_SomeD)

section \<open>Lists\<close>

lemma take_append_drop_Suc:
  "i < length xs \<Longrightarrow> take i xs @ xs ! i # drop (Suc i) xs = xs"
  by (metis Cons_nth_drop_Suc append_take_drop_id)

lemma list_ex_conv_nth: "list_ex P xs \<longleftrightarrow> (\<exists>i < length xs. P (xs ! i))"
  by (simp add: list_ex_iff) (metis in_set_conv_nth)

lemma filter_removes_one:
  "distinct (map f xs) \<Longrightarrow> x \<in> set xs \<Longrightarrow>
   length (filter (\<lambda>y. f y \<noteq> f x) xs) = length xs - 1"
proof (induction xs)
  case Nil
  then show ?case by simp
next
  case (Cons y ys)
  have "f z \<noteq> f y" if "z \<in> set ys" for z
    using Cons.prems(1) that by (metis distinct.simps(2) imageI list.set_map list.simps(9))
  then have *: "filter (\<lambda>z. f z \<noteq> f y) ys = ys"
    by (auto intro: filter_True)
  show ?case
  proof (cases "x = y")
    case True
    with * show ?thesis by simp
  next
    case False
    with Cons.prems have "x \<in> set ys" "f y \<noteq> f x" by auto
    with Cons show ?thesis by (cases ys) auto
  qed
qed

lemma sum_list_map_le:
  fixes f g :: "'a \<Rightarrow> nat"
  shows "(\<And>x. x \<in> set xs \<Longrightarrow> f x \<le> g x) \<Longrightarrow> sum_list (map f xs) \<le> sum_list (map g xs)"
  by (induction xs) (auto intro: add_mono)

end
