(* ===== verification/PyRe.thy ===== *)
theory PyRe
  imports PyStr
begin

text \<open>
  The fragment of Python's \<open>re\<close> the program's patterns use: character sets, sequence,
  alternation, star and the zero-width word boundary. \<open>re_rel\<close> says which spans of a
  text a pattern matches; \<open>re_match\<close> computes them, and the two agree.
  A position is the character before it (if any) and the text after it, which is all a
  boundary test reads.
\<close>

type_synonym pos = "char option \<times> string"

datatype re =
    REps
  | RSet "char \<Rightarrow> bool"
  | RSeq re re
  | RAlt re re
  | RStar re
  | RBound

definition word_at :: "char option \<Rightarrow> bool" where
  "word_at c = (case c of None \<Rightarrow> False | Some x \<Rightarrow> is_word x)"

definition head_char :: "string \<Rightarrow> char option" where
  "head_char s = (case s of [] \<Rightarrow> None | c # _ \<Rightarrow> Some c)"

definition at_bound :: "pos \<Rightarrow> bool" where
  "at_bound p = (word_at (fst p) \<noteq> word_at (head_char (snd p)))"

section \<open>Which spans match\<close>

inductive re_rel :: "re \<Rightarrow> pos \<Rightarrow> pos \<Rightarrow> bool" where
  eps: "re_rel REps p p"
| chr: "f c \<Longrightarrow> re_rel (RSet f) (b, c # s) (Some c, s)"
| seq: "re_rel r p q \<Longrightarrow> re_rel r' q q' \<Longrightarrow> re_rel (RSeq r r') p q'"
| altl: "re_rel r p q \<Longrightarrow> re_rel (RAlt r r') p q"
| altr: "re_rel r' p q \<Longrightarrow> re_rel (RAlt r r') p q"
| star_nil: "re_rel (RStar r) p p"
| star_step: "re_rel r p q \<Longrightarrow> re_rel (RStar r) q q' \<Longrightarrow> re_rel (RStar r) p q'"
| bound: "at_bound p \<Longrightarrow> re_rel RBound p p"

inductive_cases re_rel_eps: "re_rel REps p q"
inductive_cases re_rel_chr: "re_rel (RSet f) p q"
inductive_cases re_rel_seq: "re_rel (RSeq r r') p q"
inductive_cases re_rel_alt: "re_rel (RAlt r r') p q"
inductive_cases re_rel_bound: "re_rel RBound p q"

lemmas re_rel_inversions = re_rel_eps re_rel_chr re_rel_seq re_rel_alt re_rel_bound

section \<open>Computing the spans\<close>

function re_match :: "re \<Rightarrow> pos \<Rightarrow> pos list" where
  "re_match REps p = [p]"
| "re_match (RSet f) p = (case snd p of [] \<Rightarrow> [] | c # s \<Rightarrow> if f c then [(Some c, s)] else [])"
| "re_match (RSeq r r') p = concat (map (re_match r') (re_match r p))"
| "re_match (RAlt r r') p = re_match r p @ re_match r' p"
| "re_match (RStar r) p =
     p # concat (map (re_match (RStar r))
       (filter (\<lambda>q. length (snd q) < length (snd p)) (re_match r p)))"
| "re_match RBound p = (if at_bound p then [p] else [])"
  by pat_completeness auto
termination
  by (relation "measures [\<lambda>(r, p). size r, \<lambda>(r, p). length (snd p)]") auto

declare re_match.simps [simp del]
lemmas re_match_simps = re_match.simps
lemmas re_match_plain = re_match.simps(1-4) re_match.simps(6)

text \<open>A pattern is searched at the start of the text and after every character.\<close>

fun positions :: "char option \<Rightarrow> string \<Rightarrow> pos list" where
  "positions b [] = [(b, [])]"
| "positions b (c # s) = (b, c # s) # positions (Some c) s"

definition re_search :: "re \<Rightarrow> string \<Rightarrow> bool" where
  "re_search r s = list_ex (\<lambda>p. re_match r p \<noteq> []) (positions None s)"

section \<open>The computation agrees with the relation\<close>

lemma re_match_sound: "q \<in> set (re_match r p) \<Longrightarrow> re_rel r p q"
proof (induction r p arbitrary: q rule: re_match.induct)
  case (2 f p)
  then show ?case
    by (cases p) (auto simp: re_match_simps intro: re_rel.intros split: list.splits if_splits)
next
  case (3 r r' p)
  from "3.prems" obtain m where "m \<in> set (re_match r p)" "q \<in> set (re_match r' m)"
    unfolding re_match_simps by force
  then show ?case using "3.IH" by (blast intro: re_rel.seq)
next
  case (5 r p)
  from "5.prems" consider "q = p" |
    m where "m \<in> set (re_match r p)" "length (snd m) < length (snd p)"
      "q \<in> set (re_match (RStar r) m)"
    unfolding re_match_simps(5) [of r p] by force
  then show ?case
  proof cases
    case 1
    then show ?thesis by (simp add: re_rel.star_nil)
  next
    case 2
    then have "re_rel r p m" "re_rel (RStar r) m q" using "5.IH" by auto
    then show ?thesis by (rule re_rel.star_step)
  qed
qed (auto simp: re_match_plain intro: re_rel.intros split: if_splits)

text \<open>A match consumes a prefix: positions only move forward.\<close>

lemma re_rel_shrinks: "re_rel r p q \<Longrightarrow> length (snd q) \<le> length (snd p)"
  by (induction rule: re_rel.induct) auto

lemma re_rel_stays: "re_rel r p q \<Longrightarrow> length (snd q) = length (snd p) \<Longrightarrow> q = p"
proof (induction rule: re_rel.induct)
  case (seq r p q r' q')
  then show ?case
    using re_rel_shrinks [OF seq.hyps(1)] re_rel_shrinks [OF seq.hyps(2)] by simp
next
  case (star_step r p q q')
  then show ?case
    using re_rel_shrinks [OF star_step.hyps(1)] re_rel_shrinks [OF star_step.hyps(2)] by simp
qed auto

lemma re_match_complete: "re_rel r p q \<Longrightarrow> q \<in> set (re_match r p)"
proof (induction rule: re_rel.induct)
  case (star_step r p q q')
  show ?case
  proof (cases "length (snd q) < length (snd p)")
    case True
    then have "q \<in> set (filter (\<lambda>q. length (snd q) < length (snd p)) (re_match r p))"
      using star_step.IH(1) by simp
    then have "q' \<in> set (concat (map (re_match (RStar r))
        (filter (\<lambda>q. length (snd q) < length (snd p)) (re_match r p))))"
      using star_step.IH(2) unfolding set_concat set_map by (intro UN_I) auto
    then show ?thesis unfolding re_match_simps(5) [of r p] by (rule list.set_intros(2))
  next
    case False
    with re_rel_shrinks [OF star_step.hyps(1)] have "q = p"
      by (intro re_rel_stays [OF star_step.hyps(1)]) simp
    with star_step show ?thesis by simp
  qed
next
  case (star_nil r p)
  show ?case unfolding re_match_simps(5) [of r p] by (rule list.set_intros(1))
next
  case (seq r p q r' q')
  then show ?case unfolding re_match_plain by force
qed (simp_all add: re_match_plain)

lemma re_match_iff: "q \<in> set (re_match r p) \<longleftrightarrow> re_rel r p q"
  using re_match_sound re_match_complete by blast

section \<open>Searching\<close>

definition prev_char :: "string \<Rightarrow> char option" where
  "prev_char s = (if s = [] then None else Some (last s))"

lemma positions_iff:
  "(b', t) \<in> set (positions b s) \<longleftrightarrow>
     (\<exists>u. s = u @ t \<and> b' = (if u = [] then b else Some (last u)))"
proof (induction b s rule: positions.induct)
  case (1 b)
  then show ?case by auto
next
  case (2 b c s)
  have "(\<exists>u. c # s = u @ t \<and> b' = (if u = [] then b else Some (last u))) \<longleftrightarrow>
    (t = c # s \<and> b' = b) \<or> (\<exists>u. s = u @ t \<and> b' = (if u = [] then Some c else Some (last u)))"
    (is "?L \<longleftrightarrow> ?R")
  proof
    assume ?L
    then obtain u where u: "c # s = u @ t" "b' = (if u = [] then b else Some (last u))" by blast
    then show ?R by (cases u) auto
  next
    assume ?R
    then show ?L
    proof
      assume "t = c # s \<and> b' = b"
      then show ?L by (intro exI [of _ "[]"]) simp
    next
      assume "\<exists>u. s = u @ t \<and> b' = (if u = [] then Some c else Some (last u))"
      then obtain u where "s = u @ t" "b' = (if u = [] then Some c else Some (last u))" by blast
      then show ?L by (intro exI [of _ "c # u"]) simp
    qed
  qed
  then show ?case using "2.IH" by auto
qed

text \<open>The search finds a match exactly when some span of the text matches.\<close>

lemma re_search_iff:
  "re_search r s \<longleftrightarrow> (\<exists>u t q. s = u @ t \<and> re_rel r (prev_char u, t) q)"
proof
  assume "re_search r s"
  then obtain b t where p: "(b, t) \<in> set (positions None s)" "re_match r (b, t) \<noteq> []"
    by (auto simp: re_search_def list_ex_iff)
  from p(1) obtain u where "s = u @ t" "b = prev_char u"
    unfolding positions_iff prev_char_def by blast
  moreover from p(2) obtain q where "re_rel r (b, t) q"
    using re_match_sound by (cases "re_match r (b, t)") (auto, metis list.set_intros(1))
  ultimately show "\<exists>u t q. s = u @ t \<and> re_rel r (prev_char u, t) q" by blast
next
  assume "\<exists>u t q. s = u @ t \<and> re_rel r (prev_char u, t) q"
  then obtain u t q where p: "s = u @ t" "re_rel r (prev_char u, t) q" by blast
  have "(prev_char u, t) \<in> set (positions None s)"
    unfolding positions_iff prev_char_def using p(1) by blast
  moreover have "re_match r (prev_char u, t) \<noteq> []"
    using re_match_complete [OF p(2)] by auto
  ultimately show "re_search r s" by (force simp: re_search_def list_ex_iff)
qed

lemma re_searchI: "re_rel r (prev_char u, t) q \<Longrightarrow> re_search r (u @ t)"
  unfolding re_search_iff by blast

section \<open>Derived pattern forms\<close>

definition RChar :: "char \<Rightarrow> re" where
  "RChar c = RSet (\<lambda>x. x = c)"

text \<open>A letter under \<open>IGNORECASE\<close>: the pattern's lower-case form against the folded text.\<close>

definition RCharI :: "char \<Rightarrow> re" where
  "RCharI c = RSet (\<lambda>x. lower_char x = lower_char c)"

fun RLit :: "string \<Rightarrow> re" where
  "RLit [] = REps"
| "RLit (c # s) = RSeq (RChar c) (RLit s)"

fun RLitI :: "string \<Rightarrow> re" where
  "RLitI [] = REps"
| "RLitI (c # s) = RSeq (RCharI c) (RLitI s)"

definition RPlus :: "re \<Rightarrow> re" where
  "RPlus r = RSeq r (RStar r)"

definition ROpt :: "re \<Rightarrow> re" where
  "ROpt r = RAlt r REps"

fun RAlts :: "re list \<Rightarrow> re" where
  "RAlts [] = RSet (\<lambda>_. False)"
| "RAlts [r] = r"
| "RAlts (r # rs) = RAlt r (RAlts rs)"

fun RSeqs :: "re list \<Rightarrow> re" where
  "RSeqs [] = REps"
| "RSeqs [r] = r"
| "RSeqs (r # rs) = RSeq r (RSeqs rs)"

fun RTimes :: "nat \<Rightarrow> re \<Rightarrow> re" where
  "RTimes 0 r = REps"
| "RTimes (Suc n) r = RSeq r (RTimes n r)"

definition last_pos :: "char option \<Rightarrow> string \<Rightarrow> char option" where
  "last_pos b s = (if s = [] then b else Some (last s))"

lemma RLit_rel: "re_rel (RLit l) (b, l @ t) (last_pos b l, t)"
proof (induction l arbitrary: b)
  case Nil
  then show ?case by (simp add: last_pos_def re_rel.eps)
next
  case (Cons c l)
  have "re_rel (RChar c) (b, c # l @ t) (Some c, l @ t)"
    by (simp add: RChar_def re_rel.chr)
  moreover have "last_pos (Some c) l = last_pos b (c # l)"
    by (simp add: last_pos_def)
  ultimately show ?case using Cons [of "Some c"] by (auto intro: re_rel.seq)
qed

lemma RLitI_rel:
  "lower l = lower m \<Longrightarrow> re_rel (RLitI l) (b, m @ t) (last_pos b m, t)"
proof (induction l arbitrary: b m)
  case Nil
  then show ?case by (cases m) (simp_all add: lower_def last_pos_def re_rel.eps)
next
  case (Cons c l)
  from Cons.prems obtain d m' where m: "m = d # m'" "lower_char c = lower_char d"
      "lower l = lower m'"
    by (cases m) (auto simp: lower_def)
  have "re_rel (RCharI c) (b, d # m' @ t) (Some d, m' @ t)"
    using m by (simp add: RCharI_def re_rel.chr)
  moreover have "last_pos (Some d) m' = last_pos b (d # m')"
    by (simp add: last_pos_def)
  ultimately show ?case using Cons.IH [OF m(3), of "Some d"] m(1) by (auto intro: re_rel.seq)
qed

text \<open>A star over a character set runs over any text drawn from the set.\<close>

lemma RStar_set_rel:
  "(\<And>c. c \<in> set l \<Longrightarrow> f c) \<Longrightarrow> re_rel (RStar (RSet f)) (b, l @ t) (last_pos b l, t)"
proof (induction l arbitrary: b)
  case Nil
  then show ?case by (simp add: last_pos_def re_rel.star_nil)
next
  case (Cons c l)
  have "re_rel (RSet f) (b, c # l @ t) (Some c, l @ t)"
    using Cons.prems by (simp add: re_rel.chr)
  moreover have "last_pos (Some c) l = last_pos b (c # l)"
    by (simp add: last_pos_def)
  ultimately show ?case using Cons.IH [of "Some c"] Cons.prems
    by (auto intro: re_rel.star_step)
qed

lemma RTimes_rel:
  "length l = n \<Longrightarrow> (\<And>c. c \<in> set l \<Longrightarrow> f c) \<Longrightarrow>
   re_rel (RTimes n (RSet f)) (b, l @ t) (last_pos b l, t)"
proof (induction l arbitrary: b n)
  case Nil
  then show ?case by (simp add: last_pos_def re_rel.eps)
next
  case (Cons c l)
  obtain k where k: "n = Suc k" "length l = k" using Cons.prems(1) by (cases n) auto
  have "re_rel (RSet f) (b, c # l @ t) (Some c, l @ t)"
    using Cons.prems by (simp add: re_rel.chr)
  moreover have "last_pos (Some c) l = last_pos b (c # l)"
    by (simp add: last_pos_def)
  ultimately show ?case using Cons.IH [OF k(2), of "Some c"] Cons.prems k
    by (auto intro: re_rel.seq)
qed

lemma RChar_rel: "re_rel (RChar c) (b, c # t) (Some c, t)"
  by (simp add: RChar_def re_rel.chr)

lemma RPlus_one: "re_rel r p q \<Longrightarrow> re_rel (RPlus r) p q"
  unfolding RPlus_def by (rule re_rel.seq [OF _ re_rel.star_nil])

text \<open>A boundary before a word character: the text before must not end in one.\<close>

lemma bound_before_word:
  "is_word c \<Longrightarrow> \<not> word_at b \<Longrightarrow> re_rel RBound (b, c # t) (b, c # t)"
  by (rule re_rel.bound) (simp add: at_bound_def head_char_def word_at_def)

lemma bound_after_word:
  "is_word c \<Longrightarrow> \<not> word_at (head_char t) \<Longrightarrow> re_rel RBound (Some c, t) (Some c, t)"
  by (rule re_rel.bound) (simp add: at_bound_def word_at_def)

end
