(* ===== verification/PyJson.thy ===== *)
theory PyJson
  imports PyStr "HOL-Library.List_Lexorder" "HOL-Library.Char_ord"
begin

text \<open>
  The JSON the program reads and writes with Python's \<open>json\<close> module: \<open>dumps\<close> prints a
  value with \<open>separators=(',', ':')\<close> and ASCII escapes, \<open>sort_json\<close> is \<open>sort_keys=True\<close>,
  \<open>loads\<close> is the strict reader. A float is kept as its decimal text: converting a text to
  a double and back (\<open>float\<close>, \<open>float.__repr__\<close>) is the argument \<open>fr\<close> of the reader.
  A \<open>\u\<close> escape beyond 255 names a character outside the model's alphabet and is rejected.
\<close>

datatype json =
    JNull
  | JBool bool
  | JInt int
  | JFloat string
  | JStr string
  | JArr "json list"
  | JObj "(string \<times> json) list"

section \<open>Printing\<close>

definition hex_digit :: "nat \<Rightarrow> char" where
  "hex_digit d = char_of (if d < 10 then 48 + d else 87 + d)"

definition esc_char :: "char \<Rightarrow> string" where
  "esc_char c = (let n = code c in
     if n = 34 then [CHR 0x5C, CHR 0x22]
     else if n = 92 then [CHR 0x5C, CHR 0x5C]
     else if n = 10 then [CHR 0x5C, CHR ''n'']
     else if n = 13 then [CHR 0x5C, CHR ''r'']
     else if n = 9 then [CHR 0x5C, CHR ''t'']
     else if n = 12 then [CHR 0x5C, CHR ''f'']
     else if n = 8 then [CHR 0x5C, CHR ''b'']
     else if n < 32 \<or> 126 < n
       then [CHR 0x5C, CHR ''u'', CHR ''0'', CHR ''0'', hex_digit (n div 16), hex_digit (n mod 16)]
     else [c])"

definition quote :: "string \<Rightarrow> string" where
  "quote s = CHR 0x22 # concat (map esc_char s) @ [CHR 0x22]"

fun dumps :: "json \<Rightarrow> string" where
  "dumps JNull = ''null''"
| "dumps (JBool b) = (if b then ''true'' else ''false'')"
| "dumps (JInt i) = int_str i"
| "dumps (JFloat s) = s"
| "dumps (JStr s) = quote s"
| "dumps (JArr xs) = ''['' @ join '','' (map dumps xs) @ '']''"
| "dumps (JObj kvs) =
     ''{'' @ join '','' (map (\<lambda>kv. quote (fst kv) @ '':'' @ dumps (snd kv)) kvs) @ ''}''"

fun sort_json :: "json \<Rightarrow> json" where
  "sort_json (JArr xs) = JArr (map sort_json xs)"
| "sort_json (JObj kvs) = JObj (sort_key fst (map (\<lambda>kv. (fst kv, sort_json (snd kv))) kvs))"
| "sort_json j = j"

section \<open>Reading\<close>

definition is_ws :: "char \<Rightarrow> bool" where
  "is_ws c = (let n = code c in n = 32 \<or> n = 9 \<or> n = 10 \<or> n = 13)"

definition skip_ws :: "string \<Rightarrow> string" where
  "skip_ws s = dropWhile is_ws s"

definition hex_val :: "char \<Rightarrow> nat option" where
  "hex_val c = (let n = code c in
     if 48 \<le> n \<and> n \<le> 57 then Some (n - 48)
     else if 97 \<le> n \<and> n \<le> 102 then Some (n - 87)
     else if 65 \<le> n \<and> n \<le> 70 then Some (n - 55)
     else None)"

definition simple_escape :: "char \<Rightarrow> char option" where
  "simple_escape c = (let n = code c in
     if n = 34 then Some c else if n = 92 then Some c else if n = 47 then Some c
     else if c = CHR ''b'' then Some (CHR 0x08) else if c = CHR ''f'' then Some (CHR 0x0C)
     else if c = CHR ''n'' then Some (CHR 0x0A) else if c = CHR ''r'' then Some (CHR 0x0D)
     else if c = CHR ''t'' then Some (CHR 0x09) else None)"

fun unicode_escape :: "string \<Rightarrow> (char \<times> string) option" where
  "unicode_escape (a # b # c # d # s) =
     (case (hex_val a, hex_val b, hex_val c, hex_val d) of
        (Some p, Some q, Some u, Some v) \<Rightarrow>
          (if p = 0 \<and> q = 0 then Some (char_of (16 * u + v), s) else None)
      | _ \<Rightarrow> None)"
| "unicode_escape _ = None"

text \<open>The text after the opening quote, read up to the closing one.\<close>

fun parse_str :: "string \<Rightarrow> (string \<times> string) option" where
  "parse_str [] = None"
| "parse_str [c] = (if code c = 34 then Some ([], []) else None)"
| "parse_str (c # d # s) =
     (if code c = 34 then Some ([], d # s)
      else if code c = 92 then
        (if d = CHR ''u'' then
           (case s of
              a # b # e # f # s' \<Rightarrow>
                (case unicode_escape (a # b # e # f # []) of
                   Some (x, _) \<Rightarrow> map_option (\<lambda>(r, t). (x # r, t)) (parse_str s')
                 | None \<Rightarrow> None)
            | _ \<Rightarrow> None)
         else (case simple_escape d of
                 Some x \<Rightarrow> map_option (\<lambda>(r, t). (x # r, t)) (parse_str s)
               | None \<Rightarrow> None))
      else if code c < 32 then None
      else map_option (\<lambda>(r, t). (c # r, t)) (parse_str (d # s)))"

definition digits :: "string \<Rightarrow> string" where
  "digits s = takeWhile is_digit s"

definition scan_int :: "string \<Rightarrow> (string \<times> string) option" where
  "scan_int s = (case s of
     [] \<Rightarrow> None
   | c # t \<Rightarrow> if c = CHR ''0'' then Some ([c], t)
              else if is_digit c then Some (digits s, dropWhile is_digit s)
              else None)"

definition scan_frac :: "string \<Rightarrow> string \<times> string" where
  "scan_frac s = (case s of
     c # t \<Rightarrow> if c = CHR ''.'' \<and> digits t \<noteq> [] then (c # digits t, dropWhile is_digit t) else ([], s)
   | [] \<Rightarrow> ([], s))"

definition scan_exp :: "string \<Rightarrow> string \<times> string" where
  "scan_exp s = (case s of
     e # t \<Rightarrow>
       if e = CHR ''e'' \<or> e = CHR ''E'' then
         (case t of
            sg # u \<Rightarrow>
              if (sg = CHR ''+'' \<or> sg = CHR ''-'') \<and> digits u \<noteq> []
                then (e # sg # digits u, dropWhile is_digit u)
              else if digits t \<noteq> [] then (e # digits t, dropWhile is_digit t)
              else ([], s)
          | [] \<Rightarrow> ([], s))
       else ([], s)
   | [] \<Rightarrow> ([], s))"

text \<open>The number pattern: an integer part, then an optional fraction and exponent.\<close>

definition scan_number :: "string \<Rightarrow> (string \<times> string \<times> string) option" where
  "scan_number s =
     (let (sg, t) = (case s of c # t \<Rightarrow> if c = CHR ''-'' then ([c], t) else ([], s) | [] \<Rightarrow> ([], s))
      in case scan_int t of
           None \<Rightarrow> None
         | Some (ip, u) \<Rightarrow>
             (let (fp, v) = scan_frac u; (ep, w) = scan_exp v
              in Some (sg @ ip, fp @ ep, w)))"

definition int_of_text :: "string \<Rightarrow> int" where
  "int_of_text s = (case s of
     c # t \<Rightarrow> if c = CHR ''-'' then - int (nat_of_digits t) else int (nat_of_digits s)
   | [] \<Rightarrow> 0)"

definition parse_number :: "(string \<Rightarrow> string) \<Rightarrow> string \<Rightarrow> (json \<times> string) option" where
  "parse_number fr s = (case scan_number s of
     None \<Rightarrow> None
   | Some (ip, fe, r) \<Rightarrow>
       if fe = [] then Some (JInt (int_of_text ip), r) else Some (JFloat (fr (ip @ fe)), r))"

definition parse_atom :: "(string \<Rightarrow> string) \<Rightarrow> string \<Rightarrow> (json \<times> string) option" where
  "parse_atom fr s =
     (if startswith s ''null'' then Some (JNull, drop 4 s)
      else if startswith s ''true'' then Some (JBool True, drop 4 s)
      else if startswith s ''false'' then Some (JBool False, drop 5 s)
      else case parse_number fr s of
        Some r \<Rightarrow> Some r
      | None \<Rightarrow>
          if startswith s ''NaN'' then Some (JFloat ''nan'', drop 3 s)
          else if startswith s ''Infinity'' then Some (JFloat ''inf'', drop 8 s)
          else if startswith s ''-Infinity'' then Some (JFloat ''-inf'', drop 9 s)
          else None)"

text \<open>
  The recursive reader. Each call spends one unit of fuel. A nested container spends two
  units for the one character that opens it, so twice the length of the text is enough:
  \<open>loads_dumps\<close> below is the proof for every text \<open>dumps\<close> prints.
\<close>

fun parse_value :: "(string \<Rightarrow> string) \<Rightarrow> nat \<Rightarrow> string \<Rightarrow> (json \<times> string) option"
and parse_elems :: "(string \<Rightarrow> string) \<Rightarrow> nat \<Rightarrow> string \<Rightarrow> (json list \<times> string) option"
and parse_members :: "(string \<Rightarrow> string) \<Rightarrow> nat \<Rightarrow> (string \<times> json) list \<Rightarrow> string
       \<Rightarrow> ((string \<times> json) list \<times> string) option" where
  "parse_value fr 0 s = None"
| "parse_value fr (Suc n) s = (case s of
     [] \<Rightarrow> None
   | c # t \<Rightarrow>
       if code c = 34 then map_option (\<lambda>(x, r). (JStr x, r)) (parse_str t)
       else if c = CHR ''['' then
         (case skip_ws t of
            [] \<Rightarrow> None
          | d # u \<Rightarrow> if d = CHR '']'' then Some (JArr [], u)
                     else map_option (\<lambda>(xs, r). (JArr xs, r)) (parse_elems fr n (d # u)))
       else if c = CHR ''{'' then
         (case skip_ws t of
            [] \<Rightarrow> None
          | d # u \<Rightarrow> if d = CHR ''}'' then Some (JObj [], u)
                     else map_option (\<lambda>(kvs, r). (JObj kvs, r)) (parse_members fr n [] (d # u)))
       else parse_atom fr s)"
| "parse_elems fr 0 s = None"
| "parse_elems fr (Suc n) s = (case parse_value fr n s of
     None \<Rightarrow> None
   | Some (v, r) \<Rightarrow>
       (case skip_ws r of
          [] \<Rightarrow> None
        | d # u \<Rightarrow> if d = CHR '']'' then Some ([v], u)
                   else if d = CHR '','' then
                     map_option (\<lambda>(vs, r'). (v # vs, r')) (parse_elems fr n (skip_ws u))
                   else None))"
| "parse_members fr 0 acc s = None"
| "parse_members fr (Suc n) acc s = (case s of
     [] \<Rightarrow> None
   | q # t \<Rightarrow>
       if code q \<noteq> 34 then None
       else (case parse_str t of
          None \<Rightarrow> None
        | Some (k, r) \<Rightarrow>
            (case skip_ws r of
               [] \<Rightarrow> None
             | d # u \<Rightarrow>
                 if d \<noteq> CHR '':'' then None
                 else (case parse_value fr n (skip_ws u) of
                    None \<Rightarrow> None
                  | Some (v, r') \<Rightarrow>
                      (case skip_ws r' of
                         [] \<Rightarrow> None
                       | e # w \<Rightarrow>
                           if e = CHR ''}'' then Some (dict_set k v acc, w)
                           else if e = CHR '','' then parse_members fr n (dict_set k v acc) (skip_ws w)
                           else None)))))"

definition loads :: "(string \<Rightarrow> string) \<Rightarrow> string \<Rightarrow> json option" where
  "loads fr s = (let t = skip_ws s in
     case parse_value fr (2 * length t + 2) t of
       None \<Rightarrow> None
     | Some (v, r) \<Rightarrow> if skip_ws r = [] then Some v else None)"

section \<open>Reading back what was printed\<close>

definition float_text :: "string \<Rightarrow> bool" where
  "float_text s = (case scan_number s of
     Some (ip, fe, r) \<Rightarrow> fe \<noteq> [] \<and> r = [] \<and> ip @ fe = s | None \<Rightarrow> False)"

fun wf_json :: "(string \<Rightarrow> string) \<Rightarrow> json \<Rightarrow> bool" where
  "wf_json fr (JFloat s) = (float_text s \<and> fr s = s)"
| "wf_json fr (JArr xs) = list_all (wf_json fr) xs"
| "wf_json fr (JObj kvs) = (distinct (map fst kvs) \<and> list_all (\<lambda>kv. wf_json fr (snd kv)) kvs)"
| "wf_json fr _ = True"

definition num_stop :: "string \<Rightarrow> bool" where
  "num_stop r = (r = [] \<or> hd r \<in> set '',]}'')"

lemma num_stop_simps [simp]:
  "num_stop []" "num_stop (CHR '','' # r)" "num_stop (CHR '']'' # r)" "num_stop (CHR ''}'' # r)"
  by (simp_all add: num_stop_def)

lemma num_stop_not_digit: "num_stop r \<Longrightarrow> takeWhile is_digit r = []"
  "num_stop r \<Longrightarrow> dropWhile is_digit r = r"
  by (cases r; auto simp: num_stop_def is_digit_def code_def)+

lemma digits_append: "num_stop r \<Longrightarrow> digits (s @ r) = digits s"
  by (induction s) (auto simp: digits_def num_stop_not_digit)

lemma dropWhile_digit_append:
  "num_stop r \<Longrightarrow> dropWhile is_digit (s @ r) = dropWhile is_digit s @ r"
  by (induction s) (auto simp: num_stop_not_digit)

lemma scan_int_append:
  "num_stop r \<Longrightarrow> scan_int s = Some (ip, t) \<Longrightarrow> scan_int (s @ r) = Some (ip, t @ r)"
  by (cases s) (auto simp: scan_int_def digits_append dropWhile_digit_append
      digits_append [of r "_ # _", simplified] dropWhile_digit_append [of r "_ # _", simplified]
      split: if_splits)

lemma scan_frac_append:
  "num_stop r \<Longrightarrow> scan_frac s = (fp, t) \<Longrightarrow> scan_frac (s @ r) = (fp, t @ r)"
proof (cases s)
  case Nil
  assume r: "num_stop r" and s: "scan_frac s = (fp, t)"
  from r Nil s show ?thesis by (cases r) (auto simp: scan_frac_def num_stop_def)
next
  case (Cons c u)
  assume "num_stop r" and "scan_frac s = (fp, t)"
  with Cons show ?thesis
    by (auto simp: scan_frac_def digits_append dropWhile_digit_append split: if_splits)
qed

lemma scan_exp_append:
  assumes r: "num_stop r" and s: "scan_exp s = (ep, t)"
  shows "scan_exp (s @ r) = (ep, t @ r)"
proof (cases s)
  case Nil
  with r s show ?thesis by (cases r) (auto simp: scan_exp_def num_stop_def)
next
  case (Cons e u)
  show ?thesis
  proof (cases u)
    case Nil
    with r s Cons show ?thesis
      by (cases r) (auto simp: scan_exp_def num_stop_def digits_def is_digit_def code_def
          split: if_splits)
  next
    case (Cons sg w)
    have "digits (sg # w @ r) = digits (sg # w)"
      "dropWhile is_digit (sg # w @ r) = dropWhile is_digit (sg # w) @ r"
      using digits_append [OF r, of "sg # w"] dropWhile_digit_append [OF r, of "sg # w"] by simp_all
    with r s \<open>s = e # u\<close> Cons show ?thesis
      by (auto simp: scan_exp_def digits_append dropWhile_digit_append split: if_splits
          simp del: dropWhile.simps)
  qed
qed

lemma scan_number_append:
  assumes r: "num_stop r" and s: "scan_number s = Some (ip, fe, t)"
  shows "scan_number (s @ r) = Some (ip, fe, t @ r)"
proof -
  define sg where "sg = (case s of c # t \<Rightarrow> if c = CHR ''-'' then ([c], t) else ([], s) | [] \<Rightarrow> ([], s))"
  have s_ne: "s \<noteq> []" using s by (auto simp: scan_number_def scan_int_def)
  obtain a b where ab: "sg = (a, b)" by (cases sg)
  have sg': "(case s @ r of c # t \<Rightarrow> if c = CHR ''-'' then ([c], t) else ([], s @ r) | [] \<Rightarrow> ([], s @ r))
      = (a, b @ r)"
    using s_ne ab by (cases s) (auto simp: sg_def split: if_splits)
  from s ab obtain i u where i: "scan_int b = Some (i, u)"
    unfolding scan_number_def sg_def [symmetric] by (auto split: option.splits prod.splits)
  obtain f v where f: "scan_frac u = (f, v)" by (cases "scan_frac u")
  obtain e w where e: "scan_exp v = (e, w)" by (cases "scan_exp v")
  from s ab i f e have res: "ip = a @ i" "fe = f @ e" "t = w"
    unfolding scan_number_def sg_def [symmetric] by auto
  show ?thesis
    unfolding scan_number_def sg'
    using scan_int_append [OF r i] scan_frac_append [OF r f] scan_exp_append [OF r e] res by simp
qed

subsection \<open>Strings\<close>

lemma hex_val_digit: "d < 16 \<Longrightarrow> hex_val (hex_digit d) = Some d"
  by (auto simp: hex_val_def hex_digit_def code_def Let_def)

lemma code_less: "code c < 256"
  by (simp add: code_def)

lemma char_of_code: "char_of (code c) = c"
  by (simp add: code_def)

lemma code_inject: "code c = code d \<Longrightarrow> c = d"
  by (metis char_of_code)

lemma esc_char_nonempty: "esc_char c \<noteq> []"
  by (simp add: esc_char_def Let_def)

lemma parse_str_escaped:
  assumes t: "t \<noteq> []"
  shows "parse_str (esc_char c @ t) = map_option (\<lambda>(r, u). (c # r, u)) (parse_str t)"
proof -
  have codes: "code (CHR 0x5C) = 92" "code (CHR 0x22) = 34" by (simp_all add: code_def)
  obtain d s where ds: "t = d # s" using t by (cases t) auto
  consider "c \<in> {CHR 0x22, CHR 0x5C, CHR 0x0A, CHR 0x0D, CHR 0x09, CHR 0x0C, CHR 0x08}"
    | "code c \<notin> {34, 92, 10, 13, 9, 12, 8}"
      "code c < 32 \<or> 126 < code c"
    | "32 \<le> code c" "code c \<le> 126" "code c \<noteq> 34" "code c \<noteq> 92"
  proof -
    have "code c = 34 \<Longrightarrow> c = CHR 0x22" "code c = 92 \<Longrightarrow> c = CHR 0x5C"
      "code c = 10 \<Longrightarrow> c = CHR 0x0A" "code c = 13 \<Longrightarrow> c = CHR 0x0D" "code c = 9 \<Longrightarrow> c = CHR 0x09"
      "code c = 12 \<Longrightarrow> c = CHR 0x0C" "code c = 8 \<Longrightarrow> c = CHR 0x08"
      by (rule code_inject, simp add: code_def)+
    then show ?thesis using that by (cases "code c < 32 \<or> 126 < code c") auto
  qed
  then show ?thesis
  proof cases
    case 1
    then show ?thesis
      by (auto simp: esc_char_def simple_escape_def codes code_def Let_def)
  next
    case 2
    have "hex_val (CHR ''0'') = Some 0" by (simp add: hex_val_def code_def)
    moreover have "code c div 16 < 16" "code c mod 16 < 16" using code_less [of c] by auto
    moreover have "16 * (code c div 16) + code c mod 16 = code c" by simp
    ultimately show ?thesis using 2
      by (simp add: esc_char_def Let_def codes hex_val_digit char_of_code)
  next
    case 3
    then show ?thesis using ds by (simp add: esc_char_def Let_def)
  qed
qed

lemma parse_str_quoted: "parse_str (concat (map esc_char s) @ CHR 0x22 # r) = Some (s, r)"
proof (induction s)
  case Nil
  show ?case by (cases r) (simp_all add: code_def)
next
  case (Cons c s)
  then show ?case by (simp add: parse_str_escaped)
qed

subsection \<open>Numbers\<close>

lemma digits_nat_str: "num_stop r \<Longrightarrow> digits (nat_str n @ r) = nat_str n"
  "num_stop r \<Longrightarrow> dropWhile is_digit (nat_str n @ r) = r"
proof -
  have all: "\<forall>c \<in> set (nat_str n). is_digit c" using nat_str_digits by blast
  then have "digits (nat_str n) = nat_str n" "dropWhile is_digit (nat_str n) = []"
    by (simp_all add: digits_def takeWhile_eq_all_conv dropWhile_eq_Nil_conv)
  then show "num_stop r \<Longrightarrow> digits (nat_str n @ r) = nat_str n"
    "num_stop r \<Longrightarrow> dropWhile is_digit (nat_str n @ r) = r"
    by (simp_all only: digits_append dropWhile_digit_append append_Nil)
qed

lemma scan_int_nat_str: "num_stop r \<Longrightarrow> scan_int (nat_str n @ r) = Some (nat_str n, r)"
proof (cases "n = 0")
  case True
  have "nat_str 0 = ''0''" 
    by (subst nat_str.simps) (simp, rule code_inject, simp add: code_digit_char, simp add: code_def)
  then show ?thesis using True by (simp add: scan_int_def)
next
  case False
  assume r: "num_stop r"
  obtain c t where ct: "nat_str n = c # t" by (cases "nat_str n") auto
  have "c \<noteq> CHR ''0''" using nat_str_leading [OF False] ct by simp
  moreover have "is_digit c" using nat_str_digits [of c n] ct by simp
  ultimately show ?thesis
    using digits_nat_str [OF r, of n] by (simp add: scan_int_def ct)
qed

lemma scan_no_frac_exp: "num_stop r \<Longrightarrow> scan_frac r = ([], r)" "num_stop r \<Longrightarrow> scan_exp r = ([], r)"
  by (cases r; auto simp: scan_frac_def scan_exp_def num_stop_def)+

lemma hd_nat_str: "is_digit (hd (nat_str n))"
  using nat_str_digits [of "hd (nat_str n)" n] by simp

lemma scan_number_int: "num_stop r \<Longrightarrow> scan_number (int_str i @ r) = Some (int_str i, [], r)"
proof -
  assume r: "num_stop r"
  show ?thesis
  proof (cases "i < 0")
    case True
    then show ?thesis using scan_int_nat_str [OF r] scan_no_frac_exp [OF r]
      by (simp add: scan_number_def int_str_def)
  next
    case False
    obtain c t where ct: "nat_str (nat i) = c # t" by (cases "nat_str (nat i)") auto
    have "c \<noteq> CHR ''-''" using hd_nat_str [of "nat i"] ct digit_not_minus by simp
    then show ?thesis using scan_int_nat_str [OF r, of "nat i"] scan_no_frac_exp [OF r] False ct
      by (simp add: scan_number_def int_str_def)
  qed
qed

lemma int_of_text_int_str [simp]: "int_of_text (int_str i) = i"
proof (cases "i < 0")
  case False
  obtain c t where ct: "nat_str (nat i) = c # t" by (cases "nat_str (nat i)") auto
  have "c \<noteq> CHR ''-''" using hd_nat_str [of "nat i"] ct digit_not_minus by simp
  then have "int_of_text (int_str i) = int (nat_of_digits (nat_str (nat i)))"
    using False ct by (simp add: int_of_text_def int_str_def)
  with False show ?thesis by simp
qed (simp add: int_of_text_def int_str_def)

lemma parse_number_int:
  "num_stop r \<Longrightarrow> parse_number fr (int_str i @ r) = Some (JInt i, r)"
  by (simp add: parse_number_def scan_number_int)

lemma parse_number_float:
  "num_stop r \<Longrightarrow> float_text s \<Longrightarrow> fr s = s \<Longrightarrow> parse_number fr (s @ r) = Some (JFloat s, r)"
proof -
  assume r: "num_stop r" and s: "float_text s" "fr s = s"
  from s(1) obtain ip fe where n: "scan_number s = Some (ip, fe, [])" and fe: "fe \<noteq> []" "ip @ fe = s"
    by (auto simp: float_text_def split: option.splits)
  from scan_number_append [OF r n] fe s(2) show ?thesis by (simp add: parse_number_def)
qed

text \<open>Whatever scans as a number opens with a digit or a minus sign.\<close>

definition numeric_start :: "string \<Rightarrow> bool" where
  "numeric_start s = (\<exists>c t. s = c # t \<and> (is_digit c \<or> c = CHR ''-''))"

lemma scan_number_start: "scan_number s = Some x \<Longrightarrow> numeric_start s"
  by (cases s) (auto simp: scan_number_def scan_int_def numeric_start_def is_digit_def code_def
      split: if_splits option.splits)

lemma parse_value_number:
  assumes "parse_number fr s = Some (v, r)" "0 < n"
  shows "parse_value fr n s = Some (v, r)"
proof -
  obtain m where m: "n = Suc m" using assms(2) by (cases n) auto
  have "numeric_start s"
    using assms(1) scan_number_start by (auto simp: parse_number_def split: option.splits)
  then obtain c t where ct: "s = c # t" and c: "is_digit c \<or> c = CHR ''-''"
    by (auto simp: numeric_start_def)
  have "\<not> startswith s ''null''" "\<not> startswith s ''true''" "\<not> startswith s ''false''"
    using ct c by (auto simp: startswith_def is_digit_def code_def)
  moreover have "code c \<noteq> 34" "c \<noteq> CHR ''[''" "c \<noteq> CHR ''{''"
    using c by (auto simp: is_digit_def code_def)
  ultimately show ?thesis using assms(1) by (simp add: m ct parse_atom_def)
qed

subsection \<open>Values\<close>

lemma skip_ws_id: "s \<noteq> [] \<Longrightarrow> \<not> is_ws (hd s) \<Longrightarrow> skip_ws s = s"
  by (cases s) (simp_all add: skip_ws_def)

lemma float_text_start: "float_text s \<Longrightarrow> numeric_start s"
  using scan_number_start by (auto simp: float_text_def split: option.splits)

lemma int_str_start: "numeric_start (int_str i)"
  using scan_number_start [OF scan_number_int [of "[]" i]] by simp

lemma numeric_not_ws: "numeric_start s \<Longrightarrow> s \<noteq> [] \<and> \<not> is_ws (hd s) \<and> hd s \<noteq> CHR '']'' \<and> hd s \<noteq> CHR ''}''"
  by (auto simp: numeric_start_def is_digit_def is_ws_def code_def Let_def)

lemma dumps_start: "wf_json fr j \<Longrightarrow> dumps j \<noteq> [] \<and> \<not> is_ws (hd (dumps j)) \<and> hd (dumps j) \<noteq> CHR '']''"
proof (cases j)
  case (JInt i)
  then show ?thesis using numeric_not_ws [OF int_str_start] by simp
next
  case (JFloat s)
  moreover assume "wf_json fr j"
  ultimately show ?thesis using numeric_not_ws [OF float_text_start] by simp
qed (auto simp: quote_def is_ws_def code_def Let_def)

lemma skip_ws_dumps:
  "wf_json fr j \<Longrightarrow> skip_ws (dumps j @ r) = dumps j @ r"
  using dumps_start [of fr j] by (intro skip_ws_id) auto

definition reads_back :: "(string \<Rightarrow> string) \<Rightarrow> json \<Rightarrow> bool" where
  "reads_back fr j = (\<forall>n r. num_stop r \<longrightarrow> 2 * length (dumps j @ r) < n \<longrightarrow>
     parse_value fr n (dumps j @ r) = Some (j, r))"

lemma reads_backD:
  "reads_back fr j \<Longrightarrow> num_stop r \<Longrightarrow> 2 * length (dumps j @ r) < n \<Longrightarrow>
   parse_value fr n (dumps j @ r) = Some (j, r)"
  by (simp add: reads_back_def)

lemma parse_elems_dumps:
  assumes "xs \<noteq> []" "\<And>x. x \<in> set xs \<Longrightarrow> wf_json fr x \<and> reads_back fr x"
    "2 * length (join '','' (map dumps xs) @ CHR '']'' # r) + 1 < n"
  shows "parse_elems fr n (join '','' (map dumps xs) @ CHR '']'' # r) = Some (xs, r)"
  using assms
proof (induction xs arbitrary: n)
  case Nil
  then show ?case by simp
next
  case (Cons x xs)
  obtain m where m: "n = Suc m" using Cons.prems(3) by (cases n) auto
  have x: "wf_json fr x" "reads_back fr x" using Cons.prems(2) by auto
  have ws: "\<not> is_ws (CHR '']'')" "\<not> is_ws (CHR '','')" by (simp_all add: is_ws_def code_def)
  show ?case
  proof (cases xs)
    case Nil
    have "parse_value fr m (dumps x @ CHR '']'' # r) = Some (x, CHR '']'' # r)"
      using Cons.prems(3) Nil m by (intro reads_backD [OF x(2)]) auto
    then show ?thesis using Nil m ws by (simp add: skip_ws_def)
  next
    case (Cons y ys)
    define rest where "rest = join '','' (map dumps xs) @ CHR '']'' # r"
    have "parse_value fr m (dumps x @ CHR '','' # rest) = Some (x, CHR '','' # rest)"
      using Cons.prems(3) Cons m by (intro reads_backD [OF x(2)]) (auto simp: rest_def)
    moreover have "parse_elems fr m rest = Some (xs, r)"
      unfolding rest_def using Cons.prems Cons m by (intro Cons.IH) auto
    moreover have "skip_ws rest = rest"
    proof -
      have "wf_json fr y" using Cons.prems(2) Cons by simp
      then show ?thesis using skip_ws_dumps [of fr y] Cons by (cases ys) (auto simp: rest_def)
    qed
    ultimately show ?thesis using Cons m ws by (simp add: rest_def skip_ws_def)
  qed
qed

abbreviation print_member :: "string \<times> json \<Rightarrow> string" where
  "print_member kv \<equiv> quote (fst kv) @ '':'' @ dumps (snd kv)"

lemma dict_set_new: "k \<notin> fst ` set d \<Longrightarrow> dict_set k v d = d @ [(k, v)]"
  by (induction k v d rule: dict_set.induct) auto

lemma parse_member_step:
  assumes x: "wf_json fr v" "reads_back fr v" and r: "num_stop r" "r \<noteq> []" "\<not> is_ws (hd r)"
    and n: "2 * length (print_member (k, v) @ r) < Suc m"
  shows "parse_members fr (Suc m) acc (print_member (k, v) @ r) =
    (if hd r = CHR ''}'' then Some (dict_set k v acc, tl r)
     else if hd r = CHR '','' then parse_members fr m (dict_set k v acc) (skip_ws (tl r)) else None)"
proof -
  have q: "code (CHR 0x22) = 34" "\<not> is_ws (CHR '':'')" by (simp_all add: code_def is_ws_def)
  have "parse_value fr m (dumps v @ r) = Some (v, r)"
    using n by (intro reads_backD [OF x(2) r(1)]) (simp add: quote_def)
  moreover have "parse_str (concat (map esc_char k) @ CHR 0x22 # CHR '':'' # dumps v @ r)
      = Some (k, CHR '':'' # dumps v @ r)"
    by (rule parse_str_quoted)
  moreover have "skip_ws r = r" using r by (intro skip_ws_id)
  ultimately show ?thesis
    using r(2) skip_ws_dumps [OF x(1), of r] q
    by (cases r) (simp_all add: quote_def skip_ws_id)
qed

lemma parse_members_dumps:
  assumes "kvs \<noteq> []" "\<And>kv. kv \<in> set kvs \<Longrightarrow> wf_json fr (snd kv) \<and> reads_back fr (snd kv)"
    "distinct (map fst (acc @ kvs))"
    "2 * length (join '','' (map print_member kvs) @ CHR ''}'' # r) < n"
  shows "parse_members fr n acc (join '','' (map print_member kvs) @ CHR ''}'' # r)
    = Some (acc @ kvs, r)"
  using assms
proof (induction kvs arbitrary: n acc)
  case Nil
  then show ?case by simp
next
  case (Cons kv kvs)
  obtain m where m: "n = Suc m" using Cons.prems(4) by (cases n) auto
  obtain k v where kv: "kv = (k, v)" by (cases kv)
  have x: "wf_json fr v" "reads_back fr v" using Cons.prems(2) [of kv] kv by auto
  have new: "dict_set k v acc = acc @ [(k, v)]"
    using Cons.prems(3) kv by (intro dict_set_new) auto
  have ws: "\<not> is_ws (CHR ''}'')" "\<not> is_ws (CHR '','')" by (simp_all add: is_ws_def code_def)
  show ?case
  proof (cases kvs)
    case Nil
    then show ?thesis
      using parse_member_step [OF x, of "CHR ''}'' # r" k m acc] Cons.prems(4) kv m new ws by simp
  next
    case (Cons y ys)
    define rest where "rest = join '','' (map print_member kvs) @ CHR ''}'' # r"
    have "skip_ws rest = rest"
      using Cons by (cases ys) (simp_all add: rest_def quote_def skip_ws_def is_ws_def code_def)
    moreover have "parse_members fr m (acc @ [(k, v)]) rest = Some ((acc @ [(k, v)]) @ kvs, r)"
      unfolding rest_def using Cons.prems Cons kv m by (intro Cons.IH) auto
    ultimately show ?thesis
      using parse_member_step [OF x, of "CHR '','' # rest" k m acc] Cons.prems(4) Cons kv m new ws
      by (simp add: rest_def)
  qed
qed

lemma reads_back_all: "wf_json fr j \<Longrightarrow> reads_back fr j"
proof (induction j)
  case (JArr xs)
  have q: "code (CHR ''['') \<noteq> 34" by (simp add: code_def)
  have IH: "\<And>x. x \<in> set xs \<Longrightarrow> wf_json fr x \<and> reads_back fr x"
    using JArr by (simp add: list_all_iff)
  show ?case unfolding reads_back_def
  proof (intro allI impI)
    fix n r assume r: "num_stop r" and n: "2 * length (dumps (JArr xs) @ r) < n"
    obtain m where m: "n = Suc m" using n by (cases n) auto
    show "parse_value fr n (dumps (JArr xs) @ r) = Some (JArr xs, r)"
    proof (cases xs)
      case Nil
      then show ?thesis using m q by (simp add: skip_ws_def is_ws_def code_def)
    next
      case (Cons y ys)
      define s where "s = join '','' (map dumps xs) @ CHR '']'' # r"
      have y: "wf_json fr y" using IH Cons by simp
      obtain t where s: "s = dumps y @ t"
        using Cons by (cases ys) (simp_all add: s_def)
      have "skip_ws s = s" "s \<noteq> []" "hd s \<noteq> CHR '']''"
        using skip_ws_dumps [OF y] dumps_start [OF y] s by auto
      moreover have "parse_elems fr m s = Some (xs, r)"
        unfolding s_def using Cons IH n m by (intro parse_elems_dumps) auto
      ultimately show ?thesis using m q by (cases s) (simp_all add: s_def)
    qed
  qed
next
  case (JObj kvs)
  have q: "code (CHR ''{'') \<noteq> 34" by (simp add: code_def)
  have IH: "\<And>kv. kv \<in> set kvs \<Longrightarrow> wf_json fr (snd kv) \<and> reads_back fr (snd kv)"
    using JObj by (auto simp: list_all_iff)
  show ?case unfolding reads_back_def
  proof (intro allI impI)
    fix n r assume r: "num_stop r" and n: "2 * length (dumps (JObj kvs) @ r) < n"
    obtain m where m: "n = Suc m" using n by (cases n) auto
    show "parse_value fr n (dumps (JObj kvs) @ r) = Some (JObj kvs, r)"
    proof (cases kvs)
      case Nil
      then show ?thesis using m q by (simp add: skip_ws_def is_ws_def code_def)
    next
      case (Cons y ys)
      define s where "s = join '','' (map print_member kvs) @ CHR ''}'' # r"
      obtain t where s: "s = CHR 0x22 # t"
        using Cons by (cases ys) (simp_all add: s_def quote_def)
      have "skip_ws s = s" "hd s \<noteq> CHR ''}''"
        using s by (simp_all add: skip_ws_def is_ws_def code_def)
      moreover have "parse_members fr m [] s = Some (kvs, r)"
        using parse_members_dumps [of kvs fr "[]" r m] Cons IH n m JObj.prems by (simp add: s_def)
      ultimately show ?thesis using m q s by (simp add: s_def)
    qed
  qed
next
  case (JInt i)
  show ?case unfolding reads_back_def
    by (auto intro!: parse_value_number parse_number_int)
next
  case (JFloat s)
  then show ?case unfolding reads_back_def
    by (auto intro!: parse_value_number parse_number_float)
next
  case (JStr s)
  have "parse_value fr (Suc m) (quote s @ r) = Some (JStr s, r)" for m r
    by (simp add: quote_def parse_str_quoted) (simp add: code_def)
  then show ?case unfolding reads_back_def
    by (metis dumps.simps(5) gr0_implies_Suc less_nat_zero_code not_gr_zero)
next
  case JNull
  have "parse_value fr (Suc m) (''null'' @ r) = Some (JNull, r)" for m r
    by (simp add: parse_atom_def startswith_def code_def)
  then show ?case unfolding reads_back_def
    by (metis dumps.simps(1) gr0_implies_Suc less_nat_zero_code not_gr_zero)
next
  case (JBool b)
  have "parse_value fr (Suc m) (dumps (JBool b) @ r) = Some (JBool b, r)" for m r
    by (simp add: parse_atom_def startswith_def code_def)
  then show ?case unfolding reads_back_def
    by (metis gr0_implies_Suc less_nat_zero_code not_gr_zero)
qed

text \<open>Reading a printed value gives it back.\<close>

lemma loads_dumps: "wf_json fr j \<Longrightarrow> loads fr (dumps j) = Some j"
proof -
  assume j: "wf_json fr j"
  have "skip_ws (dumps j) = dumps j" using skip_ws_dumps [OF j, of "[]"] by simp
  moreover have "parse_value fr (2 * length (dumps j) + 2) (dumps j) = Some (j, [])"
    using reads_backD [OF reads_back_all [OF j], of "[]" "2 * length (dumps j) + 2"]
    by (simp del: parse_value.simps)
  ultimately show ?thesis
    unfolding loads_def Let_def by (simp add: skip_ws_def del: parse_value.simps)
qed

lemma dumps_inject: "wf_json fr i \<Longrightarrow> wf_json fr j \<Longrightarrow> dumps i = dumps j \<Longrightarrow> i = j"
  by (metis loads_dumps option.inject)

lemma wf_sort_json: "wf_json fr j \<Longrightarrow> wf_json fr (sort_json j)"
proof (induction j)
  case (JArr xs)
  then show ?case by (simp add: list_all_iff)
next
  case (JObj kvs)
  define l where "l = map (\<lambda>kv. (fst kv, sort_json (snd kv))) kvs"
  have "map fst l = map fst kvs" by (simp add: l_def)
  then have "distinct l" "inj_on fst (set l)"
    using JObj.prems by (metis distinct_map wf_json.simps(3))+
  then have "distinct (map fst (sort_key fst (map (\<lambda>kv. (fst kv, sort_json (snd kv))) kvs)))"
    unfolding l_def [symmetric] by (simp add: distinct_map)
  with JObj show ?case by (fastforce simp: list_all_iff)
qed auto

section \<open>\<open>str\<close> of a decoded value\<close>

definition repr_char :: "char \<Rightarrow> char \<Rightarrow> string" where
  "repr_char q c = (let n = code c in
     if c = q \<or> n = 92 then [CHR 0x5C, c]
     else if n = 10 then [CHR 0x5C, CHR ''n''] else if n = 13 then [CHR 0x5C, CHR ''r'']
     else if n = 9 then [CHR 0x5C, CHR ''t'']
     else if n < 32 \<or> (127 \<le> n \<and> n \<le> 160) \<or> n = 173
       then [CHR 0x5C, CHR ''x'', hex_digit (n div 16), hex_digit (n mod 16)]
     else [c])"

definition repr_str :: "string \<Rightarrow> string" where
  "repr_str s = (let q = (if CHR 0x27 \<in> set s \<and> CHR 0x22 \<notin> set s then CHR 0x22 else CHR 0x27) in
     [q] @ concat (map (repr_char q) s) @ [q])"

fun py_repr :: "json \<Rightarrow> string" where
  "py_repr JNull = ''None''"
| "py_repr (JBool b) = (if b then ''True'' else ''False'')"
| "py_repr (JInt i) = int_str i"
| "py_repr (JFloat t) = t"
| "py_repr (JStr s) = repr_str s"
| "py_repr (JArr xs) = ''['' @ join '', '' (map py_repr xs) @ '']''"
| "py_repr (JObj kvs) = ''{'' @ join '', '' (map (\<lambda>kv. repr_str (fst kv) @ '': '' @ py_repr (snd kv)) kvs) @ ''}''"

definition py_str :: "json \<Rightarrow> string" where
  "py_str j = (case j of JStr s \<Rightarrow> s | _ \<Rightarrow> py_repr j)"

end
