(* ===== verification/RunState.thy ===== *)
theory RunState
  imports PyJson Complex_Main
begin

text \<open>
  The data both graphs thread through their nodes: \<open>agentic_control_plane/state.py\<close> and
  \<open>agentic_control_plane/specialist_state.py\<close>. A pydantic model is a record, a \<open>Literal\<close> is
  a datatype, and a string reaching a \<open>Literal\<close> field goes through the reader below that
  rejects what pydantic rejects. A node returns the partial dict of channels it writes;
  here that dict is a list of \<open>chan_write\<close>s, and \<open>apply_write\<close> is the channel's reducer:
  \<open>operator.add\<close> for \<open>events\<close> and \<open>coder_attempts\<close>, overwrite for every other channel.
  Clock readings are arguments: one reading stands for every \<open>_utc_now\<close> of a node call.
\<close>

section \<open>Vocabulary\<close>

datatype ScenarioType = Greenfield | Brownfield | Ambiguous
datatype OrchestratorMode = Live | Replay
datatype RunStatus = Running | Completed | Failed
datatype GateType =
    ClarificationApproval
  | CodebaseImpactReview
  | PlanApproval
  | ReplanningApproval
  | MergeReleaseApproval
  | SpecialistDesignReview
datatype GateDecisionStatus = Pending | Approved | Rejected | Edited
datatype DecidedBy = Human | Replayed
datatype RouteHint = NoHint | Proceed | Retry | FallbackAttempt | HintRollback
datatype EventType =
    NodeStart | NodeEnd | GateDecision | EvRetry | EvFallback | EvRollback | EvSafeStop
  | EvGuardrailViolation
datatype GuardrailRule = UnsafeCall | DdlChange | SecretDetected

text \<open>The strings of the \<open>Literal\<close> types, and the reader pydantic applies to a value.\<close>

fun gate_name :: "GateType \<Rightarrow> string" where
  "gate_name ClarificationApproval = ''clarification_approval''"
| "gate_name CodebaseImpactReview = ''codebase_impact_review''"
| "gate_name PlanApproval = ''plan_approval''"
| "gate_name ReplanningApproval = ''replanning_approval''"
| "gate_name MergeReleaseApproval = ''merge_release_approval''"
| "gate_name SpecialistDesignReview = ''specialist_design_review''"

definition read_status :: "string \<Rightarrow> GateDecisionStatus option" where
  "read_status s =
     (if s = ''pending'' then Some Pending else if s = ''approved'' then Some Approved
      else if s = ''rejected'' then Some Rejected else if s = ''edited'' then Some Edited else None)"

definition read_decided_by :: "string \<Rightarrow> DecidedBy option" where
  "read_decided_by s = (if s = ''human'' then Some Human else if s = ''replayed'' then Some Replayed else None)"

fun scenario_name :: "ScenarioType \<Rightarrow> string" where
  "scenario_name Greenfield = ''greenfield''"
| "scenario_name Brownfield = ''brownfield''"
| "scenario_name Ambiguous = ''ambiguous''"

fun run_status_name :: "RunStatus \<Rightarrow> string" where
  "run_status_name Running = ''running''"
| "run_status_name Completed = ''completed''"
| "run_status_name Failed = ''failed''"

fun gate_status_text :: "GateDecisionStatus \<Rightarrow> string" where
  "gate_status_text Pending = ''pending''"
| "gate_status_text Approved = ''approved''"
| "gate_status_text Rejected = ''rejected''"
| "gate_status_text Edited = ''edited''"

lemma read_status_text: "read_status s = Some st \<longleftrightarrow> s = gate_status_text st"
  by (cases st) (auto simp: read_status_def)

text \<open>The gates in the order the vocabulary lists them.\<close>

fun gate_index :: "GateType \<Rightarrow> nat" where
  "gate_index ClarificationApproval = 0"
| "gate_index CodebaseImpactReview = 1"
| "gate_index PlanApproval = 2"
| "gate_index ReplanningApproval = 3"
| "gate_index MergeReleaseApproval = 4"
| "gate_index SpecialistDesignReview = 5"

lemma gate_index_inject: "gate_index g = gate_index h \<Longrightarrow> g = h"
  by (cases g; cases h) auto

instantiation GateType :: linorder
begin
definition less_eq_GateType :: "GateType \<Rightarrow> GateType \<Rightarrow> bool" where
  "less_eq_GateType g h = (gate_index g \<le> gate_index h)"
definition less_GateType :: "GateType \<Rightarrow> GateType \<Rightarrow> bool" where
  "less_GateType g h = (gate_index g < gate_index h)"
instance
  by standard (auto simp: less_eq_GateType_def less_GateType_def intro: gate_index_inject)
end

lemma gate_name_inject: "gate_name g = gate_name h \<Longrightarrow> g = h"
  by (cases g; cases h) auto

section \<open>Decisions and gate records\<close>

text \<open>
  The dict a resume delivers to \<open>interrupt\<close>. A missing key is \<open>None\<close>; the values the nodes
  read are the ones listed. The text \<open>str(decision)\<close> a gate record keeps is represented
  by the decision itself.
\<close>

record decision =
  d_status :: "string option"
  d_decided_by :: "string option"
  d_decided_by_identity :: "string option"
  d_override_guardrails :: "bool option"
  d_comment :: "string option"
  d_clarified_requirement :: "string option"
  d_replayed_from_fixture :: "bool option"

definition get_or :: "'a \<Rightarrow> 'a option \<Rightarrow> 'a" where
  "get_or d x = (case x of None \<Rightarrow> d | Some v \<Rightarrow> v)"

lemma get_or_simps [simp]: "get_or d None = d" "get_or d (Some v) = v"
  by (simp_all add: get_or_def)

record GateRecord =
  gr_gate_type :: GateType
  gr_status :: GateDecisionStatus
  gr_decision_payload :: "decision option"
  gr_decided_by :: "DecidedBy option"
  gr_replayed_from_fixture :: bool
  gr_timestamp :: "time option"

datatype node_error =
    ValidationError string
  | ValueError string
  | GitOperationError string
  | FileNotFoundError string
  | KeyError string
  | OsError string
  | RuntimeError string
  | TimeoutExpired string
  | AttributeError string
  | TypeError string

definition make_gate_record ::
  "GateType \<Rightarrow> decision \<Rightarrow> time option \<Rightarrow> (node_error, GateRecord) result" where
  "make_gate_record g d ts =
     (case (read_status (get_or ''approved'' (d_status d)), read_decided_by (get_or ''human'' (d_decided_by d))) of
        (Some st, Some by) \<Rightarrow>
          Inr \<lparr>gr_gate_type = g, gr_status = st, gr_decision_payload = Some d, gr_decided_by = Some by,
               gr_replayed_from_fixture = get_or False (d_replayed_from_fixture d), gr_timestamp = ts\<rparr>
      | _ \<Rightarrow> Inl (ValidationError ''GateRecord''))"

lemma make_gate_record_Inr:
  "make_gate_record g d ts = Inr r \<Longrightarrow>
     gr_gate_type r = g \<and> read_status (get_or ''approved'' (d_status d)) = Some (gr_status r)"
  by (auto simp: make_gate_record_def split: option.splits)

section \<open>Records of the run\<close>

record AuditEvent =
  ae_timestamp :: time
  ae_node :: string
  ae_event_type :: EventType
  ae_detail :: string
  ae_decision :: "string option"
  ae_latency_ms :: "int option"

record CodebaseImpact =
  ci_skipped :: bool
  ci_impacted_modules :: "string list"
  ci_impacted_apis :: "string list"
  ci_summary :: string

record ArchitectureDesign =
  ad_summary :: string
  ad_api_schema_changes :: "string list"

datatype TaskStatus = TaskPending | TaskInProgress | TaskDone

record Task =
  t_id :: string
  t_description :: string
  t_depends_on :: "string list"
  t_status :: TaskStatus

record CoderOutput =
  co_code_files :: "(string, string) dict"
  co_attempt_number :: int
  co_fixture_source :: "string option"
  co_commit_sha_before :: "string option"
  co_rationale :: string

record TestResult =
  tr_passed :: bool
  tr_failures :: "string list"
  tr_attempt_number :: int
  tr_logs :: string

record GuardrailViolation =
  gv_rule :: GuardrailRule
  gv_location :: string
  gv_overridden_by_human :: bool

text \<open>Its one field, \<open>doc_files\<close>.\<close>

type_synonym DocumentationOutput = "(string, string) dict"

record RunMetrics =
  rm_success_rate :: "rat option"
  rm_retry_frequency :: "rat option"
  rm_rollback_frequency :: "rat option"
  rm_mttr_seconds :: "rat option"
  rm_e2e_latency_seconds :: "rat option"

definition empty_impact :: CodebaseImpact where
  "empty_impact = \<lparr>ci_skipped = True, ci_impacted_modules = [], ci_impacted_apis = [], ci_summary = []\<rparr>"

definition empty_design :: ArchitectureDesign where
  "empty_design = \<lparr>ad_summary = [], ad_api_schema_changes = []\<rparr>"

definition empty_coder :: CoderOutput where
  "empty_coder = \<lparr>co_code_files = [], co_attempt_number = 0, co_fixture_source = None,
     co_commit_sha_before = None, co_rationale = []\<rparr>"

definition empty_test :: TestResult where
  "empty_test = \<lparr>tr_passed = False, tr_failures = [], tr_attempt_number = 0, tr_logs = []\<rparr>"

definition empty_metrics :: RunMetrics where
  "empty_metrics = \<lparr>rm_success_rate = None, rm_retry_frequency = None, rm_rollback_frequency = None,
     rm_mttr_seconds = None, rm_e2e_latency_seconds = None\<rparr>"

section \<open>The SDLC graph's state\<close>

record GraphState =
  run_id :: string
  scenario_type :: ScenarioType
  mode :: OrchestratorMode
  fixture_id :: "string option"
  run_status :: RunStatus
  commit_sha_after :: "string option"
  requirement_raw :: string
  requirement_clarified :: string
  ambiguities :: "string list"
  gates :: "GateType \<rightharpoonup> GateRecord"
  codebase_impact :: CodebaseImpact
  architecture_design :: ArchitectureDesign
  tasks :: "Task list"
  coder_output :: CoderOutput
  coder_attempts :: "CoderOutput list"
  test :: TestResult
  documentation :: DocumentationOutput
  retry_count :: int
  retry_limit :: int
  fallback_triggered :: bool
  rollback_count :: int
  safe_stop :: bool
  route_hint :: RouteHint
  guardrail_violations :: "GuardrailViolation list"
  replanning_triggered :: bool
  replanning_reason :: string
  events :: "AuditEvent list"
  metrics :: RunMetrics
  started_at :: time
  finished_at :: "time option"

text \<open>The state a run starts from: every field at its declared default.\<close>

definition new_graph_state :: "string \<Rightarrow> ScenarioType \<Rightarrow> string \<Rightarrow> OrchestratorMode \<Rightarrow> time \<Rightarrow> GraphState" where
  "new_graph_state rid sc req m now =
     \<lparr>run_id = rid, scenario_type = sc, mode = m, fixture_id = None, run_status = Running,
      commit_sha_after = None, requirement_raw = req, requirement_clarified = [], ambiguities = [],
      gates = Map.empty, codebase_impact = empty_impact, architecture_design = empty_design,
      tasks = [], coder_output = empty_coder, coder_attempts = [], test = empty_test,
      documentation = [], retry_count = 0, retry_limit = 3, fallback_triggered = False,
      rollback_count = 0, safe_stop = False, route_hint = NoHint, guardrail_violations = [],
      replanning_triggered = False, replanning_reason = [], events = [], metrics = empty_metrics,
      started_at = now, finished_at = None\<rparr>"

section \<open>Channel writes and reducers\<close>

datatype channel =
    ChRunStatus | ChCommitShaAfter | ChRequirementClarified | ChAmbiguities | ChGates
  | ChCodebaseImpact | ChArchitectureDesign | ChTasks | ChCoder | ChCoderAttempts | ChTest
  | ChDocumentation | ChRetryCount | ChFallbackTriggered | ChRollbackCount | ChSafeStop
  | ChRouteHint | ChGuardrailViolations | ChReplanningTriggered | ChReplanningReason | ChEvents
  | ChFinishedAt

datatype chan_write =
    WRunStatus RunStatus
  | WCommitShaAfter "string option"
  | WRequirementClarified string
  | WAmbiguities "string list"
  | WGates "GateType \<rightharpoonup> GateRecord"
  | WCodebaseImpact CodebaseImpact
  | WArchitectureDesign ArchitectureDesign
  | WTasks "Task list"
  | WCoder CoderOutput
  | WCoderAttempts "CoderOutput list"
  | WTest TestResult
  | WDocumentation DocumentationOutput
  | WRetryCount int
  | WFallbackTriggered bool
  | WRollbackCount int
  | WSafeStop bool
  | WRouteHint RouteHint
  | WGuardrailViolations "GuardrailViolation list"
  | WReplanningTriggered bool
  | WReplanningReason string
  | WEvents "AuditEvent list"
  | WFinishedAt "time option"

fun channel_of :: "chan_write \<Rightarrow> channel" where
  "channel_of (WRunStatus _) = ChRunStatus"
| "channel_of (WCommitShaAfter _) = ChCommitShaAfter"
| "channel_of (WRequirementClarified _) = ChRequirementClarified"
| "channel_of (WAmbiguities _) = ChAmbiguities"
| "channel_of (WGates _) = ChGates"
| "channel_of (WCodebaseImpact _) = ChCodebaseImpact"
| "channel_of (WArchitectureDesign _) = ChArchitectureDesign"
| "channel_of (WTasks _) = ChTasks"
| "channel_of (WCoder _) = ChCoder"
| "channel_of (WCoderAttempts _) = ChCoderAttempts"
| "channel_of (WTest _) = ChTest"
| "channel_of (WDocumentation _) = ChDocumentation"
| "channel_of (WRetryCount _) = ChRetryCount"
| "channel_of (WFallbackTriggered _) = ChFallbackTriggered"
| "channel_of (WRollbackCount _) = ChRollbackCount"
| "channel_of (WSafeStop _) = ChSafeStop"
| "channel_of (WRouteHint _) = ChRouteHint"
| "channel_of (WGuardrailViolations _) = ChGuardrailViolations"
| "channel_of (WReplanningTriggered _) = ChReplanningTriggered"
| "channel_of (WReplanningReason _) = ChReplanningReason"
| "channel_of (WEvents _) = ChEvents"
| "channel_of (WFinishedAt _) = ChFinishedAt"

text \<open>The channels declared with \<open>Annotated[..., operator.add]\<close>.\<close>

definition additive :: "channel \<Rightarrow> bool" where
  "additive c = (c = ChEvents \<or> c = ChCoderAttempts)"

fun apply_write :: "chan_write \<Rightarrow> GraphState \<Rightarrow> GraphState" where
  "apply_write (WRunStatus v) s = s\<lparr>run_status := v\<rparr>"
| "apply_write (WCommitShaAfter v) s = s\<lparr>commit_sha_after := v\<rparr>"
| "apply_write (WRequirementClarified v) s = s\<lparr>requirement_clarified := v\<rparr>"
| "apply_write (WAmbiguities v) s = s\<lparr>ambiguities := v\<rparr>"
| "apply_write (WGates v) s = s\<lparr>gates := v\<rparr>"
| "apply_write (WCodebaseImpact v) s = s\<lparr>codebase_impact := v\<rparr>"
| "apply_write (WArchitectureDesign v) s = s\<lparr>architecture_design := v\<rparr>"
| "apply_write (WTasks v) s = s\<lparr>tasks := v\<rparr>"
| "apply_write (WCoder v) s = s\<lparr>coder_output := v\<rparr>"
| "apply_write (WCoderAttempts v) s = s\<lparr>coder_attempts := coder_attempts s @ v\<rparr>"
| "apply_write (WTest v) s = s\<lparr>test := v\<rparr>"
| "apply_write (WDocumentation v) s = s\<lparr>documentation := v\<rparr>"
| "apply_write (WRetryCount v) s = s\<lparr>retry_count := v\<rparr>"
| "apply_write (WFallbackTriggered v) s = s\<lparr>fallback_triggered := v\<rparr>"
| "apply_write (WRollbackCount v) s = s\<lparr>rollback_count := v\<rparr>"
| "apply_write (WSafeStop v) s = s\<lparr>safe_stop := v\<rparr>"
| "apply_write (WRouteHint v) s = s\<lparr>route_hint := v\<rparr>"
| "apply_write (WGuardrailViolations v) s = s\<lparr>guardrail_violations := v\<rparr>"
| "apply_write (WReplanningTriggered v) s = s\<lparr>replanning_triggered := v\<rparr>"
| "apply_write (WReplanningReason v) s = s\<lparr>replanning_reason := v\<rparr>"
| "apply_write (WEvents v) s = s\<lparr>events := events s @ v\<rparr>"
| "apply_write (WFinishedAt v) s = s\<lparr>finished_at := v\<rparr>"

definition apply_writes :: "chan_write list \<Rightarrow> GraphState \<Rightarrow> GraphState" where
  "apply_writes ws s = fold apply_write ws s"

lemma apply_writes_simps [simp]:
  "apply_writes [] s = s"
  "apply_writes (w # ws) s = apply_writes ws (apply_write w s)"
  "apply_writes (ws @ vs) s = apply_writes vs (apply_writes ws s)"
  by (simp_all add: apply_writes_def)

text \<open>Writes to different channels commute.\<close>

lemma apply_write_commute:
  "channel_of v \<noteq> channel_of w \<Longrightarrow> apply_write v (apply_write w s) = apply_write w (apply_write v s)"
  by (cases v; cases w) simp_all

lemma apply_write_writes_commute:
  "(\<And>w. w \<in> set ws \<Longrightarrow> channel_of v \<noteq> channel_of w) \<Longrightarrow>
   apply_writes ws (apply_write v s) = apply_write v (apply_writes ws s)"
proof (induction ws arbitrary: s)
  case Nil
  then show ?case by simp
next
  case (Cons w ws)
  have "apply_write w (apply_write v s) = apply_write v (apply_write w s)"
    using Cons.prems [of w] by (intro apply_write_commute) simp
  then show ?case using Cons by simp
qed

lemma apply_writes_commute:
  "channel_of ` set vs \<inter> channel_of ` set ws = {} \<Longrightarrow>
   apply_writes vs (apply_writes ws s) = apply_writes ws (apply_writes vs s)"
proof (induction vs arbitrary: s)
  case Nil
  then show ?case by simp
next
  case (Cons v vs)
  have "apply_writes ws (apply_write v s) = apply_write v (apply_writes ws s)"
    using Cons.prems by (intro apply_write_writes_commute) auto
  moreover have "apply_writes vs (apply_writes ws (apply_write v s)) =
      apply_writes ws (apply_writes vs (apply_write v s))"
    using Cons.prems by (intro Cons.IH) auto
  ultimately show ?case by simp
qed

section \<open>What a node call can do\<close>

text \<open>
  A node returns its writes, raises, or pauses in \<open>interrupt\<close> with a payload. On a resume
  the node runs again from its start and \<open>interrupt\<close> returns the decision, so a gate node
  is a function of an optional decision.
\<close>

datatype gate_payload =
    ClarificationPayload string "string list" string
  | ImpactPayload "string list" "string list" string
  | PlanPayload "Task list"
  | ReplanningPayload string "Task list"
  | ReleasePayload "GuardrailViolation list" string "string list"
  | DesignReviewPayload string string string string string json
  | ReleaseReviewPayload string string string string string string json "string list"

fun payload_gate :: "gate_payload \<Rightarrow> GateType" where
  "payload_gate (ClarificationPayload _ _ _) = ClarificationApproval"
| "payload_gate (ImpactPayload _ _ _) = CodebaseImpactReview"
| "payload_gate (PlanPayload _) = PlanApproval"
| "payload_gate (ReplanningPayload _ _) = ReplanningApproval"
| "payload_gate (ReleasePayload _ _ _) = MergeReleaseApproval"
| "payload_gate (DesignReviewPayload _ _ _ _ _ _) = SpecialistDesignReview"
| "payload_gate (ReleaseReviewPayload _ _ _ _ _ _ _ _) = MergeReleaseApproval"

datatype 'w node_result = Update 'w | Interrupt gate_payload | Raise node_error

record clock =
  clk_now :: time
  clk_ms :: int

definition ev :: "clock \<Rightarrow> string \<Rightarrow> EventType \<Rightarrow> string \<Rightarrow> AuditEvent" where
  "ev c n t d = \<lparr>ae_timestamp = clk_now c, ae_node = n, ae_event_type = t, ae_detail = d,
     ae_decision = None, ae_latency_ms = None\<rparr>"

definition ev_timed :: "clock \<Rightarrow> string \<Rightarrow> EventType \<Rightarrow> string \<Rightarrow> AuditEvent" where
  "ev_timed c n t d = (ev c n t d)\<lparr>ae_latency_ms := Some (clk_ms c)\<rparr>"

definition ev_decision :: "clock \<Rightarrow> string \<Rightarrow> string \<Rightarrow> string \<Rightarrow> AuditEvent" where
  "ev_decision c n d st = (ev c n GateDecision d)\<lparr>ae_decision := Some st\<rparr>"

lemmas ev_defs = ev_def ev_timed_def ev_decision_def

section \<open>The specialist graph's state\<close>

record SpecialistPhaseResult =
  sp_phase :: string
  sp_status :: string
  sp_detail :: string
  sp_output_path :: string
  sp_payload :: json
  sp_duration_seconds :: int

record SpecialistRunState =
  sr_run_id :: string
  sr_specialist :: string
  sr_scenario :: string
  sr_target_repository :: string
  sr_run_status :: RunStatus
  sr_safe_stop :: bool
  sr_gates :: "GateType \<rightharpoonup> GateRecord"
  sr_phases :: "string \<rightharpoonup> SpecialistPhaseResult"
  sr_output_repository :: string
  sr_output_branch :: string
  sr_commit_sha_after :: "string option"
  sr_published :: bool
  sr_publish_branch :: string
  sr_publish_detail :: string
  sr_events :: "AuditEvent list"
  sr_started_at :: time
  sr_finished_at :: "time option"

definition new_specialist_state ::
  "string \<Rightarrow> string \<Rightarrow> string \<Rightarrow> string \<Rightarrow> time \<Rightarrow> SpecialistRunState" where
  "new_specialist_state rid sp sc target now =
     \<lparr>sr_run_id = rid, sr_specialist = sp, sr_scenario = sc, sr_target_repository = target,
      sr_run_status = Running, sr_safe_stop = False, sr_gates = Map.empty, sr_phases = Map.empty,
      sr_output_repository = [], sr_output_branch = [], sr_commit_sha_after = None,
      sr_published = False, sr_publish_branch = [], sr_publish_detail = [], sr_events = [],
      sr_started_at = now, sr_finished_at = None\<rparr>"

end
