(* ===== verification/Tools.thy ===== *)
theory Tools
  imports PyRe RunState
begin

text \<open>
  \<open>agentic_control_plane/tools.py\<close>: the sandboxed pytest run, the policy guardrails over
  generated code, the writer that keeps generated files inside the workspace, and the git
  helpers. What a subprocess does is an argument; what the code makes of it is modelled.
\<close>

section \<open>Subprocesses\<close>

text \<open>What \<open>subprocess.run\<close> gives back: an exit, a timeout, or no process at all.\<close>

datatype proc =
    Exited int string string
  | Expired "string option" "string option"
  | SpawnFailed string

record SandboxedTestRun =
  st_passed :: bool
  st_returncode :: int
  st_stdout :: string
  st_stderr :: string
  st_timed_out :: bool
  st_duration_seconds :: int

definition run_pytest_sandboxed :: "string \<Rightarrow> bool \<Rightarrow> proc \<Rightarrow> int \<Rightarrow> (node_error, SandboxedTestRun) result" where
  "run_pytest_sandboxed workdir workdir_is_dir p dur =
     (if \<not> workdir_is_dir then Inl (FileNotFoundError (''Test workdir does not exist: '' @ workdir))
      else case p of
        Exited rc out err \<Rightarrow>
          Inr \<lparr>st_passed = (rc = 0), st_returncode = rc, st_stdout = out, st_stderr = err,
               st_timed_out = False, st_duration_seconds = dur\<rparr>
      | Expired out err \<Rightarrow>
          Inr \<lparr>st_passed = False, st_returncode = -1, st_stdout = get_or [] out,
               st_stderr = get_or [] err, st_timed_out = True, st_duration_seconds = dur\<rparr>
      | SpawnFailed m \<Rightarrow> Inl (FileNotFoundError m))"

section \<open>Guardrails\<close>

definition re_space :: re where
  "re_space = RSet is_space"

definition re_eval :: re where
  "re_eval = RSeqs [RBound, RLit ''eval'', RStar re_space, RChar CHR ''('']"

definition re_exec :: re where
  "re_exec = RSeqs [RBound, RLit ''exec'', RStar re_space, RChar CHR ''('']"

definition re_os_system :: re where
  "re_os_system = RSeqs [RBound, RLit ''os.system'', RStar re_space, RChar CHR ''('']"

definition re_shell_true :: re where
  "re_shell_true = RSeqs [RLit ''subprocess.'', RPlus (RSet is_word), RChar CHR ''('',
     RStar (RSet (\<lambda>c. c \<noteq> CHR '')'')), RLit ''shell'', RStar re_space, RChar CHR ''='',
     RStar re_space, RLit ''True'']"

definition UNSAFE_CALL_PATTERNS :: "re list" where
  "UNSAFE_CALL_PATTERNS = [re_eval, re_exec, re_os_system, re_shell_true]"

definition ddl_verbs :: "string list" where
  "ddl_verbs = [''CREATE'', ''ALTER'', ''DROP'']"

definition ddl_objects :: "string list" where
  "ddl_objects = [''TABLE'', ''INDEX'', ''COLUMN'', ''DATABASE'', ''SCHEMA'']"

definition DDL_PATTERN :: re where
  "DDL_PATTERN = RSeqs [RBound, RAlts (map RLitI ddl_verbs), RPlus re_space,
     RAlts (map RLitI ddl_objects), RBound]"

definition is_key_char :: "char \<Rightarrow> bool" where
  "is_key_char c = (is_digit c \<or> is_upper_ascii c)"

definition is_secret_char :: "char \<Rightarrow> bool" where
  "is_secret_char c = (is_alpha_ascii c \<or> is_digit c \<or> c \<in> set ''_-/+='')"

definition re_quote_mark :: re where
  "re_quote_mark = RSet (\<lambda>c. c = CHR 0x27 \<or> c = CHR 0x22)"

definition re_akia :: re where
  "re_akia = RSeq (RLit ''AKIA'') (RTimes 16 (RSet is_key_char))"

definition re_assigned_secret :: re where
  "re_assigned_secret = RSeqs
     [RAlts [RSeqs [RLitI ''api'', ROpt (RSet (\<lambda>c. c = CHR ''_'' \<or> c = CHR ''-'')), RLitI ''key''],
             RLitI ''secret'', RLitI ''password'', RLitI ''token''],
      RStar re_space, RSet (\<lambda>c. c = CHR '':'' \<or> c = CHR ''=''), RStar re_space, re_quote_mark,
      RTimes 8 (RSet is_secret_char), RStar (RSet is_secret_char), re_quote_mark]"

definition SECRET_PATTERNS :: "re list" where
  "SECRET_PATTERNS = [re_akia, re_assigned_secret]"

record GuardrailFinding =
  gf_rule :: GuardrailRule
  gf_file :: string
  gf_line :: nat
  gf_snippet :: string

definition finding :: "GuardrailRule \<Rightarrow> string \<Rightarrow> nat \<Rightarrow> string \<Rightarrow> GuardrailFinding" where
  "finding r f n l = \<lparr>gf_rule = r, gf_file = f, gf_line = n, gf_snippet = strip l\<rparr>"

text \<open>One finding per pattern that matches the line: unsafe calls, then DDL, then secrets.\<close>

definition line_findings :: "string \<Rightarrow> nat \<Rightarrow> string \<Rightarrow> GuardrailFinding list" where
  "line_findings f n l =
     map (\<lambda>_. finding UnsafeCall f n l) (filter (\<lambda>p. re_search p l) UNSAFE_CALL_PATTERNS)
     @ (if re_search DDL_PATTERN l then [finding DdlChange f n l] else [])
     @ map (\<lambda>_. finding SecretDetected f n l) (filter (\<lambda>p. re_search p l) SECRET_PATTERNS)"

fun file_findings :: "string \<Rightarrow> nat \<Rightarrow> string list \<Rightarrow> GuardrailFinding list" where
  "file_findings f n [] = []"
| "file_findings f n (l # ls) = line_findings f n l @ file_findings f (Suc n) ls"

definition evaluate_guardrails :: "(string, string) dict \<Rightarrow> GuardrailFinding list" where
  "evaluate_guardrails code_files =
     concat (map (\<lambda>(f, content). file_findings f 1 (splitlines content)) code_files)"

text \<open>The patterns of a rule, and what it means that a line breaks one.\<close>

fun rule_patterns :: "GuardrailRule \<Rightarrow> re list" where
  "rule_patterns UnsafeCall = UNSAFE_CALL_PATTERNS"
| "rule_patterns DdlChange = [DDL_PATTERN]"
| "rule_patterns SecretDetected = SECRET_PATTERNS"

definition line_breaks :: "GuardrailRule \<Rightarrow> string \<Rightarrow> bool" where
  "line_breaks r l = list_ex (\<lambda>p. re_search p l) (rule_patterns r)"

lemma line_findings_iff:
  "x \<in> set (line_findings f n l) \<longleftrightarrow> (\<exists>r. line_breaks r l \<and> x = finding r f n l)"
proof
  assume "x \<in> set (line_findings f n l)"
  then consider "x = finding UnsafeCall f n l" "line_breaks UnsafeCall l"
    | "x = finding DdlChange f n l" "line_breaks DdlChange l"
    | "x = finding SecretDetected f n l" "line_breaks SecretDetected l"
    by (auto simp: line_findings_def line_breaks_def list_ex_iff split: if_splits)
  then show "\<exists>r. line_breaks r l \<and> x = finding r f n l" by cases auto
next
  assume "\<exists>r. line_breaks r l \<and> x = finding r f n l"
  then obtain r where r: "line_breaks r l" "x = finding r f n l" by blast
  then show "x \<in> set (line_findings f n l)"
    by (cases r) (auto simp: line_findings_def line_breaks_def list_ex_iff)
qed

lemma file_findings_iff:
  "x \<in> set (file_findings f n ls) \<longleftrightarrow>
     (\<exists>i < length ls. \<exists>r. line_breaks r (ls ! i) \<and> x = finding r f (n + i) (ls ! i))"
proof (induction f n ls rule: file_findings.induct)
  case (1 f n)
  then show ?case by simp
next
  case (2 f n l ls)
  have split: "(\<exists>i < length (l # ls). P i) \<longleftrightarrow> P 0 \<or> (\<exists>i < length ls. P (Suc i))" for P
    using less_Suc_eq_0_disj by (metis length_Cons zero_less_Suc)
  show ?case unfolding split by (simp add: line_findings_iff "2.IH")
qed

lemma evaluate_guardrails_iff:
  "x \<in> set (evaluate_guardrails fs) \<longleftrightarrow>
     (\<exists>f content i r. (f, content) \<in> set fs \<and> i < length (splitlines content) \<and>
        line_breaks r (splitlines content ! i) \<and>
        x = finding r f (Suc i) (splitlines content ! i))"
  by (auto simp: evaluate_guardrails_def file_findings_iff) blast+

text \<open>The scan is a homomorphism on the file list: findings come in file order.\<close>

lemma evaluate_guardrails_append:
  "evaluate_guardrails (fs @ gs) = evaluate_guardrails fs @ evaluate_guardrails gs"
  by (simp add: evaluate_guardrails_def)

subsection \<open>What the patterns are sure to catch\<close>

lemma RSeqs_rel_Cons:
  "rs \<noteq> [] \<Longrightarrow> re_rel r p q \<Longrightarrow> re_rel (RSeqs rs) q q' \<Longrightarrow> re_rel (RSeqs (r # rs)) p q'"
  by (cases rs) (auto intro: re_rel.seq)

lemma RAlts_rel: "r \<in> set rs \<Longrightarrow> re_rel r p q \<Longrightarrow> re_rel (RAlts rs) p q"
proof (induction rs rule: RAlts.induct)
  case (3 r' x xs)
  then show ?case by (cases "r = r'") (auto intro: re_rel.altl re_rel.altr)
qed auto

text \<open>A bounded call name, blanks, an opening parenthesis: the shape of three patterns.\<close>

lemma bounded_call_search:
  assumes name: "name = c # cs" "is_word c" and u: "\<not> word_at (prev_char u)"
    and ws: "\<And>x. x \<in> set ws \<Longrightarrow> is_space x"
  shows "re_search (RSeqs [RBound, RLit name, RStar re_space, RChar CHR ''('']) (u @ name @ ws @ CHR ''('' # v)"
proof (rule re_searchI)
  define b where "b = prev_char u"
  have "re_rel RBound (b, name @ ws @ CHR ''('' # v) (b, name @ ws @ CHR ''('' # v)"
    using bound_before_word [of c b] name u by (simp add: b_def)
  moreover have "re_rel (RLit name) (b, name @ ws @ CHR ''('' # v) (last_pos b name, ws @ CHR ''('' # v)"
    by (rule RLit_rel)
  moreover have "re_rel (RStar re_space) (last_pos b name, ws @ CHR ''('' # v)
      (last_pos (last_pos b name) ws, CHR ''('' # v)"
    unfolding re_space_def using ws by (rule RStar_set_rel)
  moreover have "re_rel (RChar CHR ''('') (last_pos (last_pos b name) ws, CHR ''('' # v) (Some CHR ''('', v)"
    by (rule RChar_rel)
  ultimately show "re_rel (RSeqs [RBound, RLit name, RStar re_space, RChar CHR ''(''])
      (prev_char u, name @ ws @ CHR ''('' # v) (Some CHR ''('', v)"
    unfolding b_def RSeqs.simps by (blast intro: re_rel.seq)
qed

definition call_names :: "string list" where
  "call_names = [''eval'', ''exec'', ''os.system'']"

lemma unsafe_call_line:
  assumes "name \<in> set call_names" "\<not> word_at (prev_char u)" "\<And>x. x \<in> set ws \<Longrightarrow> is_space x"
  shows "line_breaks UnsafeCall (u @ name @ ws @ CHR ''('' # v)"
proof -
  have "is_word (CHR ''e'')" "is_word (CHR ''o'')" by (simp_all add: char_classes)
  then obtain c cs where "name = c # cs" "is_word c"
    using assms(1) by (auto simp: call_names_def)
  from bounded_call_search [OF this assms(2,3)] assms(1) show ?thesis
    by (auto simp: line_breaks_def UNSAFE_CALL_PATTERNS_def re_eval_def re_exec_def re_os_system_def
        call_names_def)
qed

lemma ddl_line:
  assumes verb: "v \<in> set ddl_verbs" "lower v' = lower v"
    and obj: "t \<in> set ddl_objects" "lower t' = lower t"
    and ws: "ws \<noteq> []" "\<And>x. x \<in> set ws \<Longrightarrow> is_space x"
    and ends: "\<not> word_at (prev_char u)" "\<not> word_at (head_char w)"
    and words: "v' \<noteq> []" "is_word (hd v')" "t' \<noteq> []" "is_word (last t')"
  shows "line_breaks DdlChange (u @ v' @ ws @ t' @ w)"
proof -
  define b where "b = prev_char u"
  define p1 where "p1 = (last_pos b v', ws @ t' @ w)"
  obtain x xs where x: "ws = x # xs" "is_space x" using ws by (cases ws) auto
  define p2 where "p2 = (last_pos (Some x) xs, t' @ w)"
  obtain y ys where y: "t' = ys @ [y]" "is_word y"
    using words(3,4) by (metis append_butlast_last_id)
  define p3 where "p3 = (Some y, w)"
  have "re_rel RBound (b, v' @ ws @ t' @ w) (b, v' @ ws @ t' @ w)"
  proof -
    obtain z zs where "v' = z # zs" using words(1) by (cases v') auto
    then show ?thesis
      using words(2) ends(1) bound_before_word [of z b "zs @ ws @ t' @ w"] by (simp add: b_def)
  qed
  moreover have "re_rel (RAlts (map RLitI ddl_verbs)) (b, v' @ ws @ t' @ w) p1"
    unfolding p1_def using verb by (intro RAlts_rel [of "RLitI v"] RLitI_rel) auto
  moreover have "re_rel (RPlus re_space) p1 p2"
    unfolding p1_def p2_def RPlus_def re_space_def x(1)
    append_Cons
  proof (rule re_rel.seq [OF re_rel.chr])
    show "is_space x" by (rule x(2))
    show "re_rel (RStar (RSet is_space)) (Some x, xs @ t' @ w) (last_pos (Some x) xs, t' @ w)"
      using ws(2) x(1) by (intro RStar_set_rel) simp
  qed
  moreover have "re_rel (RAlts (map RLitI ddl_objects)) p2 p3"
  proof -
    have "re_rel (RLitI t) p2 (last_pos (last_pos (Some x) xs) t', w)"
      unfolding p2_def using obj by (intro RLitI_rel) simp
    moreover have "last_pos (last_pos (Some x) xs) t' = Some y"
      using y by (simp add: last_pos_def)
    ultimately show ?thesis unfolding p3_def
      using obj by (intro RAlts_rel [of "RLitI t"]) auto
  qed
  moreover have "re_rel RBound p3 p3"
    unfolding p3_def using bound_after_word [OF y(2) ends(2)] .
  ultimately have "re_rel DDL_PATTERN (b, v' @ ws @ t' @ w) p3"
    unfolding DDL_PATTERN_def RSeqs.simps by (blast intro: re_rel.seq)
  then have "re_search DDL_PATTERN (u @ v' @ ws @ t' @ w)"
    unfolding b_def by (rule re_searchI)
  then show ?thesis by (simp add: line_breaks_def)
qed

lemma aws_key_line:
  assumes "length k = 16" "\<And>c. c \<in> set k \<Longrightarrow> is_key_char c"
  shows "line_breaks SecretDetected (u @ ''AKIA'' @ k @ v)"
proof -
  have "re_rel re_akia (prev_char u, ''AKIA'' @ k @ v)
      (last_pos (last_pos (prev_char u) ''AKIA'') k, v)"
    unfolding re_akia_def by (rule re_rel.seq [OF RLit_rel RTimes_rel]) (use assms in auto)
  then have "re_search re_akia (u @ ''AKIA'' @ k @ v)" by (rule re_searchI)
  then show ?thesis by (simp add: line_breaks_def SECRET_PATTERNS_def)
qed

section \<open>Writing generated files\<close>

text \<open>
  A path is the list of its components under the root. \<open>join_path\<close> is pathlib's \<open>/\<close>: an
  absolute right operand replaces the left one, empty components and dots are dropped.
  \<open>Path.resolve\<close> follows the symbolic links of the file system, so it is an argument;
  \<open>resolve_lexical\<close> is what it computes where there are none.
\<close>

type_synonym path = "string list"

definition path_parts :: "string \<Rightarrow> path" where
  "path_parts s = filter (\<lambda>p. p \<noteq> [] \<and> p \<noteq> ''.'') (split_char CHR ''/'' s)"

definition join_path :: "path \<Rightarrow> string \<Rightarrow> path" where
  "join_path base rel = (if startswith rel ''/'' then path_parts rel else base @ path_parts rel)"

fun resolve_acc :: "path \<Rightarrow> path \<Rightarrow> path" where
  "resolve_acc acc [] = rev acc"
| "resolve_acc acc (p # ps) = resolve_acc (if p = ''..'' then tl acc else p # acc) ps"

definition resolve_lexical :: "path \<Rightarrow> path" where
  "resolve_lexical p = resolve_acc [] p"

record fs =
  fs_files :: "path \<rightharpoonup> string"
  fs_dirs :: "path set"

text \<open>\<open>mkdir(parents=True, exist_ok=True)\<close> fails where a component is a regular file.\<close>

definition mkdirs :: "path \<Rightarrow> (fs, node_error, unit) io" where
  "mkdirs p f =
     (if list_ex (\<lambda>q. fs_files f q \<noteq> None) (prefixes p) then (Inl (OsError ''not a directory''), f)
      else (Inr (), f\<lparr>fs_dirs := fs_dirs f \<union> set (prefixes p)\<rparr>))"

definition write_text :: "path \<Rightarrow> string \<Rightarrow> (fs, node_error, unit) io" where
  "write_text p content f =
     (if p \<in> fs_dirs f then (Inl (OsError ''is a directory''), f)
      else (Inr (), f\<lparr>fs_files := (fs_files f)(p \<mapsto> content)\<rparr>))"

definition write_one :: "(path \<Rightarrow> path) \<Rightarrow> path \<Rightarrow> string \<times> string \<Rightarrow> (fs, node_error, path) io" where
  "write_one resolve ws e =
     (let target = resolve (join_path ws (fst e)) in
      if target \<noteq> ws \<and> \<not> strict_prefix ws target
      then raise_io (ValueError (''Refusing to write outside workspace: '' @ fst e))
      else bind_io (mkdirs (butlast target)) (\<lambda>_.
           bind_io (write_text target (snd e)) (\<lambda>_. ret_io target)))"

fun write_all :: "(path \<Rightarrow> path) \<Rightarrow> path \<Rightarrow> (string, string) dict \<Rightarrow> (fs, node_error, path list) io" where
  "write_all resolve ws [] = ret_io []"
| "write_all resolve ws (e # es) =
     bind_io (write_one resolve ws e) (\<lambda>t. bind_io (write_all resolve ws es) (\<lambda>ts. ret_io (t # ts)))"

definition write_code_files ::
  "(path \<Rightarrow> path) \<Rightarrow> path \<Rightarrow> (string, string) dict \<Rightarrow> (fs, node_error, path list) io" where
  "write_code_files resolve workspace code_files =
     (let ws = resolve workspace in
      bind_io (mkdirs ws) (\<lambda>_. write_all resolve ws code_files))"

text \<open>A file that a write changes lies inside the workspace, whether or not the call raised.\<close>

definition changes_within :: "path \<Rightarrow> fs \<Rightarrow> fs \<Rightarrow> bool" where
  "changes_within ws f f' = (\<forall>p. fs_files f' p \<noteq> fs_files f p \<longrightarrow> prefix ws p)"

lemma changes_within_refl [simp]: "changes_within ws f f"
  by (simp add: changes_within_def)

lemma changes_within_trans:
  "changes_within ws f g \<Longrightarrow> changes_within ws g h \<Longrightarrow> changes_within ws f h"
  unfolding changes_within_def by metis

lemma fs_files_mkdirs [keeps]: "fs_files (snd (mkdirs p f)) = fs_files f"
  by (simp add: mkdirs_def)

lemma write_one_within: "changes_within ws f (snd (write_one resolve ws e f))"
proof -
  define t where "t = resolve (join_path ws (fst e))"
  show ?thesis
  proof (cases "t \<noteq> ws \<and> \<not> strict_prefix ws t")
    case True
    then show ?thesis by (simp add: write_one_def t_def io_defs Let_def)
  next
    case False
    then have "prefix ws t" by auto
    then have "changes_within ws f (snd (write_text t (snd e) g))" if "fs_files g = fs_files f" for g
      using that by (simp add: changes_within_def write_text_def)
    moreover obtain r g where g: "mkdirs (butlast t) f = (r, g)" by (cases "mkdirs (butlast t) f")
    moreover have "fs_files g = fs_files f" using fs_files_mkdirs [of "butlast t" f] g by simp
    moreover obtain r' h where "write_text t (snd e) g = (r', h)" by (cases "write_text t (snd e) g")
    moreover have "write_one resolve ws e f = bind_io (mkdirs (butlast t)) (\<lambda>_.
        bind_io (write_text t (snd e)) (\<lambda>_. ret_io t)) f"
      using False by (auto simp: write_one_def t_def Let_def)
    ultimately show ?thesis
      by (cases r; cases r') (force simp: ret_io_def changes_within_def)+
  qed
qed

lemma write_all_within: "changes_within ws f (snd (write_all resolve ws es f))"
proof (induction es arbitrary: f)
  case Nil
  then show ?case by (simp add: io_defs)
next
  case (Cons e es)
  obtain r g where g: "write_one resolve ws e f = (r, g)" by (cases "write_one resolve ws e f")
  have fg: "changes_within ws f g" using write_one_within [of ws f resolve e] g by simp
  show ?case
  proof (cases r)
    case (Inl e')
    with g fg show ?thesis by (simp add: io_defs)
  next
    case (Inr t)
    have "snd (write_all resolve ws (e # es) f) = snd (write_all resolve ws es g)"
      using g Inr by (simp add: io_defs split: sum.splits prod.splits)
    with changes_within_trans [OF fg Cons.IH] show ?thesis by simp
  qed
qed

lemma write_code_files_within:
  "changes_within (resolve ws) f (snd (write_code_files resolve ws es f))"
proof -
  obtain r g where g: "mkdirs (resolve ws) f = (r, g)" by (cases "mkdirs (resolve ws) f")
  have "fs_files g = fs_files f" using fs_files_mkdirs [of "resolve ws" f] g by simp
  then show ?thesis using g write_all_within [of "resolve ws" g resolve es]
    by (cases r) (simp_all add: write_code_files_def Let_def changes_within_def)
qed

text \<open>A name that resolves outside the workspace stops the call with an exception.\<close>

lemma write_all_escape:
  assumes "(n, c) \<in> set es" "\<not> prefix ws (resolve (join_path ws n))"
  shows "\<not> is_ok (fst (write_all resolve ws es f))"
  using assms
proof (induction es arbitrary: f)
  case Nil
  then show ?case by simp
next
  case (Cons e es)
  obtain r g where g: "write_one resolve ws e f = (r, g)" by (cases "write_one resolve ws e f")
  show ?case
  proof (cases "e = (n, c)")
    case True
    then have "resolve (join_path ws n) \<noteq> ws \<and> \<not> strict_prefix ws (resolve (join_path ws n))"
      using Cons.prems(2) by auto
    then show ?thesis using True by (simp add: write_one_def io_defs Let_def)
  next
    case False
    then have IH: "\<not> is_ok (fst (write_all resolve ws es g))" using Cons by auto
    obtain r' h where "write_all resolve ws es g = (r', h)" by (cases "write_all resolve ws es g")
    with IH g show ?thesis by (cases r; cases r') simp_all
  qed
qed

lemma write_all_targets:
  "write_all resolve ws es f = (Inr ts, f') \<Longrightarrow> ts = map (\<lambda>e. resolve (join_path ws (fst e))) es"
proof (induction es arbitrary: f ts)
  case Nil
  then show ?case by (simp add: io_defs)
next
  case (Cons e es)
  from Cons.prems obtain t g us where
    "write_one resolve ws e f = (Inr t, g)" "write_all resolve ws es g = (Inr us, f')" "ts = t # us"
    by (auto simp: io_defs split: sum.splits prod.splits)
  moreover from this have "t = resolve (join_path ws (fst e))"
    by (auto simp: write_one_def io_defs Let_def split: if_splits sum.splits prod.splits)
  ultimately show ?case using Cons.IH by simp
qed

section \<open>Git\<close>

text \<open>
  The repository is a state \<open>'w\<close> the git process acts on: \<open>git_run\<close> runs one command in
  the workspace, \<open>git_has_dir\<close> is \<open>(workspace / ".git").is_dir()\<close>, \<open>git_mkdir\<close> the
  \<open>mkdir\<close> before an init.
\<close>

record 'w git_env =
  git_run :: "string list \<Rightarrow> 'w \<Rightarrow> proc \<times> 'w"
  git_has_dir :: "'w \<Rightarrow> bool"
  git_mkdir :: "'w \<Rightarrow> 'w"
  git_where :: string

definition run_git :: "'w git_env \<Rightarrow> string list \<Rightarrow> ('w, node_error, string) io" where
  "run_git g args w = (case git_run g (''git'' # args) w of
     (Expired _ _, w') \<Rightarrow> (Inl (GitOperationError (''git '' @ join '' '' args @ '' timed out in '' @ git_where g @ '' after 30s'')), w')
   | (SpawnFailed m, w') \<Rightarrow> (Inl (FileNotFoundError m), w')
   | (Exited rc out err, w') \<Rightarrow>
       if rc \<noteq> 0 then (Inl (GitOperationError (''git '' @ join '' '' args @ '' failed in '' @ git_where g @ '': '' @ strip err)), w')
       else (Inr (strip out), w'))"

definition is_git_error :: "node_error \<Rightarrow> bool" where
  "is_git_error e = (case e of GitOperationError _ \<Rightarrow> True | _ \<Rightarrow> False)"

definition git_init_if_needed :: "'w git_env \<Rightarrow> ('w, node_error, unit) io" where
  "git_init_if_needed g w =
     (let w' = git_mkdir g w in
      if git_has_dir g w' then (Inr (), w')
      else bind_io (run_git g [''init'']) (\<lambda>_.
           bind_io (run_git g [''config'', ''user.email'', ''orchestrator@local'']) (\<lambda>_.
           bind_io (run_git g [''config'', ''user.name'', ''SDLC Orchestrator'']) (\<lambda>_. ret_io ()))) w')"

definition git_current_commit :: "'w git_env \<Rightarrow> ('w, node_error, string option) io" where
  "git_current_commit g w =
     (if \<not> git_has_dir g w then (Inr None, w)
      else catch_io (bind_io (run_git g [''rev-parse'', ''HEAD'']) (\<lambda>s. ret_io (Some s)))
             is_git_error (\<lambda>_. ret_io None) w)"

definition git_remote_url :: "'w git_env \<Rightarrow> ('w, node_error, string option) io" where
  "git_remote_url g w =
     (if \<not> git_has_dir g w then (Inr None, w)
      else catch_io (bind_io (run_git g [''remote'', ''get-url'', ''origin''])
               (\<lambda>s. ret_io (if s = [] then None else Some s)))
             is_git_error (\<lambda>_. ret_io None) w)"

definition bytecode_pathspecs :: "string list" where
  "bytecode_pathspecs = [''__pycache__'', ''**/__pycache__'', ''.pytest_cache'', ''**/.pytest_cache'',
     ''*.pyc'', ''**/*.pyc'', ''*.pyo'', ''**/*.pyo'']"

definition head_or_empty :: "'w git_env \<Rightarrow> ('w, node_error, string) io" where
  "head_or_empty g = bind_io (git_current_commit g) (\<lambda>c. ret_io (get_or [] c))"

definition git_commit_all :: "'w git_env \<Rightarrow> string \<Rightarrow> ('w, node_error, string) io" where
  "git_commit_all g message =
     bind_io (git_init_if_needed g) (\<lambda>_.
     bind_io (run_git g [''add'', ''-A'', ''--'', ''.'']) (\<lambda>_.
     bind_io (run_git g ([''reset'', ''-q'', ''--''] @ bytecode_pathspecs)) (\<lambda>_.
     bind_io (run_git g [''status'', ''--porcelain'']) (\<lambda>status.
       if status = [] then head_or_empty g
       else bind_io (run_git g [''commit'', ''-m'', message]) (\<lambda>_. head_or_empty g)))))"

definition git_revert_to :: "'w git_env \<Rightarrow> string \<Rightarrow> ('w, node_error, unit) io" where
  "git_revert_to g sha =
     bind_io (run_git g [''reset'', ''--hard'', sha]) (\<lambda>_.
     bind_io (run_git g [''clean'', ''-fd'']) (\<lambda>_. ret_io ()))"

text \<open>
  A repository with a log of the commands issued to it: the log shows the order the code
  calls git in, and where a failure stops it.
\<close>

definition logged :: "'w git_env \<Rightarrow> ('w \<times> string list list) git_env" where
  "logged g = \<lparr>git_run = (\<lambda>args (w, l). let (p, w') = git_run g args w in (p, (w', l @ [tl args]))),
     git_has_dir = (\<lambda>(w, _). git_has_dir g w), git_mkdir = (\<lambda>(w, l). (git_mkdir g w, l)), git_where = git_where g\<rparr>"

lemma logged_simps [simp]:
  "git_has_dir (logged g) (w, l) = git_has_dir g w"
  "git_mkdir (logged g) (w, l) = (git_mkdir g w, l)"
  by (simp_all add: logged_def)

lemma run_git_logged:
  "run_git (logged g) args (w, l) = (fst (run_git g args w), (snd (run_git g args w), l @ [args]))"
  by (simp add: run_git_def logged_def Let_def split: prod.splits proc.splits)

definition commit_plan :: "string \<Rightarrow> string list list" where
  "commit_plan message = [[''add'', ''-A'', ''--'', ''.''], [''reset'', ''-q'', ''--''] @ bytecode_pathspecs,
     [''status'', ''--porcelain''], [''commit'', ''-m'', message], [''rev-parse'', ''HEAD'']]"

lemma head_or_empty_logged:
  "\<exists>w'. snd (head_or_empty (logged g) (w, l)) =
     (w', l @ (if git_has_dir g w then [[''rev-parse'', ''HEAD'']] else []))"
  by (auto simp: head_or_empty_def git_current_commit_def io_defs run_git_logged
      split: sum.splits prod.splits)

text \<open>In a repository that exists, the commands issued are these, in this order.\<close>

lemma commit_log:
  assumes "git_has_dir g (git_mkdir g w)"
  shows "\<exists>w' l'. snd (git_commit_all (logged g) message (w, l)) = (w', l @ l') \<and>
    (prefix l' (commit_plan message) \<or>
     l' = take 3 (commit_plan message) @ [[''rev-parse'', ''HEAD'']])"
proof -
  define w0 where "w0 = git_mkdir g w"
  obtain r1 w1 where 1: "run_git g [''add'', ''-A'', ''--'', ''.''] w0 = (r1, w1)"
    by (cases "run_git g [''add'', ''-A'', ''--'', ''.''] w0")
  obtain r2 w2 where 2: "run_git g ([''reset'', ''-q'', ''--''] @ bytecode_pathspecs) w1 = (r2, w2)"
    by (cases "run_git g ([''reset'', ''-q'', ''--''] @ bytecode_pathspecs) w1")
  obtain r3 w3 where 3: "run_git g [''status'', ''--porcelain''] w2 = (r3, w3)"
    by (cases "run_git g [''status'', ''--porcelain''] w2")
  obtain r4 w4 where 4: "run_git g [''commit'', ''-m'', message] w3 = (r4, w4)"
    by (cases "run_git g [''commit'', ''-m'', message] w3")
  note steps = git_commit_all_def git_init_if_needed_def bind_io_def run_git_logged
    Let_def assms w0_def [symmetric] 1 2 [simplified] 3 4
  have init: "git_init_if_needed (logged g) (w, l) = (Inr (), (w0, l))"
    using assms by (simp add: git_init_if_needed_def w0_def)
  note P = commit_plan_def prefix_def
  show ?thesis
  proof (cases r1)
    case (Inl e)
    then show ?thesis by (intro exI [of _ w1] exI [of _ "take 1 (commit_plan message)"])
        (simp add: git_commit_all_def bind_io_def init run_git_logged 1 P)
  next
    case r1: (Inr u1)
    show ?thesis
    proof (cases r2)
      case (Inl e)
      then show ?thesis using r1 2 by (intro exI [of _ w2] exI [of _ "take 2 (commit_plan message)"])
          (simp add: git_commit_all_def bind_io_def init run_git_logged 1 P)
    next
      case r2: (Inr u2)
      show ?thesis
      proof (cases r3)
        case (Inl e)
        then show ?thesis using r1 r2 2
          by (intro exI [of _ w3] exI [of _ "take 3 (commit_plan message)"])
            (simp add: git_commit_all_def bind_io_def init run_git_logged 1 3 P)
      next
        case r3: (Inr status)
        define l3 where "l3 = l @ take 3 (commit_plan message)"
        have upto: "git_commit_all (logged g) message (w, l) =
          (if status = [] then head_or_empty (logged g)
           else bind_io (run_git (logged g) [''commit'', ''-m'', message]) (\<lambda>_. head_or_empty (logged g)))
          (w3, l3)"
          using r1 r2 r3 2
          by (simp add: git_commit_all_def bind_io_def init run_git_logged 1 3 l3_def commit_plan_def)
        show ?thesis
        proof (cases "status = []")
          case True
          then show ?thesis using head_or_empty_logged [of g w3 l3] upto
            by (auto simp: l3_def P split: if_splits)
        next
          case False
          show ?thesis
          proof (cases r4)
            case (Inl e)
            then show ?thesis using upto False
              by (intro exI [of _ w4] exI [of _ "take 4 (commit_plan message)"])
                (simp add: bind_io_def run_git_logged 4 l3_def P)
          next
            case (Inr u)
            then show ?thesis
              using head_or_empty_logged [of g w4 "l3 @ [[''commit'', ''-m'', message]]"] upto False
              by (auto simp: bind_io_def run_git_logged 4 l3_def P split: if_splits)
          qed
        qed
      qed
    qed
  qed
qed

text \<open>A revert resets before it cleans, and cleans only after the reset succeeded.\<close>

lemma revert_log:
  "snd (snd (git_revert_to (logged g) sha (w, l))) =
     (l @ [[''reset'', ''--hard'', sha]]) @
     (if is_ok (fst (run_git g [''reset'', ''--hard'', sha] w)) then [[''clean'', ''-fd'']] else [])"
  by (simp add: git_revert_to_def io_defs run_git_logged split: sum.splits prod.splits)

section \<open>Properties\<close>

text \<open>
  C1: the guardrail scan reports exactly the breaches there are. A finding is in the result
  if and only if some line of some generated file has a position from which one of the
  rule's patterns matches, and the finding names that rule, that file and that line.
\<close>

theorem guardrails_exact:
  "x \<in> set (evaluate_guardrails fs) \<longleftrightarrow>
     (\<exists>f content i r p u t q. (f, content) \<in> set fs \<and> i < length (splitlines content) \<and>
        p \<in> set (rule_patterns r) \<and> splitlines content ! i = u @ t \<and> re_rel p (prev_char u, t) q \<and>
        x = finding r f (Suc i) (splitlines content ! i))"
proof -
  have breaks: "line_breaks r l \<longleftrightarrow> (\<exists>p u t q. p \<in> set (rule_patterns r) \<and> l = u @ t \<and> re_rel p (prev_char u, t) q)"
    for r l
    unfolding line_breaks_def list_ex_iff re_search_iff by blast
  show ?thesis unfolding evaluate_guardrails_iff breaks by blast
qed

text \<open>
  The shapes of text a rule is there for, between what precedes and what follows them on
  the line: a call of \<open>eval\<close>, \<open>exec\<close> or \<open>os.system\<close>, a DDL statement in any letter
  case, an AWS access key.
\<close>

inductive dangerous :: "GuardrailRule \<Rightarrow> string \<Rightarrow> string \<Rightarrow> string \<Rightarrow> bool" where
  call: "name \<in> set call_names \<Longrightarrow> \<not> word_at (prev_char u) \<Longrightarrow> (\<And>x. x \<in> set ws \<Longrightarrow> is_space x) \<Longrightarrow>
     dangerous UnsafeCall u (name @ ws @ ''('') v"
| ddl: "v \<in> set ddl_verbs \<Longrightarrow> lower v' = lower v \<Longrightarrow> t \<in> set ddl_objects \<Longrightarrow> lower t' = lower t \<Longrightarrow>
     v' \<noteq> [] \<Longrightarrow> is_word (hd v') \<Longrightarrow> t' \<noteq> [] \<Longrightarrow> is_word (last t') \<Longrightarrow>
     ws \<noteq> [] \<Longrightarrow> (\<And>x. x \<in> set ws \<Longrightarrow> is_space x) \<Longrightarrow> \<not> word_at (prev_char u) \<Longrightarrow> \<not> word_at (head_char w) \<Longrightarrow>
     dangerous DdlChange u (v' @ ws @ t') w"
| key: "length k = 16 \<Longrightarrow> (\<And>c. c \<in> set k \<Longrightarrow> is_key_char c) \<Longrightarrow> dangerous SecretDetected u (''AKIA'' @ k) v"

lemma dangerous_line_breaks: "dangerous r u m v \<Longrightarrow> line_breaks r (u @ m @ v)"
proof (induction rule: dangerous.induct)
  case (call name u ws v)
  then show ?case using unsafe_call_line [of name u ws v] by simp
next
  case (ddl v v' t t' ws u w)
  then show ?case using ddl_line [of v v' t t' ws u w] by simp
next
  case (key k u v)
  then show ?case using aws_key_line [of k u v] by simp
qed

text \<open>
  Nothing dangerous slips through. Whatever surrounds it, a line of a generated file
  that holds a call of \<open>eval\<close>, \<open>exec\<close> or \<open>os.system\<close>, a DDL statement, or an AWS key is
  reported under the right rule with its file and its line number, so the release gate
  shows it to the reviewer.
\<close>

theorem guardrails_catch:
  assumes "(f, content) \<in> set fs" "i < length (splitlines content)"
    and "splitlines content ! i = u @ m @ v" "dangerous r u m v"
  shows "finding r f (Suc i) (u @ m @ v) \<in> set (evaluate_guardrails fs)"
  using assms dangerous_line_breaks [OF assms(4)] unfolding evaluate_guardrails_iff by metis

lemma guardrails_catch_witness:
  "finding UnsafeCall ''app.py'' 1 ''x = eval (y)'' \<in> set (evaluate_guardrails [(''app.py'', ''x = eval (y)'')])"
proof -
  have "dangerous UnsafeCall ''x = '' (''eval'' @ '' '' @ ''('') ''y)''"
    by (rule dangerous.call) (simp_all add: call_names_def prev_char_def word_at_def char_classes)
  moreover have "splitlines ''x = eval (y)'' = [''x = eval (y)'']"
    by (rule splitlines_single) (auto simp: is_linebreak_def char_classes)
  ultimately show ?thesis
    using guardrails_catch [of "''app.py''" "''x = eval (y)''" "[(''app.py'', ''x = eval (y)'')]" 0
        "''x = ''" "''eval'' @ '' '' @ ''(''" "''y)''" UnsafeCall]
    by simp
qed

text \<open>
  C2: generated code stays in the workspace. Whether the call returns or raises half way
  through, every file whose content it changed resolves to a place under the workspace; a
  set of files in which one name escapes the workspace raises; and a call that returns
  wrote each file at the place its name resolves to, under the workspace.
\<close>

theorem write_contained:
  assumes "write_code_files resolve workspace es f = (r, f')"
  shows "(\<forall>p. fs_files f' p \<noteq> fs_files f p \<longrightarrow> prefix (resolve workspace) p) \<and>
    (\<forall>(n, c) \<in> set es. \<not> prefix (resolve workspace) (resolve (join_path (resolve workspace) n)) \<longrightarrow> \<not> is_ok r) \<and>
    (\<forall>ts. r = Inr ts \<longrightarrow> ts = map (\<lambda>e. resolve (join_path (resolve workspace) (fst e))) es)"
proof (intro conjI)
  show "\<forall>p. fs_files f' p \<noteq> fs_files f p \<longrightarrow> prefix (resolve workspace) p"
    using write_code_files_within [of resolve workspace f es] assms by (simp add: changes_within_def)
  obtain r0 g where g: "mkdirs (resolve workspace) f = (r0, g)" by (cases "mkdirs (resolve workspace) f")
  then have run: "(r, f') = (case r0 of Inl e \<Rightarrow> (Inl e, g) | Inr _ \<Rightarrow> write_all resolve (resolve workspace) es g)"
    using assms by (cases r0) (simp_all add: write_code_files_def Let_def)
  show "\<forall>(n, c) \<in> set es. \<not> prefix (resolve workspace) (resolve (join_path (resolve workspace) n)) \<longrightarrow> \<not> is_ok r"
  proof clarify
    fix n c assume *: "(n, c) \<in> set es" "is_ok r"
      "\<not> prefix (resolve workspace) (resolve (join_path (resolve workspace) n))"
    then have "\<not> is_ok (fst (write_all resolve (resolve workspace) es g))" by (intro write_all_escape)
    then show False using * run by (cases r0) (auto, metis fst_conv)
  qed
  show "\<forall>ts. r = Inr ts \<longrightarrow> ts = map (\<lambda>e. resolve (join_path (resolve workspace) (fst e))) es"
    using run write_all_targets [of resolve "resolve workspace" es g] by (cases r0) (auto, metis)
qed

lemma write_contained_witness:
  "\<exists>r f'. write_code_files resolve_lexical [''ws''] [(''../x'', ''code'')] \<lparr>fs_files = Map.empty, fs_dirs = {}\<rparr> = (r, f') \<and>
     \<not> is_ok r \<and> fs_files f' [''x''] = None"
proof -
  define f0 where "f0 = \<lparr>fs_files = Map.empty, fs_dirs = {} :: path set\<rparr>"
  obtain r f' where run: "write_code_files resolve_lexical [''ws''] [(''../x'', ''code'')] f0 = (r, f')"
    by (cases "write_code_files resolve_lexical [''ws''] [(''../x'', ''code'')] f0")
  note p = write_contained [OF run]
  have ws: "resolve_lexical [''ws''] = [''ws'']" by (simp add: resolve_lexical_def)
  have "resolve_lexical (join_path [''ws''] ''../x'') = [''x'']"
    by (simp add: resolve_lexical_def join_path_def path_parts_def startswith_def)
  then have "\<not> prefix (resolve_lexical [''ws'']) (resolve_lexical (join_path (resolve_lexical [''ws'']) ''../x''))"
    using ws by simp
  moreover have "fs_files f' [''x''] = fs_files f0 [''x'']"
  proof (rule ccontr)
    assume "fs_files f' [''x''] \<noteq> fs_files f0 [''x'']"
    then have "prefix [''ws''] [''x'']" using p ws by auto
    then show False by simp
  qed
  ultimately show ?thesis using p run unfolding f0_def by auto
qed


text \<open>A repository that accepts every command and has something to commit.\<close>

definition demo_git :: "unit git_env" where
  "demo_git = \<lparr>git_run = (\<lambda>args w. (Exited 0 ''M app.py'' [], w)), git_has_dir = (\<lambda>_. True), git_mkdir = id, git_where = ''/ws''\<rparr>"


end
