(* ===== verification/Nodes.thy ===== *)
theory Nodes
  imports Tools
begin

text \<open>
  The SDLC graph's nodes but for the coder: the modules of \<open>agentic_control_plane/nodes/\<close>.
  A node is a function of the environment it is bound to, of what the outside world answers
  during this call (the clock, the human's decision, the files of the workspace, the
  pytest process), of the state it is given, and of the world it acts on.
\<close>

record 'w env =
  e_git :: "'w git_env"
  e_get_fs :: "'w \<Rightarrow> fs"
  e_put_fs :: "fs \<Rightarrow> 'w \<Rightarrow> 'w"
  e_workspace :: path
  e_workspace_text :: string
  e_resolve :: "path \<Rightarrow> path"
  e_conflict_markers :: string

record source_file =
  sf_relative :: string
  sf_stem :: string
  sf_content :: "string option"

record inputs =
  i_clock :: clock
  i_decision :: "decision option"
  i_py_files :: "source_file list option"
  i_workdir :: string
  i_workdir_is_dir :: bool
  i_pytest :: proc
  i_pytest_duration :: int

type_synonym updates = "chan_write list"

text \<open>\<open>interrupt(payload)\<close>: pause without a decision, go on with one.\<close>

definition interrupt :: "decision option \<Rightarrow> gate_payload \<Rightarrow> (decision \<Rightarrow> 'u node_result) \<Rightarrow> 'u node_result" where
  "interrupt d p k = (case d of None \<Rightarrow> Interrupt p | Some x \<Rightarrow> k x)"

lemma interrupt_simps [simp]: "interrupt None p k = Interrupt p" "interrupt (Some x) p k = k x"
  by (simp_all add: interrupt_def)

definition on_fs :: "'w env \<Rightarrow> (fs, 'e, 'a) io \<Rightarrow> ('w, 'e, 'a) io" where
  "on_fs e m w = (case m (e_get_fs e w) of (r, f) \<Rightarrow> (r, e_put_fs e f w))"

definition lift_result :: "(node_error, 'u) result \<Rightarrow> 'u node_result" where
  "lift_result r = (case r of Inl e \<Rightarrow> Raise e | Inr u \<Rightarrow> Update u)"

lemma lift_result_simps [simp]: "lift_result (Inl e) = Raise e" "lift_result (Inr u) = Update u"
  by (simp_all add: lift_result_def)

definition status_text :: "decision \<Rightarrow> string" where
  "status_text d = get_or ''approved'' (d_status d)"

definition or_else :: "string \<Rightarrow> string \<Rightarrow> string" where
  "or_else a b = (if a \<noteq> [] then a else b)"

section \<open>Requirement clarifier\<close>

definition AMBIGUITY_MARKERS :: "string list" where
  "AMBIGUITY_MARKERS = [''reliable'', ''better'', ''improve'', ''faster'', ''modernize'', ''clean up'', ''more'']"

definition detect_ambiguities :: "string \<Rightarrow> string list" where
  "detect_ambiguities raw =
     (let lowered = lower raw;
          found = map (\<lambda>m. ''vague qualifier: '' @ [CHR 0x27] @ m @ [CHR 0x27])
                    (filter (\<lambda>m. contains m lowered) AMBIGUITY_MARKERS)
      in if found = [] \<and> length (py_words raw) < 6
         then [''requirement is very short and may be underspecified''] else found)"

definition requirement_clarifier :: "inputs \<Rightarrow> GraphState \<Rightarrow> updates node_result" where
  "requirement_clarifier i s =
     (let c = i_clock i; n = ''requirement_clarifier'';
          ambs = detect_ambiguities (requirement_raw s);
          clarified = strip (requirement_raw s);
          e1 = ev c n NodeStart (''parsing requirement ('' @ nat_str (length (requirement_raw s)) @ '' chars)'');
          e3 = ev_timed c n NodeEnd (''clarified requirement, '' @ nat_str (length ambs) @ '' ambiguities surfaced'')
      in if scenario_type s = Greenfield then
           interrupt (i_decision i) (ClarificationPayload (requirement_raw s) ambs clarified)
             (\<lambda>d. case make_gate_record ClarificationApproval d None of
                Inl e \<Rightarrow> Raise e
              | Inr r \<Rightarrow> Update
                  [WRequirementClarified (get_or clarified (d_clarified_requirement d)), WAmbiguities ambs,
                   WGates ((gates s)(ClarificationApproval \<mapsto> r)),
                   WEvents [e1, ev_decision c n (gate_name ClarificationApproval) (status_text d), e3]])
         else Update [WRequirementClarified clarified, WAmbiguities ambs, WGates (gates s), WEvents [e1, e3]])"

section \<open>Codebase reasoner\<close>

definition STOPWORDS :: "string list" where
  "STOPWORDS = [''the'', ''a'', ''an'', ''and'', ''or'', ''to'', ''of'', ''in'', ''on'', ''for'', ''is'', ''are'',
     ''that'', ''this'', ''with'', ''make'', ''add'', ''fix'', ''it'', ''be'', ''more'']"

definition re_route :: re where
  "re_route = RSeqs [RChar CHR ''@'', RPlus (RSet is_word), RChar CHR ''.'',
     RAlts (map RLit [''get'', ''post'', ''put'', ''delete'', ''patch'']), RChar CHR ''('']"

definition replanning_conflict_markers :: "string \<Rightarrow> string list" where
  "replanning_conflict_markers raw =
     map (\<lambda>m. lower (strip m)) (filter (\<lambda>m. strip m \<noteq> []) (split_char CHR '','' raw))"

text \<open>\<open>re.findall(r"[a-zA-Z][a-zA-Z_]{3,}", s)\<close>: maximal runs, left to right.\<close>

definition is_name_char :: "char \<Rightarrow> bool" where
  "is_name_char c = (is_alpha_ascii c \<or> c = CHR ''_'')"

function find_names :: "string \<Rightarrow> string list" where
  "find_names [] = []"
| "find_names (c # s) =
     (if is_alpha_ascii c \<and> 3 \<le> length (takeWhile is_name_char s)
      then (c # takeWhile is_name_char s) # find_names (dropWhile is_name_char s)
      else find_names s)"
  by pat_completeness auto
termination
  by (relation "measure length") (auto simp: le_imp_less_Suc length_dropWhile_le)

fun keep_new :: "string list \<Rightarrow> string list \<Rightarrow> string list" where
  "keep_new seen [] = seen"
| "keep_new seen (w # ws) =
     keep_new (if w \<notin> set STOPWORDS \<and> w \<notin> set seen then seen @ [w] else seen) ws"

definition extract_keywords :: "string \<Rightarrow> string list" where
  "extract_keywords text = keep_new [] (find_names (lower text))"

fun scan_files :: "string list \<Rightarrow> source_file list \<Rightarrow> string list \<times> string list" where
  "scan_files kws [] = ([], [])"
| "scan_files kws (f # fs) =
     (let (ms, apis) = scan_files kws fs in
      case sf_content f of
        None \<Rightarrow> (ms, apis)
      | Some content \<Rightarrow>
          if \<not> list_ex (\<lambda>k. contains k (lower content)) kws then (ms, apis)
          else if re_search re_route content then (ms, sf_relative f # apis)
          else (sf_relative f # ms, apis))"

definition scan_workspace :: "source_file list option \<Rightarrow> string list \<Rightarrow> string list \<times> string list" where
  "scan_workspace files kws = (case files of None \<Rightarrow> ([], []) | Some fs \<Rightarrow> scan_files kws fs)"

fun first_conflict :: "string list \<Rightarrow> source_file list \<Rightarrow> (string \<times> string) option" where
  "first_conflict markers [] = None"
| "first_conflict markers (f # fs) =
     (case filter (\<lambda>m. contains m (lower (sf_stem f))) markers of
        m # _ \<Rightarrow> Some (m, sf_relative f)
      | [] \<Rightarrow> first_conflict markers fs)"

definition conflict_text :: "string \<Rightarrow> string \<Rightarrow> string" where
  "conflict_text m rel = ''Existing implementation of '' @ [CHR 0x27] @ m @ [CHR 0x27] @ '' found at '' @
     [CHR 0x27] @ rel @ [CHR 0x27] @ ''; the planned interpretation of this requirement risks '' @
     ''duplicating it rather than reusing it.''"

definition detect_replanning_conflict :: "string \<Rightarrow> source_file list option \<Rightarrow> string option" where
  "detect_replanning_conflict raw files =
     (let markers = replanning_conflict_markers raw in
      case files of
        None \<Rightarrow> None
      | Some fs \<Rightarrow> if markers = [] then None
                   else map_option (\<lambda>(m, rel). conflict_text m rel) (first_conflict markers fs))"

definition list_repr :: "string list \<Rightarrow> string" where
  "list_repr xs = ''['' @ join '', '' (map (\<lambda>x. [CHR 0x27] @ x @ [CHR 0x27]) xs) @ '']''"

definition impact_summary :: "string \<Rightarrow> string list \<Rightarrow> string list \<Rightarrow> string list \<Rightarrow> string" where
  "impact_summary wsname kws ms apis =
     ''Scanned '' @ wsname @ '' for keywords '' @ list_repr (take 6 kws) @
     (if length kws > length (take 6 kws) then ''...'' else []) @ '': '' @
     nat_str (length ms) @ '' module(s), '' @ nat_str (length apis) @ '' API file(s) impacted.''"

definition codebase_reasoner :: "'w env \<Rightarrow> inputs \<Rightarrow> GraphState \<Rightarrow> updates node_result" where
  "codebase_reasoner e i s =
     (let c = i_clock i; n = ''codebase_reasoner'';
          kws = extract_keywords (or_else (requirement_clarified s) (requirement_raw s));
          (ms, apis) = scan_workspace (i_py_files i) kws;
          summary = impact_summary (e_workspace_text e) kws ms apis;
          impact = \<lparr>ci_skipped = False, ci_impacted_modules = ms, ci_impacted_apis = apis, ci_summary = summary\<rparr>;
          e1 = ev c n NodeStart summary;
          reason = (if scenario_type s = Ambiguous
                    then (case detect_replanning_conflict (e_conflict_markers e) (i_py_files i) of
                            None \<Rightarrow> None | Some r \<Rightarrow> if r = [] then None else Some r)
                    else None);
          final = (case reason of None \<Rightarrow> ''impact analysis complete''
                   | Some r \<Rightarrow> ''impact analysis complete; re-planning conflict detected: '' @ r);
          replan = (case reason of None \<Rightarrow> [] | Some r \<Rightarrow> [WReplanningTriggered True, WReplanningReason r]);
          e3 = ev_timed c n NodeEnd final
      in if scenario_type s = Brownfield then
           interrupt (i_decision i) (ImpactPayload ms apis summary)
             (\<lambda>d. case make_gate_record CodebaseImpactReview d None of
                Inl x \<Rightarrow> Raise x
              | Inr r \<Rightarrow> Update ([WCodebaseImpact impact, WGates ((gates s)(CodebaseImpactReview \<mapsto> r))] @ replan @
                  [WEvents [e1, ev_decision c n (gate_name CodebaseImpactReview) (status_text d), e3]]))
         else Update ([WCodebaseImpact impact, WGates (gates s)] @ replan @ [WEvents [e1, e3]]))"

section \<open>Architecture and design\<close>

definition MAX_FILES_LISTED :: nat where
  "MAX_FILES_LISTED = 5"

definition format_file_list :: "string list \<Rightarrow> string" where
  "format_file_list paths = join '', '' (take MAX_FILES_LISTED paths) @
     (if length paths > MAX_FILES_LISTED
      then '', and '' @ nat_str (length paths - MAX_FILES_LISTED) @ '' more'' else [])"

definition design_of :: "GraphState \<Rightarrow> ArchitectureDesign" where
  "design_of s =
     (let ci = codebase_impact s; req = requirement_clarified s in
      if ci_skipped ci then
        \<lparr>ad_summary = ''Greenfield: introduce new component(s) to satisfy '' @ quoted req @
           ''. No impact analysis was run, so integrate '' @
           ''against whatever entry points and data-access layer the workspace already '' @
           ''provides rather than assuming a particular structure.'',
         ad_api_schema_changes = [''New endpoint(s) to support: '' @ req]\<rparr>
      else if ci_impacted_apis ci \<noteq> [] \<or> ci_impacted_modules ci \<noteq> [] then
        \<lparr>ad_summary = ''Change scoped to existing file(s): '' @
           format_file_list (ci_impacted_modules ci @ ci_impacted_apis ci) @ ''. Modify in place to satisfy '' @
           quoted req @ '' without changing public API '' @
           ''signatures unless the impacted file is itself an API module.'',
         ad_api_schema_changes =
           map (\<lambda>api. ''Review signature stability of: '' @ api) (take MAX_FILES_LISTED (ci_impacted_apis ci))\<rparr>
      else
        \<lparr>ad_summary = ''No impacted files were identified by the Codebase Reasoner for '' @ quoted req @
           ''; treating as a net-new addition.'',
         ad_api_schema_changes = []\<rparr>)"

definition architecture_design_node :: "inputs \<Rightarrow> GraphState \<Rightarrow> updates node_result" where
  "architecture_design_node i s =
     (let c = i_clock i; n = ''architecture_design''; d = design_of s in
      Update [WArchitectureDesign d,
        WEvents [ev c n NodeStart ''designing'', ev_timed c n NodeEnd (ad_summary d)]])"

section \<open>Decomposer and planner\<close>

definition new_task :: "string \<Rightarrow> string \<Rightarrow> string list \<Rightarrow> Task" where
  "new_task i d deps = \<lparr>t_id = i, t_description = d, t_depends_on = deps, t_status = TaskPending\<rparr>"

definition tail_tasks :: "Task list" where
  "tail_tasks =
     [new_task ''T2'' ''Write/update unit tests for the change'' [''T1''],
      new_task ''T3'' (''Update the target service'' @ [CHR 0x27] @ ''s documentation for the change'') [''T1''],
      new_task ''T4'' ''Run guardrail checks and prepare for release'' [''T2'', ''T3'']]"

definition is_revision :: "GraphState \<Rightarrow> bool" where
  "is_revision s = (case gates s ReplanningApproval of None \<Rightarrow> False | Some r \<Rightarrow> gr_status r = Approved)"

definition plan_tasks :: "GraphState \<Rightarrow> Task list" where
  "plan_tasks s =
     (let change = or_else (ad_summary (architecture_design s)) (requirement_clarified s) in
      if is_revision s then
        [new_task ''T0'' (''Reconcile with existing functionality: '' @ replanning_reason s) [],
         new_task ''T1'' (''Implement (revised): '' @ change) [''T0'']] @ tail_tasks
      else [new_task ''T1'' (''Implement: '' @ change) []] @ tail_tasks)"

definition decomposer_planner :: "inputs \<Rightarrow> GraphState \<Rightarrow> updates node_result" where
  "decomposer_planner i s =
     (let c = i_clock i; n = ''decomposer_planner''; ts = plan_tasks s;
          e1 = ev c n NodeStart (''decomposed into '' @ nat_str (length ts) @ '' tasks'' @
                 (if is_revision s then '' (revised plan)'' else []));
          e3 = ev_timed c n NodeEnd ''plan ready''
      in if scenario_type s = Greenfield then
           interrupt (i_decision i) (PlanPayload ts)
             (\<lambda>d. case make_gate_record PlanApproval d None of
                Inl x \<Rightarrow> Raise x
              | Inr r \<Rightarrow> Update [WTasks ts, WGates ((gates s)(PlanApproval \<mapsto> r)),
                  WEvents [e1, ev_decision c n (gate_name PlanApproval) (status_text d), e3]])
         else Update [WTasks ts, WGates (gates s), WEvents [e1, e3]])"

section \<open>Re-planner\<close>

definition replanner :: "inputs \<Rightarrow> GraphState \<Rightarrow> updates node_result" where
  "replanner i s =
     interrupt (i_decision i) (ReplanningPayload (replanning_reason s) (tasks s))
       (\<lambda>d. case make_gate_record ReplanningApproval d None of
          Inl x \<Rightarrow> Raise x
        | Inr r \<Rightarrow>
            (let c = i_clock i; n = ''replanner'' in
             Update [WGates ((gates s)(ReplanningApproval \<mapsto> r)),
               WEvents [ev c n NodeStart (''surfacing re-planning conflict: '' @ replanning_reason s),
                 ev_decision c n (gate_name ReplanningApproval) (status_text d),
                 ev_timed c n NodeEnd
                   (if gr_status r = Approved then ''handing back to decomposer_planner for a revised plan''
                    else ''human kept the original plan, no revision'')]]))"

section \<open>Test executor\<close>

definition LOG_TAIL_CHARS :: nat where
  "LOG_TAIL_CHARS = 4000"

definition tail_chars :: "nat \<Rightarrow> string \<Rightarrow> string" where
  "tail_chars n s = drop (length s - n) s"

definition extract_failure_summaries :: "string \<Rightarrow> bool \<Rightarrow> string list" where
  "extract_failure_summaries out timed_out =
     (if timed_out then [''pytest run timed out'']
      else let fs = map strip (filter (\<lambda>l. startswith (strip l) ''FAILED '') (splitlines out)) in
        if fs \<noteq> [] then fs else [''pytest reported a non-zero exit with no FAILED summary lines''])"

definition test_executor :: "inputs \<Rightarrow> GraphState \<Rightarrow> updates node_result" where
  "test_executor i s =
     (case run_pytest_sandboxed (i_workdir i) (i_workdir_is_dir i) (i_pytest i) (i_pytest_duration i) of
        Inl x \<Rightarrow> Raise x
      | Inr run \<Rightarrow>
          (let c = i_clock i; n = ''test_executor'';
               attempt = co_attempt_number (coder_output s);
               failures = (if st_passed run then [] else extract_failure_summaries (st_stdout run) (st_timed_out run));
               result = \<lparr>tr_passed = st_passed run, tr_failures = failures, tr_attempt_number = attempt,
                         tr_logs = tail_chars LOG_TAIL_CHARS (st_stdout run @ st_stderr run)\<rparr>;
               e1 = ev c n NodeStart (''running pytest for attempt '' @ int_str attempt)
           in if st_passed run then
                Update [WTest result, WRouteHint Proceed,
                  WEvents [e1, ev_timed c n NodeEnd ''tests passed'']]
              else if fallback_triggered s then
                Update [WTest result, WRouteHint HintRollback,
                  WEvents [e1, ev_timed c n NodeEnd ''tests failed (fallback attempt also failed)'']]
              else if retry_count s < retry_limit s then
                (let summary = ''tests failed, retrying (attempt '' @ int_str (retry_count s + 2) @ '' of '' @
                               int_str (retry_limit s + 1) @ '')'' in
                 Update [WTest result, WRetryCount (retry_count s + 1), WRouteHint Retry,
                   WEvents [e1, ev c n EvRetry summary, ev_timed c n NodeEnd summary]])
              else
                (let summary = ''retries exhausted, falling back to reduced-scope prompt'' in
                 Update [WTest result, WFallbackTriggered True, WRouteHint FallbackAttempt,
                   WEvents [e1, ev c n EvFallback summary, ev_timed c n NodeEnd summary]])))"

section \<open>Documentation\<close>

definition first_line_note :: "string \<Rightarrow> string" where
  "first_line_note content =
     (case splitlines content of
        [] \<Rightarrow> []
      | l # _ \<Rightarrow>
          let first = strip (dropWhile (\<lambda>c. c = CHR ''#'' \<or> c = CHR '' '') l) in
          if startswith first ''#'' \<or> startswith first [CHR 0x22, CHR 0x22, CHR 0x22]
          then '' - '' @ first else [])"

definition newline :: string where
  "newline = [CHR 0x0A]"

definition summarize_code_files :: "(string, string) dict \<Rightarrow> string" where
  "summarize_code_files fs =
     (if fs = [] then ''## Generated files'' @ newline @ newline @ ''(none)''
      else join newline ([''## Generated files'', []] @
        map (\<lambda>p. ''- '' @ backquoted p @ first_line_note (get_or [] (dict_get fs p))) (sort (dict_keys fs))))"

definition task_line :: "Task \<Rightarrow> string" where
  "task_line t = ''- ['' @ t_id t @ ''] '' @ t_description t @ '' (depends on: '' @
     or_else (join '', '' (t_depends_on t)) ''none'' @ '')''"

definition change_readme :: "GraphState \<Rightarrow> string" where
  "change_readme s = join newline
     ([''# Change: '' @ or_else (requirement_clarified s) (requirement_raw s), [],
       ''**Scenario:** '' @ scenario_name (scenario_type s), [], ''## Design'',
       ad_summary (architecture_design s), [], summarize_code_files (co_code_files (coder_output s)), [],
       ''## Tasks''] @ map task_line (tasks s))"

definition doc_files_of :: "GraphState \<Rightarrow> (string, string) dict" where
  "doc_files_of s = [(''docs/CHANGE_'' @ take 8 (run_id s) @ ''.md'', change_readme s)]"

definition documentation_node :: "'w env \<Rightarrow> inputs \<Rightarrow> GraphState \<Rightarrow> 'w \<Rightarrow> updates node_result \<times> 'w" where
  "documentation_node e i s w =
     (let docs = doc_files_of s; c = i_clock i; n = ''documentation'' in
      case on_fs e (write_code_files (e_resolve e) (e_workspace e) docs) w of
        (Inl x, w') \<Rightarrow> (Raise x, w')
      | (Inr _, w') \<Rightarrow>
          (Update [WDocumentation docs,
             WEvents [ev c n NodeStart ''generating target-app docs'',
               ev_timed c n NodeEnd (''wrote '' @ nat_str (length docs) @ '' doc file(s)'')]], w'))"

section \<open>Release gate\<close>

definition rule_name :: "GuardrailRule \<Rightarrow> string" where
  "rule_name r = (case r of UnsafeCall \<Rightarrow> ''unsafe_call'' | DdlChange \<Rightarrow> ''ddl_change''
     | SecretDetected \<Rightarrow> ''secret_detected'')"

definition violations_of :: "GuardrailFinding list \<Rightarrow> GuardrailViolation list" where
  "violations_of fs = map (\<lambda>f. \<lparr>gv_rule = gf_rule f, gv_location = gf_file f @ '':'' @ nat_str (gf_line f),
     gv_overridden_by_human = False\<rparr>) fs"

definition files_changed :: "GraphState \<Rightarrow> string list" where
  "files_changed s = sort (remdups (dict_keys (co_code_files (coder_output s)) @ dict_keys (documentation s)))"

text \<open>The status the gate records: rejected whatever the human sent, unless findings are overridden.\<close>

definition release_decision :: "GuardrailViolation list \<Rightarrow> decision \<Rightarrow> decision" where
  "release_decision vs d =
     (if vs \<noteq> [] \<and> \<not> get_or False (d_override_guardrails d) then d\<lparr>d_status := Some ''rejected''\<rparr> else d)"

definition commit_message :: "GraphState \<Rightarrow> string" where
  "commit_message s = ''['' @ scenario_name (scenario_type s) @ ''] '' @
     or_else (requirement_clarified s) (requirement_raw s)"

definition release_gate :: "'w env \<Rightarrow> inputs \<Rightarrow> GraphState \<Rightarrow> 'w \<Rightarrow> updates node_result \<times> 'w" where
  "release_gate e i s w =
     (let c = i_clock i; n = ''release_gate'';
          vs0 = violations_of (evaluate_guardrails (co_code_files (coder_output s)));
          e0 = ev c n NodeStart (nat_str (length vs0) @ '' guardrail finding(s) before merge review'') #
               map (\<lambda>v. ev c n EvGuardrailViolation (rule_name (gv_rule v) @ '' at '' @ gv_location v)) vs0
      in case i_decision i of
           None \<Rightarrow> (Interrupt (ReleasePayload vs0 (requirement_clarified s) (files_changed s)), w)
         | Some d \<Rightarrow>
             (let vs = (if get_or False (d_override_guardrails d)
                        then map (\<lambda>v. v\<lparr>gv_overridden_by_human := True\<rparr>) vs0 else vs0);
                  d' = release_decision vs0 d
              in case make_gate_record MergeReleaseApproval d' None of
                   Inl x \<Rightarrow> (Raise x, w)
                 | Inr r \<Rightarrow>
                     (let base = [WGates ((gates s)(MergeReleaseApproval \<mapsto> r\<lparr>gr_decision_payload := Some d\<rparr>)),
                                  WGuardrailViolations vs];
                          e1 = ev_decision c n (gate_name MergeReleaseApproval) (status_text d')
                      in if gr_status r = Approved then
                           (case git_commit_all (e_git e) (commit_message s) w of
                              (Inl x, w') \<Rightarrow> (Raise x, w')
                            | (Inr sha, w') \<Rightarrow>
                                (Update (base @ [WRunStatus Completed, WFinishedAt (Some (clk_now c)),
                                   WCommitShaAfter (Some sha),
                                   WEvents (e0 @ [e1, ev_timed c n NodeEnd (''committed '' @
                                     (if sha \<noteq> [] then take 8 sha else ''(no changes)''))])]), w'))
                         else
                           (Update (base @ [WEvents (e0 @ [e1,
                              ev_timed c n NodeEnd ''release rejected, not committed''])]), w))))"

section \<open>Sync and rollback\<close>

definition sync_node :: "GraphState \<Rightarrow> updates node_result" where
  "sync_node s = Update []"

definition is_falsy :: "string option \<Rightarrow> bool" where
  "is_falsy x = (x = None \<or> x = Some [])"

definition rollback_node :: "'w env \<Rightarrow> inputs \<Rightarrow> GraphState \<Rightarrow> 'w \<Rightarrow> updates node_result \<times> 'w" where
  "rollback_node e i s w =
     (let c = i_clock i; n = ''rollback''; count = WRollbackCount (rollback_count s + 1);
          target = co_commit_sha_before (coder_output s); fin = WFinishedAt (Some (clk_now c))
      in if is_falsy target then
           (Update [count, WSafeStop True, WRunStatus Failed, fin,
              WEvents [ev_timed c n EvSafeStop ''no known-good commit recorded to roll back to'']], w)
         else
           (let sha = get_or [] target in
            case git_revert_to (e_git e) sha w of
              (Inr _, w') \<Rightarrow>
                (Update [count, WRunStatus Failed,
                   WEvents [ev_timed c n EvRollback (''rolled back to '' @ take 8 sha)], fin], w')
            | (Inl x, w') \<Rightarrow>
                (if is_git_error x then
                   (Update [count, WSafeStop True, WRunStatus Failed,
                      WEvents [ev_timed c n EvSafeStop (''rollback failed: '' @
                        (case x of GitOperationError m \<Rightarrow> m | _ \<Rightarrow> []))], fin], w')
                 else (Raise x, w'))))"

end
