(* ===== verification/Specialists.thy ===== *)
theory Specialists
  imports Tools
begin

text \<open>
  \<open>agentic_control_plane/specialists.py\<close>: the routing table, its referential integrity, the
  repository a remote URL names, which specialist handles it, and the check that the
  environment supplies what a phase declares. Reading YAML and pydantic's validation of the
  document are arguments; what the code does with their results is modelled. The two error
  classes of the module are \<open>RuntimeError\<close>s.
\<close>

section \<open>The table\<close>

definition DEFAULT_SPECIALIST :: string where
  "DEFAULT_SPECIALIST = ''default''"

definition DEFAULT_MODEL :: string where
  "DEFAULT_MODEL = ''claude-sonnet-5''"

definition DEFAULT_CLI_TIMEOUT_SECONDS :: int where
  "DEFAULT_CLI_TIMEOUT_SECONDS = 480"

record RuntimeRequirements =
  rq_executables :: "string list"
  rq_docker_daemon :: bool

record SpecialistPhase =
  ph_args :: "string list"
  ph_requires :: RuntimeRequirements
  ph_timeout_seconds :: int

record BuiltinSpecialist =
  bs_model :: string
  bs_cli_timeout_seconds :: int

record ExternalSpecialist =
  es_command :: string
  es_distribution :: "string option"
  es_phases :: "(string, SpecialistPhase) dict"

datatype Specialist = Builtin BuiltinSpecialist | External ExternalSpecialist

record Route =
  rt_scenario :: string
  rt_repository :: string
  rt_specialist :: string
  rt_output_repository :: "string option"
  rt_output_branch :: string

record RoutingTable =
  tb_version :: int
  tb_specialists :: "(string, Specialist) dict"
  tb_routes :: "Route list"

record Resolution =
  rs_scenario :: string
  rs_name :: string
  rs_specialist :: Specialist
  rs_output_repository :: "string option"
  rs_output_branch :: string

definition default_builtin :: BuiltinSpecialist where
  "default_builtin = \<lparr>bs_model = DEFAULT_MODEL, bs_cli_timeout_seconds = DEFAULT_CLI_TIMEOUT_SECONDS\<rparr>"

definition default_routing_table :: RoutingTable where
  "default_routing_table =
     \<lparr>tb_version = 1, tb_specialists = [(DEFAULT_SPECIALIST, Builtin default_builtin)], tb_routes = []\<rparr>"

text \<open>
  \<open>str.casefold\<close> over Latin-1: lower case, and the sharp s is two letters. The micro sign
  folds to a letter outside Latin-1 that nothing else folds to, so keeping it compares alike.
\<close>

definition casefold :: "string \<Rightarrow> string" where
  "casefold s = concat (map (\<lambda>c. if code c = 223 then ''ss'' else [lower_char c]) s)"

section \<open>Referential integrity\<close>

fun check_routes :: "string \<Rightarrow> (string, Specialist) dict \<Rightarrow> (string, string) dict \<Rightarrow> Route list \<Rightarrow> (node_error, unit) result" where
  "check_routes file sps seen [] = Inr ()"
| "check_routes file sps seen (r # rs) =
     (if rt_specialist r \<notin> set (dict_keys sps)
      then Inl (RuntimeError (file @ '': route for scenario '' @ quoted (rt_scenario r) @ '' names specialist '' @
             quoted (rt_specialist r) @ '', which is not defined''))
      else let key = casefold (rt_repository r) in
        case dict_get seen key of
          Some other \<Rightarrow> Inl (RuntimeError (file @ '': repository '' @ quoted (rt_repository r) @ '' is routed twice - by scenario '' @
             quoted other @ '' and by '' @ quoted (rt_scenario r)))
        | None \<Rightarrow> check_routes file sps (dict_set key (rt_scenario r) seen) rs)"

definition check_referential_integrity :: "string \<Rightarrow> RoutingTable \<Rightarrow> (node_error, unit) result" where
  "check_referential_integrity file t =
     (case dict_get (tb_specialists t) DEFAULT_SPECIALIST of
        None \<Rightarrow> Inl (RuntimeError (file @ '' defines no '' @ quoted DEFAULT_SPECIALIST @
             '' specialist; it is what any target with no matching route resolves to''))
      | Some (External _) \<Rightarrow> Inl (RuntimeError (file @ '' makes '' @ quoted DEFAULT_SPECIALIST @
             '' an external specialist. The default is the generator this repo runs itself, so it must be kind: builtin''))
      | Some (Builtin _) \<Rightarrow> check_routes file (tb_specialists t) [] (tb_routes t))"

text \<open>What \<open>yaml.safe_load\<close> of the file's text gives, where it gives something.\<close>

datatype yaml_read = YamlFails string | YamlNone | YamlMapping json | YamlOther string

definition load_routing_table ::
  "string \<Rightarrow> bool \<Rightarrow> yaml_read \<Rightarrow> (json \<Rightarrow> (string, RoutingTable) result) \<Rightarrow> (node_error, RoutingTable) result" where
  "load_routing_table file is_file raw model_validate =
     (if \<not> is_file then Inr default_routing_table
      else case raw of
        YamlFails m \<Rightarrow> Inl (RuntimeError (file @ '' could not be read as YAML: '' @ m))
      | YamlNone \<Rightarrow> Inr default_routing_table
      | YamlOther ty \<Rightarrow> Inl (RuntimeError (file @ '' must contain a mapping, not '' @ ty))
      | YamlMapping j \<Rightarrow>
          (case model_validate j of
             Inl m \<Rightarrow> Inl (RuntimeError (file @ '' is not a valid routing table: '' @ m))
           | Inr t \<Rightarrow> bind_result (check_referential_integrity file t) (\<lambda>_. Inr t)))"

section \<open>Matching a target\<close>

definition drop_git_suffix :: "string \<Rightarrow> string" where
  "drop_git_suffix s = (if endswith s ''.git'' then take (length s - 4) s else s)"

definition backslash :: char where
  "backslash = CHR 0x5C"

definition repository_name :: "string option \<Rightarrow> string option" where
  "repository_name url =
     (case url of
        None \<Rightarrow> None
      | Some u \<Rightarrow>
          if u = [] then None
          else let tail = after_last CHR ''/'' (rstrip_char CHR ''/'' (replace_char backslash CHR ''/'' (strip u)));
                   name = drop_git_suffix (after_last CHR '':'' tail)
               in if name = [] then None else Some name)"

definition lookup_specialist :: "RoutingTable \<Rightarrow> string \<Rightarrow> (node_error, Specialist) result" where
  "lookup_specialist t n = (case dict_get (tb_specialists t) n of None \<Rightarrow> Inl (KeyError n) | Some s \<Rightarrow> Inr s)"

fun find_route :: "string \<Rightarrow> Route list \<Rightarrow> Route option" where
  "find_route wanted [] = None"
| "find_route wanted (r # rs) = (if casefold (rt_repository r) = wanted then Some r else find_route wanted rs)"

definition resolve_default :: "RoutingTable \<Rightarrow> (node_error, Resolution) result" where
  "resolve_default t = bind_result (lookup_specialist t DEFAULT_SPECIALIST) (\<lambda>s. Inr
     \<lparr>rs_scenario = [], rs_name = DEFAULT_SPECIALIST, rs_specialist = s,
      rs_output_repository = None, rs_output_branch = ''main''\<rparr>)"

definition resolve_route :: "RoutingTable \<Rightarrow> Route \<Rightarrow> (node_error, Resolution) result" where
  "resolve_route t r = bind_result (lookup_specialist t (rt_specialist r)) (\<lambda>s. Inr
     \<lparr>rs_scenario = rt_scenario r, rs_name = rt_specialist r, rs_specialist = s,
      rs_output_repository = rt_output_repository r, rs_output_branch = rt_output_branch r\<rparr>)"

definition resolve_target :: "RoutingTable \<Rightarrow> string option \<Rightarrow> (node_error, Resolution) result" where
  "resolve_target t repository =
     (case repository of
        None \<Rightarrow> resolve_default t
      | Some name \<Rightarrow>
          if name = [] then resolve_default t
          else case find_route (casefold name) (tb_routes t) of
            None \<Rightarrow> resolve_default t
          | Some r \<Rightarrow> resolve_route t r)"

section \<open>What the environment supplies\<close>

text \<open>
  \<open>de_recv p\<close> is what the ping over socket \<open>p\<close> answers, \<open>None\<close> an \<open>OSError\<close>; \<open>de_info\<close> is
  the \<open>docker info\<close> process; \<open>de_which\<close> is \<open>shutil.which\<close>.
\<close>

record runtime_env =
  de_which :: "string \<Rightarrow> bool"
  de_docker_host :: string
  de_af_unix :: bool
  de_path_exists :: "string \<Rightarrow> bool"
  de_recv :: "string \<Rightarrow> string option"
  de_info :: proc

definition docker_socket_path :: "runtime_env \<Rightarrow> string option" where
  "docker_socket_path e =
     (if startswith (de_docker_host e) ''unix://'' then Some (drop 7 (de_docker_host e))
      else if de_docker_host e \<noteq> [] then None
      else Some ''/var/run/docker.sock'')"

definition daemon_answers_on_socket :: "runtime_env \<Rightarrow> bool" where
  "daemon_answers_on_socket e =
     (case docker_socket_path e of
        None \<Rightarrow> False
      | Some p \<Rightarrow>
          if \<not> de_af_unix e \<or> \<not> de_path_exists e p then False
          else case de_recv e p of None \<Rightarrow> False | Some b \<Rightarrow> contains ''200 OK'' b)"

definition docker_daemon_reachable :: "runtime_env \<Rightarrow> bool" where
  "docker_daemon_reachable e =
     (if daemon_answers_on_socket e then True
      else if \<not> de_which e ''docker'' then False
      else case de_info e of Exited rc _ _ \<Rightarrow> rc = 0 | _ \<Rightarrow> False)"

definition missing_requirements :: "runtime_env \<Rightarrow> RuntimeRequirements \<Rightarrow> string list" where
  "missing_requirements e rq =
     filter (\<lambda>n. \<not> de_which e n) (rq_executables rq) @
     (if rq_docker_daemon rq \<and> \<not> docker_daemon_reachable e then [''a reachable Docker daemon''] else [])"

definition require_runtime :: "runtime_env \<Rightarrow> string \<Rightarrow> string \<Rightarrow> SpecialistPhase \<Rightarrow> (node_error, unit) result" where
  "require_runtime e sp ph phase =
     (let missing = missing_requirements e (ph_requires phase) in
      if missing = [] then Inr ()
      else Inl (RuntimeError (''specialist '' @ quoted sp @ '' phase '' @ quoted ph @ '' needs '' @ join '', '' missing @
             '', which this environment does not provide. The shipped image is python:3.12-slim and carries no '' @
             ''specialist runtime; a specialist-capable deployment is a customised image, not a config toggle (ADR-0016).'')))"

section \<open>Lemmas\<close>

lemma check_routes_iff:
  "check_routes file sps seen rs = Inr () \<longleftrightarrow>
     (\<forall>r \<in> set rs. rt_specialist r \<in> set (dict_keys sps)) \<and>
     distinct (map (\<lambda>r. casefold (rt_repository r)) rs) \<and>
     (\<forall>r \<in> set rs. casefold (rt_repository r) \<notin> set (dict_keys seen))"
proof (induction rs arbitrary: seen)
  case Nil
  then show ?case by simp
next
  case (Cons r rs)
  show ?case
  proof (cases "dict_get seen (casefold (rt_repository r))")
    case None
    then have "casefold (rt_repository r) \<notin> set (dict_keys seen)" by (simp add: dict_get_None_iff)
    moreover have "(\<forall>x \<in> set rs. casefold (rt_repository x) \<noteq> casefold (rt_repository r)) \<longleftrightarrow>
        casefold (rt_repository r) \<notin> (\<lambda>x. casefold (rt_repository x)) ` set rs" unfolding image_iff by metis
    ultimately show ?thesis using None by (auto simp: Let_def Cons.IH)
  next
    case (Some other)
    then have "casefold (rt_repository r) \<in> set (dict_keys seen)" using dict_get_None_iff [of seen] by (metis option.distinct(1))
    then show ?thesis using Some by (auto simp: Let_def)
  qed
qed

lemma find_route_Some:
  "find_route k rs = Some r \<Longrightarrow> r \<in> set rs \<and> casefold (rt_repository r) = k"
  by (induction rs) (auto split: if_splits)

lemma find_route_None: "find_route k rs = None \<longleftrightarrow> (\<forall>r \<in> set rs. casefold (rt_repository r) \<noteq> k)"
  by (induction rs) auto

lemma find_route_distinct:
  "distinct (map (\<lambda>r. casefold (rt_repository r)) rs) \<Longrightarrow> r \<in> set rs \<Longrightarrow>
   find_route (casefold (rt_repository r)) rs = Some r"
  by (induction rs) force+

definition table_ok :: "RoutingTable \<Rightarrow> bool" where
  "table_ok t \<longleftrightarrow>
     (\<exists>b. dict_get (tb_specialists t) DEFAULT_SPECIALIST = Some (Builtin b)) \<and>
     (\<forall>r \<in> set (tb_routes t). rt_specialist r \<in> set (dict_keys (tb_specialists t))) \<and>
     distinct (map (\<lambda>r. casefold (rt_repository r)) (tb_routes t))"

lemma check_referential_integrity_iff:
  "check_referential_integrity file t = Inr () \<longleftrightarrow> table_ok t"
  by (auto simp: check_referential_integrity_def table_ok_def check_routes_iff dict_keys_def
      split: option.splits Specialist.splits)

lemma default_table_ok: "table_ok default_routing_table"
  by (simp add: table_ok_def default_routing_table_def dict_get_def)

lemma load_routing_table_ok:
  "load_routing_table file f raw mv = Inr t \<Longrightarrow> table_ok t"
  by (auto simp: load_routing_table_def check_referential_integrity_iff default_table_ok
      bind_result_Inr_iff split: if_splits yaml_read.splits sum.splits)

lemma table_ok_lookup:
  "table_ok t \<Longrightarrow> r \<in> set (tb_routes t) \<Longrightarrow> \<exists>s. lookup_specialist t (rt_specialist r) = Inr s"
  using dict_get_None_iff [of "tb_specialists t" "rt_specialist r"]
  by (auto simp: table_ok_def lookup_specialist_def split: option.splits)

lemma resolve_default_ok:
  "table_ok t \<Longrightarrow> \<exists>r b. resolve_default t = Inr r \<and> rs_name r = DEFAULT_SPECIALIST \<and>
     rs_specialist r = Builtin b \<and> rs_output_repository r = None"
  by (auto simp: table_ok_def resolve_default_def lookup_specialist_def)

text \<open>The name in a URL: whatever leads up to it, whatever slashes and suffix follow.\<close>

definition plain_name :: "string \<Rightarrow> bool" where
  "plain_name r \<longleftrightarrow> r \<noteq> [] \<and> \<not> endswith r ''.git'' \<and>
     (\<forall>c \<in> set r. c \<noteq> CHR ''/'' \<and> c \<noteq> CHR '':'' \<and> c \<noteq> backslash \<and> \<not> is_space c)"

lemma rstrip_char_replicate:
  "s = [] \<or> last s \<noteq> c \<Longrightarrow> rstrip_char c (s @ replicate n c) = s"
proof -
  assume s: "s = [] \<or> last s \<noteq> c"
  have "dropWhile (\<lambda>x. x = c) (replicate n c @ rev s) = rev s"
    using s by (cases s rule: rev_cases) (simp_all add: dropWhile_append)
  then show ?thesis by (simp add: rstrip_char_def)
qed

lemma rstrip_last: "s \<noteq> [] \<Longrightarrow> \<not> is_space (last s) \<Longrightarrow> rstrip s = s"
  by (rule rstrip_eq_id) simp

lemma strip_prefix_blank:
  assumes "t \<noteq> []" "\<not> is_space (hd t)" "\<not> is_space (last t)"
  shows "strip (p @ t) = lstrip p @ t"
proof -
  have "lstrip (p @ t) = lstrip p @ t"
    using assms by (cases t) (auto simp: lstrip_def dropWhile_append)
  then show ?thesis using assms by (simp add: strip_def rstrip_last)
qed

lemma drop_git_suffix_append [simp]: "drop_git_suffix (r @ ''.git'') = r"
  by (simp add: drop_git_suffix_def endswith_iff)

lemma replace_char_simps:
  "replace_char a b (s @ t) = replace_char a b s @ replace_char a b t"
  "replace_char a b (c # t) = (if c = a then b else c) # replace_char a b t"
  "replace_char a b [] = []"
  by (simp_all add: replace_char_def)

lemma replace_char_id: "a \<notin> set s \<Longrightarrow> replace_char a b s = s"
  by (induction s) (auto simp: replace_char_simps)

section \<open>Properties\<close>

text \<open>
  One repository, one name. However a remote is spelt - over https or ssh, in the scp
  style, with or without the \<open>.git\<close> suffix, with any number of trailing slashes, whatever
  host and owner precede it - \<open>repository_name\<close> gives the bare name, so a routing table
  need not list spellings.
\<close>

theorem repository_name_spelling:
  assumes r: "plain_name r" and sep: "sep = CHR ''/'' \<or> sep = CHR '':''" and suf: "suf = [] \<or> suf = ''.git''"
  shows "repository_name (Some (p @ [sep] @ r @ suf @ replicate n CHR ''/'')) = Some r"
proof -
  have blanks: "\<not> is_space CHR ''t''" "\<not> is_space CHR ''/''" "\<not> is_space CHR '':''"
    by (simp_all add: is_space_def code_def)
  define name where "name = r @ suf"
  have name: "name \<noteq> []" "CHR ''/'' \<notin> set name" "CHR '':'' \<notin> set name" "backslash \<notin> set name"
  proof -
    have r': "r \<noteq> []" "CHR ''/'' \<notin> set r" "CHR '':'' \<notin> set r" "backslash \<notin> set r"
      using r unfolding plain_name_def by blast+
    have "CHR ''/'' \<notin> set suf" "CHR '':'' \<notin> set suf" "backslash \<notin> set suf"
      using suf by (elim disjE; simp add: backslash_def)+
    with r' show "name \<noteq> []" "CHR ''/'' \<notin> set name" "CHR '':'' \<notin> set name" "backslash \<notin> set name"
      by (simp_all add: name_def)
  qed
  have last: "\<not> is_space (last name)" "last name \<noteq> CHR ''/''"
  proof -
    have "\<not> is_space (last r)" "last r \<noteq> CHR ''/''"
      using r last_in_set [of r] unfolding plain_name_def by blast+
    with suf show "\<not> is_space (last name)" "last name \<noteq> CHR ''/''"
      by (elim disjE; simp add: name_def blanks)+
  qed
  define t where "t = [sep] @ name @ replicate n CHR ''/''"
  have "t \<noteq> []" "\<not> is_space (hd t)" using sep blanks by (auto simp: t_def)
  moreover have "\<not> is_space (last t)"
    using last name blanks by (cases n) (auto simp: t_def)
  ultimately have 1: "strip (p @ t) = lstrip p @ t" by (rule strip_prefix_blank)
  define q where "q = replace_char backslash CHR ''/'' (lstrip p)"
  have sepn: "sep \<noteq> backslash" using sep by (auto simp: backslash_def)
  have rep: "replace_char backslash CHR ''/'' (replicate n CHR ''/'') = replicate n CHR ''/''"
    by (rule replace_char_id) (simp add: backslash_def)
  have 2: "replace_char backslash CHR ''/'' (strip (p @ t)) = q @ [sep] @ name @ replicate n CHR ''/''"
    unfolding 1 using sepn name(4)
    by (simp add: t_def replace_char_simps q_def rep replace_char_id)
  have 3: "rstrip_char CHR ''/'' (q @ [sep] @ name @ replicate n CHR ''/'') = q @ [sep] @ name"
    using rstrip_char_replicate [of "q @ [sep] @ name" "CHR ''/''" n] name last by simp
  have 4: "after_last CHR '':'' (after_last CHR ''/'' (q @ [sep] @ name)) = name"
  proof (cases "sep = CHR ''/''")
    case True
    then have "after_last CHR ''/'' (q @ [sep] @ name) = name"
      using after_last_append_sep [of "CHR ''/''" name q] name by simp
    then show ?thesis using name by (simp add: after_last_id)
  next
    case False
    then have colon: "sep = CHR '':''" using sep by simp
    obtain u where "after_last CHR ''/'' (q @ [sep] @ name) = u @ CHR '':'' # name"
    proof (cases "CHR ''/'' \<in> set q")
      case True
      then obtain a b where "q = a @ CHR ''/'' # b" "CHR ''/'' \<notin> set b"
        by (metis split_list_last)
      then have "after_last CHR ''/'' (q @ [sep] @ name) = b @ CHR '':'' # name"
        using after_last_append_sep [of "CHR ''/''" "b @ [sep] @ name" a] name colon by simp
      then show ?thesis using that by blast
    next
      case False
      then have "after_last CHR ''/'' (q @ [sep] @ name) = q @ CHR '':'' # name"
        using after_last_id [of "CHR ''/''" "q @ [sep] @ name"] name colon by simp
      then show ?thesis using that by blast
    qed
    then show ?thesis using after_last_append_sep name by simp
  qed
  have 5: "drop_git_suffix name = r"
  proof -
    have "\<not> endswith r ''.git''" using r unfolding plain_name_def by blast
    then have "drop_git_suffix r = r" by (simp add: drop_git_suffix_def)
    with suf show ?thesis by (elim disjE; simp add: name_def)
  qed
  have "r \<noteq> []" using r unfolding plain_name_def by blast
  with 2 3 4 5 have "repository_name (Some (p @ t)) = Some r"
    by (simp add: repository_name_def Let_def t_def)
  then show ?thesis by (simp add: t_def name_def)
qed

lemma repository_name_spelling_witness:
  "repository_name (Some ''git@host:svc.git'') = Some ''svc'' \<and>
   repository_name (Some ''https://host/o/svc/'') = Some ''svc''"
proof -
  have "plain_name ''svc''"
    by (auto simp: plain_name_def endswith_def startswith_def backslash_def char_classes)
  from repository_name_spelling [OF this, of "CHR '':''" "''.git''" "''git@host''" 0]
    repository_name_spelling [OF this, of "CHR ''/''" "[]" "''https://host/o''" 1]
  show ?thesis by simp
qed

text \<open>
  C13: a loaded routing table routes every target, and only one way. Resolution never fails;
  a target whose name is a listed repository, in any letter case, gets that entry's
  specialist and output repository and no other's; any other target gets the built-in
  generator and no output repository.
\<close>

theorem routing_unambiguous:
  assumes "load_routing_table file is_file raw model_validate = Inr t"
  shows "(\<forall>r \<in> set (tb_routes t). \<forall>name. name \<noteq> [] \<and> casefold name = casefold (rt_repository r) \<longrightarrow>
       (\<exists>res. resolve_target t (Some name) = Inr res \<and> rs_scenario res = rt_scenario r \<and>
          rs_name res = rt_specialist r \<and> dict_get (tb_specialists t) (rt_specialist r) = Some (rs_specialist res) \<and>
          rs_output_repository res = rt_output_repository r \<and> rs_output_branch res = rt_output_branch r)) \<and>
     (\<forall>repo. (\<forall>r \<in> set (tb_routes t). \<forall>name. repo = Some name \<longrightarrow> casefold name \<noteq> casefold (rt_repository r)) \<longrightarrow>
       (\<exists>res b. resolve_target t repo = Inr res \<and> rs_name res = DEFAULT_SPECIALIST \<and>
          rs_specialist res = Builtin b \<and> rs_output_repository res = None))"
proof (intro conjI ballI allI impI)
  have ok: "table_ok t" using assms by (rule load_routing_table_ok)
  fix r name assume r: "r \<in> set (tb_routes t)" and name: "name \<noteq> [] \<and> casefold name = casefold (rt_repository r)"
  have "find_route (casefold name) (tb_routes t) = Some r"
    using find_route_distinct [OF _ r] ok name by (simp add: table_ok_def)
  then have "resolve_target t (Some name) = resolve_route t r"
    using name by (simp add: resolve_target_def)
  moreover obtain s where "lookup_specialist t (rt_specialist r) = Inr s" using table_ok_lookup [OF ok r] by blast
  moreover from this have "dict_get (tb_specialists t) (rt_specialist r) = Some s"
    by (auto simp: lookup_specialist_def split: option.splits)
  ultimately show "\<exists>res. resolve_target t (Some name) = Inr res \<and> rs_scenario res = rt_scenario r \<and>
      rs_name res = rt_specialist r \<and> dict_get (tb_specialists t) (rt_specialist r) = Some (rs_specialist res) \<and>
      rs_output_repository res = rt_output_repository r \<and> rs_output_branch res = rt_output_branch r"
    by (simp add: resolve_route_def)
next
  have ok: "table_ok t" using assms by (rule load_routing_table_ok)
  fix repo assume *: "\<forall>r \<in> set (tb_routes t). \<forall>name. repo = Some name \<longrightarrow> casefold name \<noteq> casefold (rt_repository r)"
  have "find_route (casefold name) (tb_routes t) = None" if "repo = Some name" for name
    using * that find_route_None by metis
  then have "resolve_target t repo = resolve_default t"
    by (cases repo) (simp_all add: resolve_target_def)
  with resolve_default_ok [OF ok] show "\<exists>res b. resolve_target t repo = Inr res \<and>
      rs_name res = DEFAULT_SPECIALIST \<and> rs_specialist res = Builtin b \<and> rs_output_repository res = None"
    by metis
qed

text \<open>A table with one external specialist and the route to it.\<close>

definition demo_table :: RoutingTable where
  "demo_table = default_routing_table
     \<lparr>tb_specialists := [(''default'', Builtin default_builtin),
        (''port'', External \<lparr>es_command = ''port'', es_distribution = None, es_phases = []\<rparr>)],
      tb_routes := [\<lparr>rt_scenario = ''modernise'', rt_repository = ''Legacy'', rt_specialist = ''port'',
        rt_output_repository = Some ''https://h/o/new'', rt_output_branch = ''main''\<rparr>]\<rparr>"

lemma routing_unambiguous_witness:
  "\<exists>res. resolve_target demo_table (Some ''LEGACY'') = Inr res \<and> rs_name res = ''port'' \<and>
     rs_output_repository res = Some ''https://h/o/new''"
proof -
  have "table_ok demo_table"
    by (simp add: table_ok_def demo_table_def dict_get_def dict_keys_def DEFAULT_SPECIALIST_def)
  then have "load_routing_table ''/r.yaml'' True (YamlMapping JNull) (\<lambda>_. Inr demo_table) = Inr demo_table"
    by (simp add: load_routing_table_def check_referential_integrity_iff [of "''/r.yaml''", symmetric])
  from routing_unambiguous [OF this, THEN conjunct1]
  have "\<forall>name. name \<noteq> [] \<and> casefold name = casefold ''Legacy'' \<longrightarrow>
      (\<exists>res. resolve_target demo_table (Some name) = Inr res \<and> rs_name res = ''port'' \<and>
         rs_output_repository res = Some ''https://h/o/new'')"
    by (simp add: demo_table_def) metis
  moreover have "casefold ''LEGACY'' = casefold ''Legacy''"
    by code_simp
  ultimately show ?thesis by blast
qed

end
