(* ===== verification/Coder.thy ===== *)
theory Coder
  imports Nodes Specialists
begin

text \<open>
  \<open>agentic_control_plane/nodes/coder.py\<close>: the one node that asks a model for code, live
  through the \<open>claude\<close> CLI or from a recorded fixture. The CLI process, the fixture's text
  and the routing table of the moment are inputs; the choice of generator, the bounded
  retry of the call, the decoding of its answer, the selection of a fixture attempt and
  the safe stop on failure are modelled. Only the exceptions of
  \<open>_FIXTURE_FAILURE_TYPES\<close> become a safe stop; every other raise leaves the node.
\<close>

record 'w coder_in =
  cd_table :: "(node_error, RoutingTable) result"
  cd_requirements :: "string option"
  cd_on_path :: bool
  cd_claude :: "string list \<Rightarrow> nat \<Rightarrow> 'w \<Rightarrow> proc \<times> 'w"
  cd_runtime :: runtime_env
  cd_fixture :: "(node_error, string) result option"
  cd_fixtures_dir :: string
  cd_float :: "string \<Rightarrow> string"

section \<open>Exception classes\<close>

definition is_runtime_error :: "node_error \<Rightarrow> bool" where
  "is_runtime_error e = (case e of RuntimeError _ \<Rightarrow> True | GitOperationError _ \<Rightarrow> True | _ \<Rightarrow> False)"

definition is_value_error :: "node_error \<Rightarrow> bool" where
  "is_value_error e = (case e of ValueError _ \<Rightarrow> True | ValidationError _ \<Rightarrow> True | _ \<Rightarrow> False)"

definition is_os_error :: "node_error \<Rightarrow> bool" where
  "is_os_error e = (case e of OsError _ \<Rightarrow> True | FileNotFoundError _ \<Rightarrow> True | _ \<Rightarrow> False)"

definition is_fixture_failure :: "node_error \<Rightarrow> bool" where
  "is_fixture_failure e = (is_runtime_error e \<or> is_value_error e \<or> is_os_error e \<or>
     (case e of TimeoutExpired _ \<Rightarrow> True | KeyError _ \<Rightarrow> True | _ \<Rightarrow> False))"

fun err_text :: "node_error \<Rightarrow> string" where
  "err_text (ValidationError m) = m"
| "err_text (ValueError m) = m"
| "err_text (GitOperationError m) = m"
| "err_text (FileNotFoundError m) = m"
| "err_text (KeyError m) = quoted m"
| "err_text (OsError m) = m"
| "err_text (RuntimeError m) = m"
| "err_text (TimeoutExpired m) = m"
| "err_text (AttributeError m) = m"
| "err_text (TypeError m) = m"

section \<open>The prompt\<close>

definition available_dependencies_note :: "string option \<Rightarrow> string option" where
  "available_dependencies_note requirements =
     (case requirements of
        None \<Rightarrow> None
      | Some t \<Rightarrow>
          let packages = map strip (filter (\<lambda>l. strip l \<noteq> [] \<and> \<not> startswith (strip l) ''#'') (splitlines t)) in
          if packages = [] then None
          else Some (''Only these third-party packages are installed (plus the Python standard '' @
            ''library) - do not import anything outside this list: '' @ join '', '' packages))"

definition task_plan_note :: "GraphState \<Rightarrow> string option" where
  "task_plan_note s =
     (if tasks s = [] then None
      else Some (''Planned tasks (respect scope - do not touch files outside this plan unless a task requires it):'' @
        newline @ join newline (map (\<lambda>t. ''- ['' @ t_id t @ ''] '' @ t_description t) (tasks s))))"

definition prompt_intro :: string where
  "prompt_intro = ''You are generating production-quality Python code for the service '' @
     ''checked out in this working directory. Read what is already there to '' @
     ''infer its framework, layout and conventions - do not assume them.''"

definition prompt_rules :: "string list" where
  "prompt_rules =
     [''Prefer the smallest change that satisfies the requirement. If you change a '' @
      ''shared module (e.g. models.py) in a way that breaks its existing importers, '' @
      ''you MUST also return updated versions of every one of those importer files '' @
      ''in this same response - a partial update that leaves the rest of the '' @
      ''codebase inconsistent is not acceptable.'',
      ''Include pytest test file(s) under tests/ covering the new/changed behavior, '' @
      ''not just the implementation.'',
      ''Return ONLY a JSON object mapping relative file paths to full file contents, '' @
      ''no prose, no markdown fences, no explanation outside the JSON.'']"

definition opt_list :: "'a option \<Rightarrow> 'a list" where
  "opt_list x = (case x of None \<Rightarrow> [] | Some y \<Rightarrow> [y])"

definition build_prompt :: "GraphState \<Rightarrow> string option \<Rightarrow> string" where
  "build_prompt s requirements =
     (let body =
        (if fallback_triggered s then
           [prompt_intro,
            ''Previous attempts to satisfy this requirement failed after '' @ int_str (retry_limit s) @
            '' retries: '' @ requirement_clarified s,
            ''Fall back to the SIMPLEST possible correct implementation - prefer a '' @
            ''minimal, obviously-correct approach over an elegant one.'']
         else
           [prompt_intro, ''Requirement: '' @ requirement_clarified s,
            ''Architecture notes: '' @ ad_summary (architecture_design s)] @
           (if tr_failures (test s) = [] then []
            else ''The previous attempt failed these tests - fix the root cause:'' #
                 map (\<lambda>f. ''- '' @ f) (tr_failures (test s))))
      in join newline (body @ opt_list (task_plan_note s) @
           opt_list (available_dependencies_note requirements) @ prompt_rules))"

section \<open>Live generation\<close>

definition CLI_CALL_ATTEMPTS :: nat where
  "CLI_CALL_ATTEMPTS = 2"

text \<open>
  \<open>text.find("{")\<close> and \<open>text.rfind("}")\<close>: \<open>outer_braces\<close> is the text from the first
  opening to the last closing brace when the one precedes the other.
\<close>

definition outer_braces :: "string \<Rightarrow> string option" where
  "outer_braces t =
     (let s = dropWhile (\<lambda>c. c \<noteq> CHR ''{'') t;
          r = rev (dropWhile (\<lambda>c. c \<noteq> CHR ''}'') (rev s))
      in if r = [] then None else Some r)"

definition extract_json_object :: "(string \<Rightarrow> string) \<Rightarrow> string \<Rightarrow> (node_error, json) result" where
  "extract_json_object fr t =
     (case loads fr t of
        Some j \<Rightarrow> Inr j
      | None \<Rightarrow>
          (case outer_braces t of
             None \<Rightarrow> Inl (ValueError ''JSONDecodeError'')
           | Some u \<Rightarrow> (case loads fr u of Some j \<Rightarrow> Inr j | None \<Rightarrow> Inl (ValueError ''JSONDecodeError''))))"

fun truthy :: "json \<Rightarrow> bool" where
  "truthy JNull = False"
| "truthy (JBool b) = b"
| "truthy (JInt i) = (i \<noteq> 0)"
| "truthy (JFloat t) = (t \<noteq> ''0.0'' \<and> t \<noteq> ''-0.0'')"
| "truthy (JStr s) = (s \<noteq> [])"
| "truthy (JArr xs) = (xs \<noteq> [])"
| "truthy (JObj kvs) = (kvs \<noteq> [])"

definition is_jstr :: "json \<Rightarrow> bool" where
  "is_jstr j = (case j of JStr _ \<Rightarrow> True | _ \<Rightarrow> False)"

definition the_jstr :: "json \<Rightarrow> string" where
  "the_jstr j = (case j of JStr s \<Rightarrow> s | _ \<Rightarrow> [])"

text \<open>The flat \<open>{path: content}\<close> object the prompt asks for.\<close>

definition flat_files :: "json \<Rightarrow> (string, string) dict option" where
  "flat_files j = (case j of
     JObj kvs \<Rightarrow> if list_all (\<lambda>kv. is_jstr (snd kv)) kvs then Some (map (\<lambda>kv. (fst kv, the_jstr (snd kv))) kvs) else None
   | _ \<Rightarrow> None)"

definition decode_answer :: "(string \<Rightarrow> string) \<Rightarrow> string \<Rightarrow> (node_error, (string, string) dict) result" where
  "decode_answer fr out =
     (case loads fr out of
        None \<Rightarrow> Inl (ValueError ''JSONDecodeError'')
      | Some (JObj p) \<Rightarrow>
          if truthy (get_or JNull (dict_get p ''is_error'')) \<or> get_or JNull (dict_get p ''subtype'') \<noteq> JStr ''success''
          then Inl (RuntimeError (''claude CLI reported an error: '' @ py_repr (JObj p)))
          else (case dict_get p ''result'' of
                  None \<Rightarrow> Inl (KeyError ''result'')
                | Some (JStr t) \<Rightarrow>
                    bind_result (extract_json_object fr t) (\<lambda>j. case flat_files j of
                      None \<Rightarrow> Inl (ValueError ''claude CLI result did not decode to a flat {path: content} object'')
                    | Some fs \<Rightarrow> Inr fs)
                | Some _ \<Rightarrow> Inl (TypeError ''the JSON object must be str, bytes or bytearray''))
      | Some _ \<Rightarrow> Inl (AttributeError ''get''))"

definition claude_argv :: "string \<Rightarrow> BuiltinSpecialist \<Rightarrow> string list" where
  "claude_argv prompt g = [''claude'', ''-p'', prompt, ''--model'', bs_model g, ''--output-format'', ''json'']"

definition invoke_claude_cli_once ::
  "'w coder_in \<Rightarrow> string \<Rightarrow> BuiltinSpecialist \<Rightarrow> nat \<Rightarrow> ('w, node_error, (string, string) dict) io" where
  "invoke_claude_cli_once ci prompt g attempt w =
     (case cd_claude ci (claude_argv prompt g) attempt w of
        (SpawnFailed m, w') \<Rightarrow> (Inl (FileNotFoundError m), w')
      | (Expired _ _, w') \<Rightarrow> (Inl (TimeoutExpired ''claude''), w')
      | (Exited rc out err, w') \<Rightarrow>
          if rc \<noteq> 0
          then (Inl (RuntimeError (''claude CLI exited '' @ int_str rc @ '': '' @ strip err)), w')
          else (decode_answer (cd_float ci) out, w'))"

text \<open>\<open>for attempt in range(1, attempts + 1)\<close>: \<open>k\<close> attempts are left, the last error is raised.\<close>

fun claude_attempts ::
  "'w coder_in \<Rightarrow> string \<Rightarrow> BuiltinSpecialist \<Rightarrow> nat \<Rightarrow> nat \<Rightarrow> ('w, node_error, (string, string) dict) io" where
  "claude_attempts ci prompt g attempt 0 w = (Inl (RuntimeError ''no attempt''), w)"
| "claude_attempts ci prompt g attempt (Suc k) w =
     (case invoke_claude_cli_once ci prompt g attempt w of
        (Inr fs, w') \<Rightarrow> (Inr fs, w')
      | (Inl e, w') \<Rightarrow>
          if (is_runtime_error e \<or> is_value_error e) \<and> k \<noteq> 0
          then claude_attempts ci prompt g (Suc attempt) k w' else (Inl e, w'))"

definition CLAUDE_CLI_UNAVAILABLE :: string where
  "CLAUDE_CLI_UNAVAILABLE = ''ORCHESTRATOR_MODE=live requires the '' @ backquoted ''claude'' @ '' CLI on PATH and an '' @
     ''authenticated session. The shipped image installs neither; live mode '' @
     ''needs a customized image that provides both.''"

definition require_claude_cli :: "'w coder_in \<Rightarrow> (node_error, unit) result" where
  "require_claude_cli ci = (if cd_on_path ci then Inr () else Inl (RuntimeError CLAUDE_CLI_UNAVAILABLE))"

definition invoke_claude_cli ::
  "'w coder_in \<Rightarrow> string \<Rightarrow> BuiltinSpecialist \<Rightarrow> ('w, node_error, (string, string) dict) io" where
  "invoke_claude_cli ci prompt g w =
     (case require_claude_cli ci of
        Inl x \<Rightarrow> (Inl x, w)
      | Inr _ \<Rightarrow> claude_attempts ci prompt g 1 CLI_CALL_ATTEMPTS w)"

fun require_phases :: "runtime_env \<Rightarrow> string \<Rightarrow> (string, SpecialistPhase) dict \<Rightarrow> (node_error, unit) result" where
  "require_phases e n [] = Inr ()"
| "require_phases e n ((ph, phase) # ps) = bind_result (require_runtime e n ph phase) (\<lambda>_. require_phases e n ps)"

definition not_wired_text :: "Resolution \<Rightarrow> ExternalSpecialist \<Rightarrow> string" where
  "not_wired_text route x = ''this target is routed to specialist '' @ quoted (rs_name route) @
     (if rs_scenario route \<noteq> [] then '' for scenario '' @ repr_str (rs_scenario route) else []) @
     '', and invoking '' @ backquoted (es_command x) @ '' is not wired yet (ADR-0016). The run stops here rather than falling back '' @
     ''to the general-purpose generator, which would produce output for a target that was routed away from it.''"

definition generate_live ::
  "'w coder_in \<Rightarrow> GraphState \<Rightarrow> Resolution \<Rightarrow> ('w, node_error, (string, string) dict) io" where
  "generate_live ci s route w =
     (case rs_specialist route of
        External x \<Rightarrow>
          (bind_result (require_phases (cd_runtime ci) (rs_name route) (es_phases x)) (\<lambda>_.
             Inl (RuntimeError (not_wired_text route x))), w)
      | Builtin g \<Rightarrow> invoke_claude_cli ci (build_prompt s (cd_requirements ci)) g w)"

section \<open>Replay\<close>

definition fixture_path :: "'w coder_in \<Rightarrow> ScenarioType \<Rightarrow> string" where
  "fixture_path ci sc = cd_fixtures_dir ci @ ''/'' @ scenario_name sc @ ''/transcript.json''"

definition no_fixture_text :: "'w coder_in \<Rightarrow> ScenarioType \<Rightarrow> string" where
  "no_fixture_text ci sc = ''no recorded fixture for scenario '' @ quoted (scenario_name sc) @ '' (expected '' @ fixture_path ci sc @
     ''). Replay mode needs fixtures supplied for the service being worked on; this platform ships none. Mount them at FIXTURES_DIR, '' @
     ''or run live mode against a customized image providing the '' @ backquoted ''claude'' @ '' CLI.''"

definition load_fixture :: "'w coder_in \<Rightarrow> ScenarioType \<Rightarrow> (node_error, json) result" where
  "load_fixture ci sc =
     (case cd_fixture ci of
        None \<Rightarrow> Inl (RuntimeError (no_fixture_text ci sc))
      | Some r \<Rightarrow> bind_result r (\<lambda>t. case loads (cd_float ci) t of
          None \<Rightarrow> Inl (ValueError ''JSONDecodeError'') | Some j \<Rightarrow> Inr j))"

text \<open>Iterating over a value: a list's items, a string's letters, an object's keys.\<close>

definition iterate :: "json \<Rightarrow> (node_error, json list) result" where
  "iterate j = (case j of
     JArr xs \<Rightarrow> Inr xs | JStr s \<Rightarrow> Inr (map (\<lambda>c. JStr [c]) s) | JObj kvs \<Rightarrow> Inr (map (\<lambda>kv. JStr (fst kv)) kvs)
   | _ \<Rightarrow> Inl (TypeError ''object is not iterable''))"

definition json_get :: "json \<Rightarrow> string \<Rightarrow> json \<Rightarrow> (node_error, json) result" where
  "json_get j k d = (case j of JObj kvs \<Rightarrow> Inr (get_or d (dict_get kvs k)) | _ \<Rightarrow> Inl (AttributeError ''get''))"

definition json_item :: "json \<Rightarrow> string \<Rightarrow> (node_error, json) result" where
  "json_item j k = (case j of
     JObj kvs \<Rightarrow> (case dict_get kvs k of None \<Rightarrow> Inl (KeyError k) | Some v \<Rightarrow> Inr v)
   | _ \<Rightarrow> Inl (TypeError ''not subscriptable by a string''))"

text \<open>Python's \<open>==\<close> between a decoded value and an int: floats and bools compare by value.\<close>

definition equals_int :: "json \<Rightarrow> int \<Rightarrow> bool" where
  "equals_int j n = (case j of JInt i \<Rightarrow> i = n | JBool b \<Rightarrow> (if b then 1 else 0) = n
     | JFloat t \<Rightarrow> t = int_str n @ ''.0'' | _ \<Rightarrow> False)"

fun matching :: "(json \<Rightarrow> (node_error, bool) result) \<Rightarrow> json list \<Rightarrow> (node_error, json list) result" where
  "matching p [] = Inr []"
| "matching p (x # xs) = bind_result (p x) (\<lambda>b. bind_result (matching p xs) (\<lambda>ys. Inr (if b then x # ys else ys)))"

definition select_fixture_attempt :: "json \<Rightarrow> int \<Rightarrow> bool \<Rightarrow> (node_error, json) result" where
  "select_fixture_attempt attempts n fallback =
     bind_result (iterate attempts) (\<lambda>xs.
       bind_result (if fallback then matching (\<lambda>x. bind_result (json_get x ''fallback'' JNull) (\<lambda>v. Inr (truthy v))) xs
                    else matching (\<lambda>x. bind_result (json_item x ''attempt_number'') (\<lambda>v. Inr (equals_int v n))) xs)
         (\<lambda>ys. case ys of
            y # _ \<Rightarrow> Inr y
          | [] \<Rightarrow> Inl (RuntimeError (if fallback
              then ''fallback path was triggered but this scenario'' @ [CHR 0x27] @ ''s fixture has no recorded fallback attempt''
              else ''no recorded fixture attempt #'' @ int_str n @ '' for this scenario (fixture has '' @ nat_str (length xs) @ '' attempt(s))''))))"

section \<open>The node\<close>

definition run_resolve_route :: "'w env \<Rightarrow> 'w coder_in \<Rightarrow> ('w, node_error, Resolution) io" where
  "run_resolve_route e ci w =
     (case cd_table ci of
        Inl x \<Rightarrow> (Inl x, w)
      | Inr t \<Rightarrow> bind_io (git_remote_url (e_git e))
          (\<lambda>url w'. (resolve_target t (repository_name url), w')) w)"

text \<open>
  What generation hands on: the files as decoded, where a fixture came from, the rationale.
  A replayed fixture's values are used as they are, strings or not.
\<close>

definition generated :: "json \<Rightarrow> string option \<Rightarrow> json \<Rightarrow> json \<times> string option \<times> json" where
  "generated fs src why = (fs, src, why)"

definition replay_entry :: "'w coder_in \<Rightarrow> GraphState \<Rightarrow> int \<Rightarrow> (node_error, json \<times> string option \<times> json) result" where
  "replay_entry ci s n =
     bind_result (load_fixture ci (scenario_type s)) (\<lambda>fx.
     bind_result (json_get fx ''attempts'' (JArr [])) (\<lambda>attempts.
     bind_result (select_fixture_attempt attempts n (fallback_triggered s)) (\<lambda>entry.
     bind_result (json_item entry ''code_files'') (\<lambda>fs.
     bind_result (json_get entry ''rationale'' (JStr [])) (\<lambda>why.
       Inr (generated fs (Some (fixture_path ci (scenario_type s))) why))))))"

definition files_json :: "(string, string) dict \<Rightarrow> json" where
  "files_json fs = JObj (map (\<lambda>kv. (fst kv, JStr (snd kv))) fs)"

definition generate ::
  "'w env \<Rightarrow> 'w coder_in \<Rightarrow> GraphState \<Rightarrow> ('w, node_error, Resolution \<times> json \<times> string option \<times> json) io" where
  "generate e ci s =
     (let n = retry_count s + 1 in
      bind_io (run_resolve_route e ci) (\<lambda>route.
        case mode s of
          Live \<Rightarrow> bind_io (generate_live ci s route) (\<lambda>fs. ret_io (route, generated (files_json fs) None
            (JStr (''Live generation by '' @ quoted (rs_name route) @ '', attempt '' @ int_str n @ ''.''))))
        | Replay \<Rightarrow> (\<lambda>w. (bind_result (replay_entry ci s n) (\<lambda>g. Inr (route, g)), w))))"

text \<open>
  \<open>write_code_files\<close> on decoded values: string contents are written; the first content
  that is not a string raises once its target is admitted and its directory made.
\<close>

definition string_prefix :: "(string \<times> json) list \<Rightarrow> (string, string) dict" where
  "string_prefix kvs = map (\<lambda>kv. (fst kv, the_jstr (snd kv))) (takeWhile (\<lambda>kv. is_jstr (snd kv)) kvs)"

definition write_decoded :: "(path \<Rightarrow> path) \<Rightarrow> path \<Rightarrow> json \<Rightarrow> (fs, node_error, unit) io" where
  "write_decoded resolve workspace j =
     (case j of
        JObj kvs \<Rightarrow>
          bind_io (write_code_files resolve workspace (string_prefix kvs)) (\<lambda>_.
            case dropWhile (\<lambda>kv. is_jstr (snd kv)) kvs of
              [] \<Rightarrow> ret_io ()
            | (k, _) # _ \<Rightarrow>
                (let ws = resolve workspace; target = resolve (join_path ws k) in
                 if target \<noteq> ws \<and> \<not> strict_prefix ws target
                 then raise_io (ValueError (''Refusing to write outside workspace: '' @ k))
                 else bind_io (mkdirs (butlast target)) (\<lambda>_. raise_io (TypeError ''data must be str''))))
      | _ \<Rightarrow> bind_io (mkdirs (resolve workspace)) (\<lambda>_. raise_io (AttributeError ''items'')))"

definition safe_stop_updates :: "inputs \<Rightarrow> int \<Rightarrow> node_error \<Rightarrow> updates" where
  "safe_stop_updates i n x =
     [WSafeStop True, WRunStatus Failed, WFinishedAt (Some (clk_now (i_clock i))),
      WCoder (empty_coder\<lparr>co_attempt_number := n, co_rationale := err_text x\<rparr>),
      WEvents [ev (i_clock i) ''coder'' EvSafeStop (err_text x)]]"

definition mode_name :: "OrchestratorMode \<Rightarrow> string" where
  "mode_name m = (case m of Live \<Rightarrow> ''live'' | Replay \<Rightarrow> ''replay'')"

definition coder_node :: "'w env \<Rightarrow> inputs \<Rightarrow> 'w coder_in \<Rightarrow> GraphState \<Rightarrow> 'w \<Rightarrow> updates node_result \<times> 'w" where
  "coder_node e i ci s w =
     (let n = retry_count s + 1 in
      case generate e ci s w of
        (Inl x, w1) \<Rightarrow>
          if is_fixture_failure x then (Update (safe_stop_updates i n x), w1) else (Raise x, w1)
      | (Inr (route, fs, src, why), w1) \<Rightarrow>
          (case bind_io (git_current_commit (e_git e)) (\<lambda>sha.
                  bind_io (on_fs e (write_decoded (e_resolve e) (e_workspace e) fs)) (\<lambda>_. ret_io sha)) w1 of
             (Inl x, w2) \<Rightarrow> (Raise x, w2)
           | (Inr sha, w2) \<Rightarrow>
               (case (flat_files fs, is_jstr why) of
                  (Some files, True) \<Rightarrow>
                    (let out = \<lparr>co_code_files = files, co_attempt_number = n, co_fixture_source = src,
                                co_commit_sha_before = sha, co_rationale = the_jstr why\<rparr>
                     in (Update [WCoder out, WCoderAttempts [out],
                           WEvents [ev_timed (i_clock i) ''coder'' NodeEnd
                             (''attempt '' @ int_str n @ '': generated '' @ nat_str (length files) @ '' file(s) ('' @
                              mode_name (mode s) @ '' mode, specialist '' @ quoted (rs_name route) @ '')'')]], w2))
                | _ \<Rightarrow> (Raise (ValidationError ''CoderOutput''), w2))))"

section \<open>The bounded retry of the CLI call\<close>

text \<open>A CLI that counts its calls.\<close>

definition counted :: "'w coder_in \<Rightarrow> ('w \<times> nat) coder_in" where
  "counted ci = \<lparr>cd_table = cd_table ci, cd_requirements = cd_requirements ci, cd_on_path = cd_on_path ci,
     cd_claude = (\<lambda>argv k (w, n). let (p, w') = cd_claude ci argv k w in (p, (w', Suc n))),
     cd_runtime = cd_runtime ci, cd_fixture = cd_fixture ci, cd_fixtures_dir = cd_fixtures_dir ci,
     cd_float = cd_float ci\<rparr>"

definition retryable :: "node_error \<Rightarrow> bool" where
  "retryable e = (is_runtime_error e \<or> is_value_error e)"

lemma once_counted:
  "invoke_claude_cli_once (counted ci) p g k (w, n) =
     (fst (invoke_claude_cli_once ci p g k w), (snd (invoke_claude_cli_once ci p g k w), Suc n))"
  by (simp add: invoke_claude_cli_once_def counted_def Let_def split: prod.splits proc.splits)

text \<open>
  The call to the model's CLI is retried once and only for a failure worth retrying.
  Without the CLI on PATH nothing is called; otherwise it is called once, or twice when the
  first call ended in an error exit, an error payload or an answer that does not decode - a
  timeout or a CLI that cannot be started is not tried again. The outcome is that of the
  last call.
\<close>

theorem cli_calls_bounded:
  "let once = (\<lambda>k w. invoke_claude_cli_once ci p g k w);
       out = invoke_claude_cli (counted ci) p g (w, 0)
   in if \<not> cd_on_path ci then \<not> is_ok (fst out) \<and> snd out = (w, 0)
      else if \<exists>e. fst (once 1 w) = Inl e \<and> retryable e
        then fst out = fst (once 2 (snd (once 1 w))) \<and> snd (snd out) = 2
        else fst out = fst (once 1 w) \<and> snd (snd out) = 1"
proof -
  obtain r1 w1 where 1: "invoke_claude_cli_once ci p g 1 w = (r1, w1)" by (cases "invoke_claude_cli_once ci p g 1 w")
  obtain r2 w2 where 2: "invoke_claude_cli_once ci p g 2 w1 = (r2, w2)" by (cases "invoke_claude_cli_once ci p g 2 w1")
  have path: "cd_on_path (counted ci) = cd_on_path ci" by (simp add: counted_def)
  have two: "claude_attempts (counted ci) p g 1 CLI_CALL_ATTEMPTS (w, 0) =
      (case r1 of Inr fs \<Rightarrow> (Inr fs, (w1, 1))
       | Inl e \<Rightarrow> if retryable e then (r2, (w2, 2)) else (Inl e, (w1, 1)))"
    using 1 2 by (auto simp: CLI_CALL_ATTEMPTS_def numeral_2_eq_2 once_counted retryable_def split: sum.splits)
  show ?thesis
    using two 1 2 by (cases r1) (simp_all add: invoke_claude_cli_def require_claude_cli_def path Let_def)
qed

end
