(* ===== verification/NodeFacts.thy ===== *)
theory NodeFacts
  imports Coder
begin

text \<open>
  What each node writes when it returns: one lemma per node, giving the channels and the
  values that matter to the run's control. The graph's invariants rest on these alone.
\<close>

named_theorems node_effects \<open>the writes of a node that returns\<close>

definition gate_set :: "GateType \<Rightarrow> bool \<Rightarrow> GraphState \<Rightarrow> (GateType \<rightharpoonup> GateRecord) \<Rightarrow> bool" where
  "gate_set g asked s m = (if asked then \<exists>r. m = (gates s)(g \<mapsto> r) \<and> gr_gate_type r = g else m = gates s)"

lemma make_gate_record_type: "make_gate_record g d t = Inr r \<Longrightarrow> gr_gate_type r = g"
  by (drule make_gate_record_Inr) simp

lemma gate_set_simps [simp]:
  "gate_set g False s m \<longleftrightarrow> m = gates s"
  "make_gate_record g d t = Inr r \<Longrightarrow> gate_set g True s ((gates s)(g \<mapsto> r))"
  by (auto simp: gate_set_def dest: make_gate_record_type)

lemma requirement_clarifier_effect [node_effects]:
  assumes "requirement_clarifier i s = Update us"
  shows "\<exists>c a m evs. us = [WRequirementClarified c, WAmbiguities a, WGates m, WEvents evs] \<and>
     gate_set ClarificationApproval (scenario_type s = Greenfield) s m"
  using assms
  by (auto simp: requirement_clarifier_def Let_def interrupt_def
      split: if_splits option.splits sum.splits)

lemma codebase_reasoner_effect [node_effects]:
  assumes "codebase_reasoner e i s = Update us"
  shows "\<exists>ci m ws evs. us = [WCodebaseImpact ci, WGates m] @ ws @ [WEvents evs] \<and>
     gate_set CodebaseImpactReview (scenario_type s = Brownfield) s m \<and>
     (ws = [] \<or> scenario_type s = Ambiguous \<and> (\<exists>r. r \<noteq> [] \<and> ws = [WReplanningTriggered True, WReplanningReason r]))"
  using assms
  by (auto simp: codebase_reasoner_def Let_def interrupt_def
      split: if_splits option.splits sum.splits prod.splits)

lemma architecture_design_effect [node_effects]:
  assumes "architecture_design_node i s = Update us"
  shows "\<exists>d evs. us = [WArchitectureDesign d, WEvents evs]"
  using assms by (auto simp: architecture_design_node_def Let_def)

lemma decomposer_planner_effect [node_effects]:
  assumes "decomposer_planner i s = Update us"
  shows "\<exists>ts m evs. us = [WTasks ts, WGates m, WEvents evs] \<and>
     gate_set PlanApproval (scenario_type s = Greenfield) s m"
  using assms
  by (auto simp: decomposer_planner_def Let_def interrupt_def
      split: if_splits option.splits sum.splits)

lemma replanner_effect [node_effects]:
  assumes "replanner i s = Update us"
  shows "\<exists>m evs. us = [WGates m, WEvents evs] \<and> gate_set ReplanningApproval True s m"
  using assms
  by (auto simp: replanner_def Let_def interrupt_def
      split: if_splits option.splits sum.splits)

lemma documentation_effect [node_effects]:
  assumes "documentation_node e i s w = (Update us, w')"
  shows "\<exists>d evs. us = [WDocumentation d, WEvents evs]"
  using assms by (auto simp: documentation_node_def Let_def split: sum.splits prod.splits)

text \<open>How a test run moves the retry chain.\<close>

definition retry_move :: "GraphState \<Rightarrow> bool \<Rightarrow> chan_write list \<Rightarrow> bool" where
  "retry_move s passed ws \<longleftrightarrow>
     ws = [WRouteHint Proceed] \<and> passed
     \<or> \<not> passed \<and> (ws = [WRouteHint HintRollback] \<and> fallback_triggered s
       \<or> ws = [WRetryCount (retry_count s + 1), WRouteHint Retry] \<and> \<not> fallback_triggered s \<and> retry_count s < retry_limit s
       \<or> ws = [WFallbackTriggered True, WRouteHint FallbackAttempt] \<and> \<not> fallback_triggered s \<and> \<not> retry_count s < retry_limit s)"

lemma test_executor_effect [node_effects]:
  assumes "test_executor i s = Update us"
  shows "\<exists>tr evs ws. us = WTest tr # ws @ [WEvents evs] \<and> retry_move s (tr_passed tr) ws \<and>
     tr_attempt_number tr = co_attempt_number (coder_output s)"
  using assms
  by (auto simp: test_executor_def Let_def retry_move_def split: if_splits sum.splits)

text \<open>A generation that fails stops the run; one that succeeds records one attempt.\<close>

lemma coder_effect [node_effects]:
  assumes "coder_node e i ci s w = (Update us, w')"
  shows "(\<exists>co evs. us = [WCoder co, WCoderAttempts [co], WEvents evs] \<and> co_attempt_number co = retry_count s + 1)
       \<or> (\<exists>co evs t. us = [WSafeStop True, WRunStatus Failed, WFinishedAt (Some t), WCoder co, WEvents evs])"
  using assms
  by (auto simp: coder_node_def Let_def safe_stop_updates_def
      split: if_splits sum.splits prod.splits option.splits bool.splits)

text \<open>
  The release gate: a recorded approval means the human approved and every finding of the
  guardrails is overridden; only then is there a commit, and the run completed.
\<close>

definition all_overridden :: "GuardrailViolation list \<Rightarrow> bool" where
  "all_overridden vs = list_all gv_overridden_by_human vs"

definition approved_by :: "decision \<Rightarrow> GuardrailViolation list \<Rightarrow> bool" where
  "approved_by d vs \<longleftrightarrow> status_text d = ''approved'' \<and> all_overridden vs"

lemma read_status_Approved: "read_status s = Some Approved \<longleftrightarrow> s = ''approved''"
  by (auto simp: read_status_def)

lemma release_decision_approved:
  assumes "make_gate_record g (release_decision vs d) t = Inr r" "gr_status r = Approved"
  shows "status_text d = ''approved'' \<and> (vs = [] \<or> get_or False (d_override_guardrails d))"
  using make_gate_record_Inr [OF assms(1)] assms(2)
  by (auto simp: release_decision_def read_status_Approved status_text_def split: if_splits)

lemma release_gate_effect [node_effects]:
  assumes "release_gate e i s w = (Update us, w')"
  shows "\<exists>d r vs evs. i_decision i = Some d \<and> gr_decision_payload r = Some d \<and> gr_gate_type r = MergeReleaseApproval \<and>
     length vs = length (evaluate_guardrails (co_code_files (coder_output s))) \<and>
     (gr_status r = Approved \<longrightarrow> approved_by d vs) \<and>
     (if gr_status r = Approved
      then \<exists>t sha. git_commit_all (e_git e) (commit_message s) w = (Inr sha, w') \<and>
         us = [WGates ((gates s)(MergeReleaseApproval \<mapsto> r)), WGuardrailViolations vs, WRunStatus Completed,
           WFinishedAt (Some t), WCommitShaAfter (Some sha), WEvents evs]
      else w' = w \<and>
         us = [WGates ((gates s)(MergeReleaseApproval \<mapsto> r)), WGuardrailViolations vs, WEvents evs])"
proof -
  define vs0 where "vs0 = violations_of (evaluate_guardrails (co_code_files (coder_output s)))"
  obtain d where d: "i_decision i = Some d"
    using assms by (cases "i_decision i") (simp_all add: release_gate_def Let_def)
  define vs where "vs = (if get_or False (d_override_guardrails d)
    then map (\<lambda>v. v\<lparr>gv_overridden_by_human := True\<rparr>) vs0 else vs0)"
  obtain r where r: "make_gate_record MergeReleaseApproval (release_decision vs0 d) None = Inr r"
    using assms d by (cases "make_gate_record MergeReleaseApproval (release_decision vs0 d) None")
      (simp_all add: release_gate_def Let_def vs0_def)
  define r' where "r' = r\<lparr>gr_decision_payload := Some d\<rparr>"
  have len: "length vs = length (evaluate_guardrails (co_code_files (coder_output s)))"
    by (simp add: vs_def vs0_def violations_of_def)
  have appr: "gr_status r = Approved \<Longrightarrow> approved_by d vs"
    using release_decision_approved [OF r]
    by (auto simp: approved_by_def all_overridden_def vs_def list_all_iff)
  have ty: "gr_gate_type r = MergeReleaseApproval" using make_gate_record_type [OF r] .
  note run = assms [unfolded release_gate_def Let_def d vs0_def [symmetric] r option.case sum.case]
  show ?thesis
  proof (cases "gr_status r = Approved")
    case True
    then obtain sha where "git_commit_all (e_git e) (commit_message s) w = (Inr sha, w')"
      using run by (auto split: prod.splits sum.splits)
    then show ?thesis using True run d ty len appr
      by (intro exI [of _ d] exI [of _ r'] exI [of _ vs]) (auto simp: r'_def vs_def)
  next
    case False
    then show ?thesis using run d ty len
      by (intro exI [of _ d] exI [of _ r'] exI [of _ vs]) (auto simp: r'_def vs_def)
  qed
qed

text \<open>Rolling back fails the run; it is a safe stop when there is nothing to revert to, or git fails.\<close>

definition cannot_revert :: "'w env \<Rightarrow> GraphState \<Rightarrow> 'w \<Rightarrow> bool" where
  "cannot_revert e s w \<longleftrightarrow> is_falsy (co_commit_sha_before (coder_output s)) \<or>
     \<not> is_ok (fst (git_revert_to (e_git e) (get_or [] (co_commit_sha_before (coder_output s))) w))"

lemma rollback_effect [node_effects]:
  assumes "rollback_node e i s w = (Update us, w')"
  shows "\<exists>t evs. let c = WRollbackCount (rollback_count s + 1); f = WFinishedAt (Some t) in
     if cannot_revert e s w
     then us = [c, WSafeStop True, WRunStatus Failed, f, WEvents evs] \<or>
          us = [c, WSafeStop True, WRunStatus Failed, WEvents evs, f]
     else us = [c, WRunStatus Failed, WEvents evs, f]"
proof -
  define sha where "sha = get_or [] (co_commit_sha_before (coder_output s))"
  show ?thesis
  proof (cases "is_falsy (co_commit_sha_before (coder_output s))")
    case True
    then show ?thesis using assms by (auto simp: rollback_node_def Let_def cannot_revert_def)
  next
    case False
    then show ?thesis using assms
      by (cases "git_revert_to (e_git e) sha w")
        (auto simp: rollback_node_def Let_def cannot_revert_def sha_def split: sum.splits if_splits)
  qed
qed

end
