(* ===== verification/SdlcGraph.thy ===== *)
theory SdlcGraph
  imports NodeFacts "HOL-Library.Multiset"
begin

text \<open>
  \<open>agentic_control_plane/graph.py\<close>: the graph the nodes are assembled into. LangGraph runs
  it in supersteps, and that documented contract is all this theory uses of it: the nodes
  of the frontier run on the same state, in any order; their writes go through the
  channels' reducers once all have returned; the edges out of them give the next frontier,
  each node at most once; a node that interrupts or raises leaves the state as it was, to
  be run again. The nodes, the routers and the edges are the source's.
\<close>

section \<open>Nodes, routers, edges\<close>

datatype sdlc_node =
    NClarifier | NReasoner | NDesign | NPlanner | NReplanner | NCoder | NTest | NDocs | NSync
  | NRelease | NRollback

definition route_after_clarifier :: "GraphState \<Rightarrow> sdlc_node" where
  "route_after_clarifier s = (if scenario_type s = Greenfield then NDesign else NReasoner)"

definition route_after_planner :: "GraphState \<Rightarrow> sdlc_node" where
  "route_after_planner s =
     (if scenario_type s = Ambiguous \<and> replanning_triggered s \<and> gates s ReplanningApproval = None
      then NReplanner else NCoder)"

definition route_after_coder :: "GraphState \<Rightarrow> sdlc_node list" where
  "route_after_coder s = (if safe_stop s then [] else [NTest, NDocs])"

definition route_after_sync :: "GraphState \<Rightarrow> sdlc_node" where
  "route_after_sync s =
     (if route_hint s = Retry \<or> route_hint s = FallbackAttempt then NCoder
      else if route_hint s = HintRollback then NRollback else NRelease)"

definition route_after_release_gate :: "GraphState \<Rightarrow> sdlc_node list" where
  "route_after_release_gate s =
     (case gates s MergeReleaseApproval of
        Some g \<Rightarrow> if gr_status g = Approved then [] else [NRollback]
      | None \<Rightarrow> [NRollback])"

fun successors :: "sdlc_node \<Rightarrow> GraphState \<Rightarrow> sdlc_node list" where
  "successors NClarifier s = [route_after_clarifier s]"
| "successors NReasoner s = [NDesign]"
| "successors NDesign s = [NPlanner]"
| "successors NPlanner s = [route_after_planner s]"
| "successors NReplanner s = [NPlanner]"
| "successors NCoder s = route_after_coder s"
| "successors NTest s = [NSync]"
| "successors NDocs s = [NSync]"
| "successors NSync s = [route_after_sync s]"
| "successors NRelease s = route_after_release_gate s"
| "successors NRollback s = []"

record 'w node_in =
  ni_inputs :: inputs
  ni_coder :: "'w coder_in"

fun run_node :: "'w env \<Rightarrow> 'w node_in \<Rightarrow> sdlc_node \<Rightarrow> GraphState \<Rightarrow> 'w \<Rightarrow> updates node_result \<times> 'w" where
  "run_node e x NClarifier s w = (requirement_clarifier (ni_inputs x) s, w)"
| "run_node e x NReasoner s w = (codebase_reasoner e (ni_inputs x) s, w)"
| "run_node e x NDesign s w = (architecture_design_node (ni_inputs x) s, w)"
| "run_node e x NPlanner s w = (decomposer_planner (ni_inputs x) s, w)"
| "run_node e x NReplanner s w = (replanner (ni_inputs x) s, w)"
| "run_node e x NCoder s w = coder_node e (ni_inputs x) (ni_coder x) s w"
| "run_node e x NTest s w = (test_executor (ni_inputs x) s, w)"
| "run_node e x NDocs s w = documentation_node e (ni_inputs x) s w"
| "run_node e x NSync s w = (sync_node s, w)"
| "run_node e x NRelease s w = release_gate e (ni_inputs x) s w"
| "run_node e x NRollback s w = rollback_node e (ni_inputs x) s w"

section \<open>Supersteps\<close>

record 'w config =
  cf_state :: GraphState
  cf_frontier :: "sdlc_node list"
  cf_world :: 'w

datatype 'w outcome = Advanced "'w config" | Paused gate_payload 'w | Crashed node_error 'w

text \<open>The frontier's nodes on one state; the first interrupt or raise ends the superstep.\<close>

fun run_frontier ::
  "'w env \<Rightarrow> (sdlc_node \<Rightarrow> 'w node_in) \<Rightarrow> GraphState \<Rightarrow> sdlc_node list \<Rightarrow> 'w \<Rightarrow>
   (gate_payload + node_error, updates list) result \<times> 'w" where
  "run_frontier e x s [] w = (Inr [], w)"
| "run_frontier e x s (n # ns) w =
     (case run_node e (x n) n s w of
        (Interrupt p, w1) \<Rightarrow> (Inl (Inl p), w1)
      | (Raise r, w1) \<Rightarrow> (Inl (Inr r), w1)
      | (Update us, w1) \<Rightarrow>
          (case run_frontier e x s ns w1 of
             (Inl q, w2) \<Rightarrow> (Inl q, w2)
           | (Inr uss, w2) \<Rightarrow> (Inr (us # uss), w2)))"

definition superstep :: "'w env \<Rightarrow> (sdlc_node \<Rightarrow> 'w node_in) \<Rightarrow> 'w config \<Rightarrow> 'w outcome" where
  "superstep e x c =
     (case run_frontier e x (cf_state c) (cf_frontier c) (cf_world c) of
        (Inl (Inl p), w) \<Rightarrow> Paused p w
      | (Inl (Inr r), w) \<Rightarrow> Crashed r w
      | (Inr uss, w) \<Rightarrow>
          (let s = apply_writes (concat uss) (cf_state c) in
           Advanced \<lparr>cf_state = s,
             cf_frontier = remdups (concat (map (\<lambda>n. successors n s) (cf_frontier c))), cf_world = w\<rparr>))"

definition initial_config :: "GraphState \<Rightarrow> 'w \<Rightarrow> 'w config" where
  "initial_config s w = \<lparr>cf_state = s, cf_frontier = [NClarifier], cf_world = w\<rparr>"

text \<open>
  One step of a run: the frontier in some order, with whatever the outside world answers.
  A pause or a crash leaves state and frontier in place; the world may have moved.
\<close>

inductive sdlc_step :: "'w env \<Rightarrow> 'w config \<Rightarrow> 'w config \<Rightarrow> bool" for e :: "'w env" where
  advance: "mset ns = mset (cf_frontier (c :: 'w config)) \<Longrightarrow> cf_frontier c \<noteq> [] \<Longrightarrow>
     superstep e x (c\<lparr>cf_frontier := ns\<rparr>) = Advanced c' \<Longrightarrow> sdlc_step e c c'"
| pause: "mset ns = mset (cf_frontier (c :: 'w config)) \<Longrightarrow> cf_frontier c \<noteq> [] \<Longrightarrow>
     superstep e x (c\<lparr>cf_frontier := ns\<rparr>) = Paused p w \<Longrightarrow> sdlc_step e c (c\<lparr>cf_world := w\<rparr>)"
| crash: "mset ns = mset (cf_frontier (c :: 'w config)) \<Longrightarrow> cf_frontier c \<noteq> [] \<Longrightarrow>
     superstep e x (c\<lparr>cf_frontier := ns\<rparr>) = Crashed r w \<Longrightarrow> sdlc_step e c (c\<lparr>cf_world := w\<rparr>)"

inductive reachable :: "'w env \<Rightarrow> 'w config \<Rightarrow> 'w config \<Rightarrow> bool" for e :: "'w env" and c0 :: "'w config" where
  start: "reachable e c0 c0"
| next_step: "reachable e c0 c \<Longrightarrow> sdlc_step e c c' \<Longrightarrow> reachable e c0 c'"

section \<open>The control flow as a relation on states and frontiers\<close>

text \<open>
  What a superstep may do to the state and the frontier, whatever the world answers: the
  governance chain without the processes behind it.
\<close>

definition parallel_stage :: "sdlc_node list \<Rightarrow> bool" where
  "parallel_stage F \<longleftrightarrow> F = [NTest, NDocs] \<or> F = [NDocs, NTest]"

inductive move :: "GraphState \<Rightarrow> sdlc_node list \<Rightarrow> GraphState \<Rightarrow> sdlc_node list \<Rightarrow> bool" where
  clarify: "gate_set ClarificationApproval (scenario_type s = Greenfield) s m \<Longrightarrow>
     s' = apply_writes [WRequirementClarified c, WAmbiguities a, WGates m, WEvents evs] s \<Longrightarrow>
     move s [NClarifier] s' [route_after_clarifier s]"
| reason: "gate_set CodebaseImpactReview (scenario_type s = Brownfield) s m \<Longrightarrow>
     ws = [] \<or> scenario_type s = Ambiguous \<and> (\<exists>r. r \<noteq> [] \<and> ws = [WReplanningTriggered True, WReplanningReason r]) \<Longrightarrow>
     s' = apply_writes ([WCodebaseImpact ci, WGates m] @ ws @ [WEvents evs]) s \<Longrightarrow>
     move s [NReasoner] s' [NDesign]"
| design: "s' = apply_writes [WArchitectureDesign d, WEvents evs] s \<Longrightarrow> move s [NDesign] s' [NPlanner]"
| plan: "gate_set PlanApproval (scenario_type s = Greenfield) s m \<Longrightarrow>
     s' = apply_writes [WTasks ts, WGates m, WEvents evs] s \<Longrightarrow> move s [NPlanner] s' [route_after_planner s']"
| replan: "gate_set ReplanningApproval True s m \<Longrightarrow> s' = apply_writes [WGates m, WEvents evs] s \<Longrightarrow>
     move s [NReplanner] s' [NPlanner]"
| generate: "s' = apply_writes [WCoder co, WCoderAttempts [co], WEvents evs] s \<Longrightarrow>
     co_attempt_number co = retry_count s + 1 \<Longrightarrow> move s [NCoder] s' (route_after_coder s)"
| stop: "s' = apply_writes [WSafeStop True, WRunStatus Failed, WFinishedAt (Some t), WCoder co, WEvents evs] s \<Longrightarrow>
     move s [NCoder] s' []"
| check: "parallel_stage F \<Longrightarrow> retry_move s (tr_passed tr) ws \<Longrightarrow>
     tr_attempt_number tr = co_attempt_number (coder_output s) \<Longrightarrow>
     s' = apply_writes (WTest tr # ws @ [WDocumentation d, WEvents evs]) s \<Longrightarrow> move s F s' [NSync]"
| join: "move s [NSync] s [route_after_sync s]"
| release: "gr_decision_payload r = Some d \<Longrightarrow> gr_status r = Approved \<Longrightarrow> approved_by d vs \<Longrightarrow>
     length vs = length (evaluate_guardrails (co_code_files (coder_output s))) \<Longrightarrow>
     s' = apply_writes [WGates ((gates s)(MergeReleaseApproval \<mapsto> r)), WGuardrailViolations vs, WRunStatus Completed,
       WFinishedAt (Some t), WCommitShaAfter (Some sha), WEvents evs] s \<Longrightarrow> move s [NRelease] s' []"
| refuse: "gr_status r \<noteq> Approved \<Longrightarrow>
     s' = apply_writes [WGates ((gates s)(MergeReleaseApproval \<mapsto> r)), WGuardrailViolations vs, WEvents evs] s \<Longrightarrow>
     move s [NRelease] s' [NRollback]"
| rollback: "ws = [] \<or> ws = [WSafeStop True] \<Longrightarrow>
     s' = apply_writes (WRollbackCount (rollback_count s + 1) # ws @ [WRunStatus Failed, WFinishedAt (Some t), WEvents evs]) s \<Longrightarrow>
     move s [NRollback] s' []"

definition proper_frontier :: "sdlc_node list \<Rightarrow> bool" where
  "proper_frontier F \<longleftrightarrow> F = [] \<or> (\<exists>n. F = [n] \<and> n \<noteq> NTest \<and> n \<noteq> NDocs) \<or> parallel_stage F"

lemma superstep_single:
  assumes "superstep e x c = Advanced c'" "cf_frontier c = [n]"
  shows "\<exists>us. run_node e (x n) n (cf_state c) (cf_world c) = (Update us, cf_world c') \<and>
     cf_state c' = apply_writes us (cf_state c) \<and> cf_frontier c' = remdups (successors n (cf_state c'))"
  using assms
  by (auto simp: superstep_def Let_def split: prod.splits sum.splits node_result.splits)

lemma superstep_pair:
  assumes "superstep e x c = Advanced c'" "cf_frontier c = [a, b]"
  shows "\<exists>us vs w. run_node e (x a) a (cf_state c) (cf_world c) = (Update us, w) \<and>
     run_node e (x b) b (cf_state c) w = (Update vs, cf_world c') \<and>
     cf_state c' = apply_writes (us @ vs) (cf_state c) \<and>
     cf_frontier c' = remdups (successors a (cf_state c') @ successors b (cf_state c'))"
  using assms
  by (auto simp: superstep_def Let_def split: prod.splits sum.splits node_result.splits)

lemma sync_only: "sync_node s = Update us \<Longrightarrow> us = []"
  by (simp add: sync_node_def)

lemma parallel_writes:
  assumes "retry_move s p ws"
  shows "apply_writes ((WTest tr # ws @ [WEvents e1]) @ [WDocumentation d, WEvents e2]) s =
           apply_writes (WTest tr # ws @ [WDocumentation d, WEvents (e1 @ e2)]) s"
    and "apply_writes ([WDocumentation d, WEvents e2] @ WTest tr # ws @ [WEvents e1]) s =
           apply_writes (WTest tr # ws @ [WDocumentation d, WEvents (e2 @ e1)]) s"
  using assms by (auto simp: retry_move_def)

text \<open>Every superstep of a proper frontier is a move, and leads to a proper frontier.\<close>

lemma parallel_stage_mset:
  "parallel_stage F \<Longrightarrow> mset ns = mset F \<Longrightarrow> parallel_stage ns"
proof -
  assume F: "parallel_stage F" "mset ns = mset F"
  then have "length ns = 2" "set ns = {NTest, NDocs}"
    by (auto simp: parallel_stage_def dest: mset_eq_length mset_eq_setD)
  moreover from this obtain a b where "ns = [a, b]"
    by (auto simp: numeral_2_eq_2 length_Suc_conv)
  ultimately show ?thesis by (simp add: parallel_stage_def) (auto simp: doubleton_eq_iff)
qed

lemma superstep_move_single:
  assumes adv: "superstep e x c = Advanced c'" and F: "cf_frontier c = [n]" "n \<noteq> NTest" "n \<noteq> NDocs"
  shows "move (cf_state c) [n] (cf_state c') (cf_frontier c')"
proof -
  from superstep_single [OF adv F(1)] obtain us where
    run: "run_node e (x n) n (cf_state c) (cf_world c) = (Update us, cf_world c')"
    and s': "cf_state c' = apply_writes us (cf_state c)"
    and F': "cf_frontier c' = remdups (successors n (cf_state c'))" by blast
  show ?thesis
  proof (cases n)
    case NClarifier
    with run have "requirement_clarifier (ni_inputs (x n)) (cf_state c) = Update us" by simp
    from requirement_clarifier_effect [OF this] obtain r a m evs where
      us: "us = [WRequirementClarified r, WAmbiguities a, WGates m, WEvents evs]" and
      g: "gate_set ClarificationApproval (scenario_type (cf_state c) = Greenfield) (cf_state c) m" by blast
    have "scenario_type (cf_state c') = scenario_type (cf_state c)" by (simp add: s' us)
    then have "cf_frontier c' = [route_after_clarifier (cf_state c)]"
      using F' NClarifier by (simp add: route_after_clarifier_def)
    with move.clarify [OF g s' [unfolded us]] NClarifier show ?thesis by simp
  next
    case NReasoner
    with run have "codebase_reasoner e (ni_inputs (x n)) (cf_state c) = Update us" by simp
    from codebase_reasoner_effect [OF this] obtain ci m ws evs where
      us: "us = [WCodebaseImpact ci, WGates m] @ ws @ [WEvents evs]" and
      g: "gate_set CodebaseImpactReview (scenario_type (cf_state c) = Brownfield) (cf_state c) m" and
      ws: "ws = [] \<or> scenario_type (cf_state c) = Ambiguous \<and>
        (\<exists>r. r \<noteq> [] \<and> ws = [WReplanningTriggered True, WReplanningReason r])" by blast
    have "cf_frontier c' = [NDesign]" using F' NReasoner by simp
    with move.reason [OF g ws s' [unfolded us]] NReasoner show ?thesis by simp
  next
    case NDesign
    with run have "architecture_design_node (ni_inputs (x n)) (cf_state c) = Update us" by simp
    from architecture_design_effect [OF this] s' F' NDesign show ?thesis by (auto intro: move.design)
  next
    case NPlanner
    with run have "decomposer_planner (ni_inputs (x n)) (cf_state c) = Update us" by simp
    from decomposer_planner_effect [OF this] s' F' NPlanner show ?thesis by (auto intro: move.plan)
  next
    case NReplanner
    with run have "replanner (ni_inputs (x n)) (cf_state c) = Update us" by simp
    from replanner_effect [OF this] s' F' NReplanner show ?thesis by (auto intro: move.replan)
  next
    case NCoder
    with run have r: "coder_node e (ni_inputs (x n)) (ni_coder (x n)) (cf_state c) (cf_world c) = (Update us, cf_world c')"
      by simp
    from coder_effect [OF r] show ?thesis
    proof (elim disjE exE conjE)
      fix co evs assume us: "us = [WCoder co, WCoderAttempts [co], WEvents evs]"
        and n: "co_attempt_number co = retry_count (cf_state c) + 1"
      have "cf_frontier c' = route_after_coder (cf_state c)"
        using F' NCoder by (simp add: s' us route_after_coder_def)
      with move.generate [OF s' [unfolded us] n] NCoder show ?thesis by simp
    next
      fix co evs t assume us: "us = [WSafeStop True, WRunStatus Failed, WFinishedAt (Some t), WCoder co, WEvents evs]"
      have "cf_frontier c' = []" using F' NCoder by (simp add: s' us route_after_coder_def)
      with move.stop [OF s' [unfolded us]] NCoder show ?thesis by simp
    qed
  next
    case NSync
    with run have "us = []" by (auto dest: sync_only)
    with s' F' NSync move.join [of "cf_state c"] show ?thesis by simp
  next
    case NRelease
    with run have r: "release_gate e (ni_inputs (x n)) (cf_state c) (cf_world c) = (Update us, cf_world c')" by simp
    from release_gate_effect [OF r] obtain d g vs evs where
      g: "gr_decision_payload g = Some d" "gr_status g = Approved \<longrightarrow> approved_by d vs"
      "length vs = length (evaluate_guardrails (co_code_files (coder_output (cf_state c))))"
      and us: "if gr_status g = Approved
        then \<exists>t sha. us = [WGates ((gates (cf_state c))(MergeReleaseApproval \<mapsto> g)), WGuardrailViolations vs,
           WRunStatus Completed, WFinishedAt (Some t), WCommitShaAfter (Some sha), WEvents evs]
        else us = [WGates ((gates (cf_state c))(MergeReleaseApproval \<mapsto> g)), WGuardrailViolations vs, WEvents evs]"
      by (metis (no_types, lifting))
    show ?thesis
    proof (cases "gr_status g = Approved")
      case True
      with us obtain t sha where us: "us = [WGates ((gates (cf_state c))(MergeReleaseApproval \<mapsto> g)),
         WGuardrailViolations vs, WRunStatus Completed, WFinishedAt (Some t), WCommitShaAfter (Some sha), WEvents evs]"
        by auto
      have "cf_frontier c' = []" using F' NRelease True by (simp add: s' us route_after_release_gate_def)
      with move.release [OF g(1) True _ g(3) s' [unfolded us]] g(2) True NRelease show ?thesis by simp
    next
      case False
      with us have us: "us = [WGates ((gates (cf_state c))(MergeReleaseApproval \<mapsto> g)), WGuardrailViolations vs, WEvents evs]"
        by simp
      have "cf_frontier c' = [NRollback]" using F' NRelease False by (simp add: s' us route_after_release_gate_def)
      with move.refuse [OF False s' [unfolded us]] NRelease show ?thesis by simp
    qed
  next
    case NRollback
    with run have "rollback_node e (ni_inputs (x n)) (cf_state c) (cf_world c) = (Update us, cf_world c')" by simp
    note eff = rollback_effect [OF this]
    define k where "k = WRollbackCount (rollback_count (cf_state c) + 1)"
    from eff obtain t evs where
      "us \<in> {[k, WSafeStop True, WRunStatus Failed, WFinishedAt (Some t), WEvents evs],
         [k, WSafeStop True, WRunStatus Failed, WEvents evs, WFinishedAt (Some t)],
         [k, WRunStatus Failed, WEvents evs, WFinishedAt (Some t)]}"
      unfolding Let_def k_def by (cases "cannot_revert e (cf_state c) (cf_world c)"; simp; blast)
    then have "cf_state c' = apply_writes (k # [WSafeStop True] @ [WRunStatus Failed, WFinishedAt (Some t), WEvents evs]) (cf_state c)
      \<or> cf_state c' = apply_writes (k # [] @ [WRunStatus Failed, WFinishedAt (Some t), WEvents evs]) (cf_state c)"
      unfolding s' by auto
    moreover have "cf_frontier c' = []" using F' NRollback by simp
    ultimately show ?thesis
      using move.rollback [of "[WSafeStop True]" "cf_state c'" "cf_state c" t evs]
        move.rollback [of "[]" "cf_state c'" "cf_state c" t evs] NRollback
      unfolding k_def by auto
  qed (use F in simp_all)
qed

lemma superstep_move_pair:
  assumes adv: "superstep e x c = Advanced c'" and F: "parallel_stage (cf_frontier c)"
  shows "move (cf_state c) (cf_frontier c) (cf_state c') (cf_frontier c')"
proof -
  consider "cf_frontier c = [NTest, NDocs]" | "cf_frontier c = [NDocs, NTest]"
    using F by (auto simp: parallel_stage_def)
  then obtain tr d ws evs where "retry_move (cf_state c) (tr_passed tr) ws"
      "tr_attempt_number tr = co_attempt_number (coder_output (cf_state c))"
      "cf_state c' = apply_writes (WTest tr # ws @ [WDocumentation d, WEvents evs]) (cf_state c)"
      "cf_frontier c' = [NSync]"
  proof cases
    case 1
    from superstep_pair [OF adv 1] obtain us vs w where
      us: "test_executor (ni_inputs (x NTest)) (cf_state c) = Update us" and
      vs: "documentation_node e (ni_inputs (x NDocs)) (cf_state c) w = (Update vs, cf_world c')" and
      s': "cf_state c' = apply_writes (us @ vs) (cf_state c)" "cf_frontier c' = [NSync]" by auto
    from test_executor_effect [OF us] documentation_effect [OF vs] s' that parallel_writes(1)
    show ?thesis by metis
  next
    case 2
    from superstep_pair [OF adv 2] obtain us vs w where
      us: "test_executor (ni_inputs (x NTest)) (cf_state c) = Update us" and
      vs: "documentation_node e (ni_inputs (x NDocs)) (cf_state c) (cf_world c) = (Update vs, w)" and
      s': "cf_state c' = apply_writes (vs @ us) (cf_state c)" "cf_frontier c' = [NSync]" by auto
    from test_executor_effect [OF us] documentation_effect [OF vs] s' that parallel_writes(2)
    show ?thesis by metis
  qed
  with move.check [OF F] show ?thesis by simp
qed

lemma proper_frontier_mset:
  assumes "proper_frontier F" "mset ns = mset F" "F \<noteq> []"
  shows "(\<exists>n. F = [n] \<and> ns = [n] \<and> n \<noteq> NTest \<and> n \<noteq> NDocs) \<or> parallel_stage F \<and> parallel_stage ns"
  using assms parallel_stage_mset [of F ns] by (auto simp: proper_frontier_def)

lemma move_parallel_perm:
  "move s ns s' F' \<Longrightarrow> parallel_stage ns \<Longrightarrow> parallel_stage F \<Longrightarrow> move s F s' F'"
  by (erule move.cases) (auto intro: move.check simp: parallel_stage_def)

lemma sdlc_step_move:
  assumes "sdlc_step e c c'" "proper_frontier (cf_frontier c)"
  shows "move (cf_state c) (cf_frontier c) (cf_state c') (cf_frontier c')
    \<or> cf_state c' = cf_state c \<and> cf_frontier c' = cf_frontier c"
  using assms(1)
proof cases
  case (advance ns x)
  let ?c = "c\<lparr>cf_frontier := ns\<rparr>"
  from proper_frontier_mset [OF assms(2) advance(1,2)] show ?thesis
  proof (elim disjE exE conjE)
    fix n assume "cf_frontier c = [n]" "ns = [n]" "n \<noteq> NTest" "n \<noteq> NDocs"
    with superstep_move_single [OF advance(3)] show ?thesis by simp
  next
    assume "parallel_stage (cf_frontier c)" "parallel_stage ns"
    with superstep_move_pair [OF advance(3)] move_parallel_perm show ?thesis by simp
  qed
qed simp_all

lemma move_proper: "move s F s' F' \<Longrightarrow> proper_frontier F'"
  by (erule move.cases)
    (auto simp: proper_frontier_def parallel_stage_def route_after_clarifier_def route_after_planner_def
       route_after_coder_def route_after_sync_def)

lemma initial_proper: "proper_frontier (cf_frontier (initial_config s w))"
  by (simp add: initial_config_def proper_frontier_def)

text \<open>
  The principle all the invariants below go by: what holds of the initial state and is kept
  by every move holds of every configuration a run can reach.
\<close>

lemma reachable_invariant:
  assumes "reachable e (initial_config s0 w0) c"
    and "P s0 [NClarifier]"
    and "\<And>s F s' F'. P s F \<Longrightarrow> proper_frontier F \<Longrightarrow> move s F s' F' \<Longrightarrow> P s' F'"
  shows "P (cf_state c) (cf_frontier c) \<and> proper_frontier (cf_frontier c)"
  using assms(1)
proof (induction rule: reachable.induct)
  case start
  then show ?case using assms(2) initial_proper by (simp add: initial_config_def proper_frontier_def)
next
  case (next_step c c')
  from sdlc_step_move [OF next_step(2)] next_step.IH assms(3) move_proper show ?case by metis
qed

end
