(* ===== verification/SdlcInvariants.thy ===== *)
theory SdlcInvariants
  imports SdlcGraph
begin

text \<open>
  Invariants of the SDLC graph, each kept by every move: the life of a run, what was tested
  before it is released, the retry budget, which gates a scenario passes, and the weight
  every superstep uses up. The driver at the end runs a graph to its end.
\<close>

section \<open>Life of a run\<close>

text \<open>
  A run with work left is running, uncommitted and not rolled back, and a recorded merge
  decision only waits for the rollback. A run with nothing left has finished: completed
  with a commit behind an approved merge gate, or failed without one.
\<close>

definition shipped :: "GraphState \<Rightarrow> bool" where
  "shipped s \<longleftrightarrow> commit_sha_after s \<noteq> None \<and> rollback_count s = 0 \<and> \<not> safe_stop s \<and>
     (\<exists>g d. gates s MergeReleaseApproval = Some g \<and> gr_status g = Approved \<and>
        gr_decision_payload g = Some d \<and> approved_by d (guardrail_violations s) \<and>
        length (guardrail_violations s) = length (evaluate_guardrails (co_code_files (coder_output s))))"

definition unapproved :: "GraphState \<Rightarrow> bool" where
  "unapproved s \<longleftrightarrow> (\<forall>g. gates s MergeReleaseApproval = Some g \<longrightarrow> gr_status g \<noteq> Approved)"

definition life_inv :: "GraphState \<Rightarrow> sdlc_node list \<Rightarrow> bool" where
  "life_inv s F \<longleftrightarrow>
     (if F = [] then finished_at s \<noteq> None \<and>
        (if run_status s = Completed then shipped s
         else run_status s = Failed \<and> commit_sha_after s = None \<and> unapproved s \<and>
           (rollback_count s = 1 \<or> rollback_count s = 0 \<and> safe_stop s))
      else run_status s = Running \<and> finished_at s = None \<and> commit_sha_after s = None \<and>
        rollback_count s = 0 \<and> \<not> safe_stop s \<and>
        (if F = [NRollback] then unapproved s else gates s MergeReleaseApproval = None))"

lemma life_inv_init: "life_inv (new_graph_state r sc q m t) [NClarifier]"
  by (simp add: life_inv_def new_graph_state_def)

lemma gate_set_other: "gate_set g b s m \<Longrightarrow> h \<noteq> g \<Longrightarrow> m h = gates s h"
  by (auto simp: gate_set_def split: if_splits)

lemma life_inv_move: "life_inv s F \<Longrightarrow> move s F s' F' \<Longrightarrow> life_inv s' F'"
proof -
  assume I: "life_inv s F" and "move s F s' F'"
  from this(2) show "life_inv s' F'"
  proof cases
    case (check tr ws d evs)
    then have "F \<noteq> []" "F \<noteq> [NRollback]" by (auto simp: parallel_stage_def)
    with I check show ?thesis by (auto simp: life_inv_def retry_move_def)
  qed (use I in \<open>auto simp: life_inv_def unapproved_def shipped_def gate_set_other
      route_after_clarifier_def route_after_planner_def route_after_coder_def route_after_sync_def\<close>)
qed

section \<open>What was tested\<close>

definition tested :: "GraphState \<Rightarrow> bool" where
  "tested s \<longleftrightarrow> tr_passed (test s) \<and> tr_attempt_number (test s) = co_attempt_number (coder_output s)"

definition test_inv :: "GraphState \<Rightarrow> sdlc_node list \<Rightarrow> bool" where
  "test_inv s F \<longleftrightarrow>
     (F = [NSync] \<longrightarrow> (route_hint s = Proceed \<longrightarrow> tested s) \<and> route_hint s \<noteq> NoHint) \<and>
     (F = [NRelease] \<longrightarrow> tested s) \<and> (F = [] \<longrightarrow> run_status s = Completed \<longrightarrow> tested s)"

lemma test_inv_move: "test_inv s F \<Longrightarrow> life_inv s F \<Longrightarrow> move s F s' F' \<Longrightarrow> test_inv s' F'"
proof -
  assume I: "test_inv s F" "life_inv s F" and "move s F s' F'"
  from this(3) show "test_inv s' F'"
  proof cases
    case (join)
    then show ?thesis using I
      by (cases "route_hint s") (auto simp: test_inv_def route_after_sync_def)
  qed (use I in \<open>auto simp: test_inv_def tested_def retry_move_def life_inv_def
      route_after_clarifier_def route_after_planner_def route_after_coder_def\<close>)
qed

section \<open>The retry budget\<close>

text \<open>Generations left: the retries not yet used, and the fallback.\<close>

definition budget :: "GraphState \<Rightarrow> nat" where
  "budget s = nat (retry_limit s - retry_count s) + (if fallback_triggered s then 0 else 1)"

definition retrying :: "GraphState \<Rightarrow> bool" where
  "retrying s \<longleftrightarrow> route_hint s = Retry \<or> route_hint s = FallbackAttempt"

definition generated_in :: "sdlc_node list \<Rightarrow> GraphState \<Rightarrow> nat" where
  "generated_in F s =
     (if parallel_stage F \<or> F = [NRelease] \<or> F = [NRollback] \<or> F = [] \<or> F = [NSync] \<and> \<not> retrying s then 1 else 0)"

definition retry_inv :: "int \<Rightarrow> GraphState \<Rightarrow> sdlc_node list \<Rightarrow> bool" where
  "retry_inv limit s F \<longleftrightarrow> retry_limit s = limit \<and> 0 \<le> retry_count s \<and> retry_count s \<le> limit \<and>
     length (coder_attempts s) + budget s \<le> nat limit + 1 + generated_in F s"

lemma retry_inv_move:
  "retry_inv limit s F \<Longrightarrow> move s F s' F' \<Longrightarrow> retry_inv limit s' F'"
proof -
  assume I: "retry_inv limit s F" and "move s F s' F'"
  from this(2) show "retry_inv limit s' F'"
  proof cases
    case (check tr ws d evs)
    from check(2) have "generated_in F s = 1" by (simp add: generated_in_def)
    with I check show ?thesis
      by (auto simp: retry_inv_def budget_def generated_in_def retrying_def retry_move_def parallel_stage_def)
  qed (use I in \<open>auto simp: retry_inv_def budget_def generated_in_def retrying_def parallel_stage_def
      route_after_clarifier_def route_after_planner_def route_after_coder_def route_after_sync_def\<close>)
qed

section \<open>Where the gates are\<close>

definition gates_allowed :: "GraphState \<Rightarrow> bool" where
  "gates_allowed s \<longleftrightarrow>
     (gates s ClarificationApproval \<noteq> None \<or> gates s PlanApproval \<noteq> None \<longrightarrow> scenario_type s = Greenfield) \<and>
     (gates s CodebaseImpactReview \<noteq> None \<longrightarrow> scenario_type s = Brownfield) \<and>
     (gates s ReplanningApproval \<noteq> None \<longrightarrow> scenario_type s = Ambiguous \<and> replanning_triggered s) \<and>
     gates s SpecialistDesignReview = None"

definition past_planning :: "sdlc_node list \<Rightarrow> bool" where
  "past_planning F \<longleftrightarrow> F \<noteq> [NClarifier] \<and> F \<noteq> [NReasoner] \<and> F \<noteq> [NDesign] \<and> F \<noteq> [NPlanner] \<and> F \<noteq> [NReplanner]"

definition gates_inv :: "ScenarioType \<Rightarrow> GraphState \<Rightarrow> sdlc_node list \<Rightarrow> bool" where
  "gates_inv sc s F \<longleftrightarrow> scenario_type s = sc \<and> gates_allowed s \<and>
     (F \<noteq> [NClarifier] \<longrightarrow> sc = Greenfield \<longrightarrow> gates s ClarificationApproval \<noteq> None) \<and>
     (F = [NReasoner] \<longrightarrow> sc \<noteq> Greenfield) \<and>
     (F \<noteq> [NClarifier] \<and> F \<noteq> [NReasoner] \<longrightarrow> sc = Brownfield \<longrightarrow> gates s CodebaseImpactReview \<noteq> None) \<and>
     (F = [NReplanner] \<longrightarrow> sc = Ambiguous \<and> replanning_triggered s) \<and>
     (past_planning F \<longrightarrow> sc = Greenfield \<longrightarrow> gates s PlanApproval \<noteq> None) \<and>
     (past_planning F \<longrightarrow> sc = Ambiguous \<longrightarrow> replanning_triggered s \<longrightarrow> gates s ReplanningApproval \<noteq> None)"

lemma gate_set_dom:
  "gate_set g b s m \<Longrightarrow> m h \<noteq> None \<longleftrightarrow> gates s h \<noteq> None \<or> b \<and> h = g"
  by (auto simp: gate_set_def split: if_splits)

text \<open>What a move adds to the decided gates, and what it leaves alone.\<close>

definition added_gates :: "GraphState \<Rightarrow> sdlc_node list \<Rightarrow> GateType set" where
  "added_gates s F =
     (if F = [NClarifier] \<and> scenario_type s = Greenfield then {ClarificationApproval}
      else if F = [NReasoner] \<and> scenario_type s = Brownfield then {CodebaseImpactReview}
      else if F = [NPlanner] \<and> scenario_type s = Greenfield then {PlanApproval}
      else if F = [NReplanner] then {ReplanningApproval}
      else if F = [NRelease] then {MergeReleaseApproval} else {})"

lemma move_gates:
  assumes "move s F s' F'"
  shows "scenario_type s' = scenario_type s \<and>
     (gates s' h \<noteq> None \<longleftrightarrow> gates s h \<noteq> None \<or> h \<in> added_gates s F)"
  using assms
proof cases
  case (clarify m c a evs)
  show ?thesis using gate_set_dom [OF clarify(3), of h] by (simp add: clarify added_gates_def)
next
  case (reason m ws ci evs)
  have "gates s' h = m h \<and> scenario_type s' = scenario_type s" using reason by auto
  then show ?thesis using gate_set_dom [OF reason(3), of h] by (simp add: reason(1) added_gates_def)
next
  case (plan m ts evs)
  show ?thesis using gate_set_dom [OF plan(3), of h] by (simp add: plan added_gates_def)
next
  case (replan m evs)
  show ?thesis using gate_set_dom [OF replan(3), of h] by (simp add: replan added_gates_def)
next
  case (check tr ws d evs)
  have "gates s' h = gates s h \<and> scenario_type s' = scenario_type s"
    using check(3,5) by (auto simp: retry_move_def)
  then show ?thesis using check(2) by (auto simp: added_gates_def parallel_stage_def)
next
  case (rollback ws t evs)
  then show ?thesis by (auto simp: added_gates_def)
qed (simp_all add: added_gates_def)

lemma move_replanning:
  "move s F s' F' \<Longrightarrow> replanning_triggered s' = replanning_triggered s \<or>
     F = [NReasoner] \<and> scenario_type s = Ambiguous \<and> replanning_triggered s'"
  by (erule move.cases) (auto simp: retry_move_def)

lemma move_frontier:
  "move s F s' F' \<Longrightarrow>
     F = [NClarifier] \<and> F' = [if scenario_type s = Greenfield then NDesign else NReasoner]
     \<or> F = [NReasoner] \<and> F' = [NDesign] \<or> F = [NDesign] \<and> F' = [NPlanner]
     \<or> F = [NPlanner] \<and> F' = [route_after_planner s'] \<or> F = [NReplanner] \<and> F' = [NPlanner]
     \<or> past_planning F \<and> (past_planning F')"
  by (erule move.cases) (auto simp: route_after_clarifier_def past_planning_def parallel_stage_def
    route_after_coder_def route_after_sync_def)

lemma gates_allowed_move:
  assumes "move s F s' F'" "gates_inv sc s F"
  shows "gates_allowed s'"
proof -
  have g: "gates s' h \<noteq> None \<longleftrightarrow> gates s h \<noteq> None \<or> h \<in> added_gates s F" for h
    using move_gates [OF assms(1)] by blast
  have sc: "scenario_type s' = sc" "scenario_type s = sc"
    using move_gates [OF assms(1)] assms(2) by (simp_all add: gates_inv_def)
  have sdr: "gates s' SpecialistDesignReview = None \<longleftrightarrow>
      gates s SpecialistDesignReview = None \<and> SpecialistDesignReview \<notin> added_gates s F" using g by blast
  have rt: "replanning_triggered s \<Longrightarrow> replanning_triggered s'" using move_replanning [OF assms(1)] by auto
  have rp: "F = [NReplanner] \<Longrightarrow> sc = Ambiguous \<and> replanning_triggered s"
    using assms(2) by (simp add: gates_inv_def)
  have old: "gates_allowed s" using assms(2) by (simp add: gates_inv_def)
  show ?thesis
  proof (cases "F = [NReplanner]")
    case True
    then have "added_gates s F = {ReplanningApproval}" by (simp add: added_gates_def)
    then show ?thesis using old rp [OF True] rt unfolding gates_allowed_def g sc sdr by simp
  next
    case False
    have "h \<in> added_gates s F \<Longrightarrow> h = ClarificationApproval \<and> sc = Greenfield \<or> h = CodebaseImpactReview \<and> sc = Brownfield
        \<or> h = PlanApproval \<and> sc = Greenfield \<or> h = MergeReleaseApproval" for h
      using False sc by (simp add: added_gates_def split: if_splits)
    then show ?thesis using old rt unfolding gates_allowed_def g sc sdr by auto
  qed
qed

lemma gates_inv_move:
  assumes I: "gates_inv sc s F" and mv: "move s F s' F'"
  shows "gates_inv sc s' F'"
proof -
  have g: "gates s' h \<noteq> None \<longleftrightarrow> gates s h \<noteq> None \<or> h \<in> added_gates s F" for h
    using move_gates [OF mv] by blast
  have sc: "scenario_type s' = sc" "scenario_type s = sc"
    using move_gates [OF mv] I by (simp_all add: gates_inv_def)
  have rt: "replanning_triggered s' = replanning_triggered s \<or> F = [NReasoner]"
    using move_replanning [OF mv] by auto
  show ?thesis unfolding gates_inv_def
  proof (intro conjI impI)
    show "scenario_type s' = sc" by (rule sc)
    show "gates_allowed s'" by (rule gates_allowed_move [OF mv I])
  next
    assume "F' \<noteq> [NClarifier]" "sc = Greenfield"
    then show "gates s' ClarificationApproval \<noteq> None"
      using I sc unfolding g by (auto simp: gates_inv_def added_gates_def)
  next
    assume "F' = [NReasoner]"
    then show "sc \<noteq> Greenfield" using move_frontier [OF mv] sc
      by (auto simp: past_planning_def route_after_planner_def split: if_splits)
  next
    assume F': "F' \<noteq> [NClarifier] \<and> F' \<noteq> [NReasoner]" "sc = Brownfield"
    then have "F = [NReasoner] \<or> F \<noteq> [NClarifier] \<and> F \<noteq> [NReasoner]"
      using move_frontier [OF mv] sc by (auto simp: past_planning_def)
    then show "gates s' CodebaseImpactReview \<noteq> None"
      using I sc F'(2) unfolding g by (auto simp: gates_inv_def added_gates_def)
  next
    assume "F' = [NReplanner]"
    then have "route_after_planner s' = NReplanner" using move_frontier [OF mv]
      by (auto simp: past_planning_def split: if_splits)
    then show "sc = Ambiguous" "replanning_triggered s'"
      using sc by (auto simp: route_after_planner_def split: if_splits)
  next
    assume F': "past_planning F'" "sc = Greenfield"
    then have "F = [NPlanner] \<or> past_planning F" using move_frontier [OF mv]
      by (auto simp: past_planning_def split: if_splits)
    then show "gates s' PlanApproval \<noteq> None"
      using I sc F'(2) unfolding g by (auto simp: gates_inv_def added_gates_def)
  next
    assume F': "past_planning F'" "sc = Ambiguous" "replanning_triggered s'"
    then consider "F = [NPlanner]" "route_after_planner s' = NCoder" | "past_planning F"
      using move_frontier [OF mv]
      by (auto simp: past_planning_def route_after_planner_def split: if_splits)
    then show "gates s' ReplanningApproval \<noteq> None"
    proof cases
      case 1
      then show ?thesis using F' sc by (auto simp: route_after_planner_def split: if_splits)
    next
      case 2
      then have "replanning_triggered s" using rt F'(3) by (auto simp: past_planning_def)
      then show ?thesis using I 2 F'(2) unfolding g by (simp add: gates_inv_def)
    qed
  qed
qed

section \<open>Progress\<close>

text \<open>
  What is left of a run: the stages still ahead on the longest way to the end. Every move
  uses some of it up.
\<close>

definition stage_weight :: "GraphState \<Rightarrow> sdlc_node \<Rightarrow> nat" where
  "stage_weight s n = (let b = 3 * budget s in
     case n of NClarifier \<Rightarrow> b + 11 | NReasoner \<Rightarrow> b + 10 | NDesign \<Rightarrow> b + 9
     | NPlanner \<Rightarrow> (if route_after_planner s = NReplanner then b + 8 else b + 6)
     | NReplanner \<Rightarrow> b + 7 | NCoder \<Rightarrow> b + 5 | NTest \<Rightarrow> b + 4 | NDocs \<Rightarrow> b + 4
     | NSync \<Rightarrow> (if retrying s then b + 6 else 3) | NRelease \<Rightarrow> 2 | NRollback \<Rightarrow> 1)"

definition weight :: "GraphState \<Rightarrow> sdlc_node list \<Rightarrow> nat" where
  "weight s F = (case F of [] \<Rightarrow> 0 | n # _ \<Rightarrow> stage_weight s n)"

lemma weight_simps [simp]: "weight s [] = 0" "weight s (n # F) = stage_weight s n"
  by (simp_all add: weight_def)

lemma budget_retry_move:
  "retry_move s p ws \<Longrightarrow> s' = apply_writes (WTest tr # ws @ [WDocumentation d, WEvents evs]) s \<Longrightarrow>
   retrying s' \<and> budget s = budget s' + 1 \<or> \<not> retrying s' \<and> budget s' = budget s"
  by (auto simp: retry_move_def retrying_def budget_def)

lemma move_weight:
  assumes "move s F s' F'"
  shows "weight s' F' < weight s F"
  using assms
proof cases
  case (check tr ws d evs)
  have "weight s F = 3 * budget s + 4" using check(2) by (auto simp: parallel_stage_def stage_weight_def)
  moreover have "weight s' F' \<le> (if retrying s' then 3 * budget s' + 6 else 3)"
    by (simp add: check(1) stage_weight_def)
  ultimately show ?thesis using budget_retry_move [OF check(3,5)] by auto
next
  case (reason m ws ci evs)
  then show ?thesis by (auto simp: stage_weight_def budget_def Let_def)
next
  case (plan m ts evs)
  have "m ReplanningApproval = gates s ReplanningApproval"
    using gate_set_other [OF plan(3), of ReplanningApproval] by simp
  then have "route_after_planner s' = route_after_planner s" using plan by (simp add: route_after_planner_def)
  then show ?thesis using plan by (simp add: stage_weight_def budget_def route_after_planner_def)
next
  case (replan m evs)
  then have "route_after_planner s' = NCoder" by (auto simp: route_after_planner_def gate_set_def)
  then show ?thesis using replan by (simp add: stage_weight_def budget_def)
qed (simp_all add: stage_weight_def budget_def Let_def route_after_clarifier_def route_after_planner_def
      route_after_coder_def route_after_sync_def retrying_def)

lemma advance_move:
  assumes "mset ns = mset (cf_frontier c)" "cf_frontier c \<noteq> []" "proper_frontier (cf_frontier c)"
    and "superstep e x (c\<lparr>cf_frontier := ns\<rparr>) = Advanced c'"
  shows "move (cf_state c) (cf_frontier c) (cf_state c') (cf_frontier c')"
  using proper_frontier_mset [OF assms(3,1,2)]
proof (elim disjE exE conjE)
  fix n assume "cf_frontier c = [n]" "ns = [n]" "n \<noteq> NTest" "n \<noteq> NDocs"
  with superstep_move_single [OF assms(4)] show ?thesis by simp
next
  assume "parallel_stage (cf_frontier c)" "parallel_stage ns"
  with superstep_move_pair [OF assms(4)] move_parallel_perm show ?thesis by simp
qed

text \<open>
  Driving a run: superstep after superstep, the answers of the outside world given per
  superstep, until the frontier is empty or the run pauses or crashes.
\<close>

datatype 'w driven = Done "'w config" | PausedAt gate_payload "'w config" | CrashedAt node_error "'w config" | OutOfFuel

fun drive :: "'w env \<Rightarrow> (nat \<Rightarrow> sdlc_node \<Rightarrow> 'w node_in) \<Rightarrow> nat \<Rightarrow> nat \<Rightarrow> 'w config \<Rightarrow> 'w driven" where
  "drive e xs k fuel c =
     (if cf_frontier c = [] then Done c
      else case fuel of
        0 \<Rightarrow> OutOfFuel
      | Suc fuel' \<Rightarrow>
          (case superstep e (xs k) c of
             Advanced c' \<Rightarrow> drive e xs (Suc k) fuel' c'
           | Paused p w \<Rightarrow> PausedAt p (c\<lparr>cf_world := w\<rparr>)
           | Crashed r w \<Rightarrow> CrashedAt r (c\<lparr>cf_world := w\<rparr>)))"

declare drive.simps [simp del]

lemma drive_enough:
  "proper_frontier (cf_frontier c) \<Longrightarrow> weight (cf_state c) (cf_frontier c) \<le> fuel \<Longrightarrow> drive e xs k fuel c \<noteq> OutOfFuel"
proof (induction fuel arbitrary: k c)
  case 0
  have "cf_frontier c = []"
    using 0 by (cases "cf_frontier c") (auto simp: stage_weight_def Let_def split: sdlc_node.splits if_splits)
  then show ?case by (simp add: drive.simps)
next
  case (Suc fuel)
  show ?case
  proof (cases "cf_frontier c = []")
    case True
    then show ?thesis by (simp add: drive.simps)
  next
    case False
    have "drive e xs (Suc k) fuel c' \<noteq> OutOfFuel" if "superstep e (xs k) c = Advanced c'" for c'
    proof -
      have mv: "move (cf_state c) (cf_frontier c) (cf_state c') (cf_frontier c')"
        using advance_move [of "cf_frontier c" c e "xs k" c'] False Suc.prems(1) that by simp
      from move_weight [OF mv] Suc.prems(2) Suc.IH [OF move_proper [OF mv]] show ?thesis by simp
    qed
    with False show ?thesis by (subst drive.simps) (auto split: outcome.splits)
  qed
qed

lemma drive_done: "drive e xs k fuel c = Done c' \<Longrightarrow> cf_frontier c' = []"
proof (induction fuel arbitrary: k c)
  case 0
  then show ?case by (auto simp: drive.simps split: if_splits)
next
  case (Suc fuel)
  from Suc.prems show ?case
    by (subst (asm) drive.simps) (auto split: if_splits outcome.splits dest: Suc.IH)
qed

lemma drive_reachable:
  "drive e xs k fuel c = Done c' \<or> drive e xs k fuel c = PausedAt p c' \<or> drive e xs k fuel c = CrashedAt r c' \<Longrightarrow>
   reachable e c0 c \<Longrightarrow> reachable e c0 c'"
proof (induction fuel arbitrary: k c)
  case 0
  then show ?case by (auto simp: drive.simps split: if_splits)
next
  case (Suc fuel)
  show ?case
  proof (cases "cf_frontier c = []")
    case True
    then show ?thesis using Suc.prems by (simp add: drive.simps)
  next
    case False
    then have run: "drive e xs k (Suc fuel) c = (case superstep e (xs k) c of
         Advanced c' \<Rightarrow> drive e xs (Suc k) fuel c'
       | Paused p w \<Rightarrow> PausedAt p (c\<lparr>cf_world := w\<rparr>)
       | Crashed r w \<Rightarrow> CrashedAt r (c\<lparr>cf_world := w\<rparr>))"
      by (subst drive.simps) simp
    have same: "superstep e (xs k) (c\<lparr>cf_frontier := cf_frontier c\<rparr>) = superstep e (xs k) c" by simp
    show ?thesis
    proof (cases "superstep e (xs k) c")
      case (Advanced c1)
      then have "reachable e c0 c1"
        using Suc.prems(2) sdlc_step.advance [of "cf_frontier c" c e "xs k" c1] False by (auto intro: reachable.next_step)
      with Suc.IH Suc.prems(1) run Advanced show ?thesis by auto
    next
      case (Paused q w)
      then have "reachable e c0 (c\<lparr>cf_world := w\<rparr>)"
        using Suc.prems(2) sdlc_step.pause [of "cf_frontier c" c e "xs k" q w] False by (auto intro: reachable.next_step)
      with Suc.prems(1) run Paused show ?thesis by auto
    next
      case (Crashed q w)
      then have "reachable e c0 (c\<lparr>cf_world := w\<rparr>)"
        using Suc.prems(2) sdlc_step.crash [of "cf_frontier c" c e "xs k" q w] False by (auto intro: reachable.next_step)
      with Suc.prems(1) run Crashed show ?thesis by auto
    qed
  qed
qed

lemma not_interrupted:
  assumes "i_decision (ni_inputs x) \<noteq> None"
  shows "fst (run_node e x n s w) \<noteq> Interrupt p"
proof -
  obtain d where d: "i_decision (ni_inputs x) = Some d" using assms by auto
  show ?thesis
    by (cases n) (auto simp: d requirement_clarifier_def codebase_reasoner_def architecture_design_node_def
        decomposer_planner_def replanner_def coder_node_def test_executor_def documentation_node_def
        sync_node_def release_gate_def rollback_node_def Let_def split: sum.splits prod.splits if_splits option.splits
        bool.splits)
qed

end
