(* ===== verification/SdlcRuns.thy ===== *)
theory SdlcRuns
  imports SdlcInvariants
begin

text \<open>
  What holds of every run of the SDLC graph: the properties of the whole graph, from the
  invariants, and a run that shows they are about something.
\<close>

section \<open>The invariants of a run\<close>

definition start_state :: "string \<Rightarrow> ScenarioType \<Rightarrow> string \<Rightarrow> OrchestratorMode \<Rightarrow> int \<Rightarrow> time \<Rightarrow> GraphState" where
  "start_state rid sc req m limit now = (new_graph_state rid sc req m now)\<lparr>retry_limit := limit\<rparr>"

lemma start_state_default: "start_state rid sc req m 3 now = new_graph_state rid sc req m now"
  by (simp add: start_state_def new_graph_state_def)

definition sdlc_inv :: "ScenarioType \<Rightarrow> int \<Rightarrow> GraphState \<Rightarrow> sdlc_node list \<Rightarrow> bool" where
  "sdlc_inv sc limit s F \<longleftrightarrow> life_inv s F \<and> test_inv s F \<and> retry_inv limit s F \<and> gates_inv sc s F"

lemma sdlc_inv_start:
  "0 \<le> limit \<Longrightarrow> sdlc_inv sc limit (start_state rid sc req m limit now) [NClarifier]"
  by (simp add: sdlc_inv_def start_state_def new_graph_state_def life_inv_def test_inv_def retry_inv_def
      budget_def generated_in_def parallel_stage_def gates_inv_def gates_allowed_def past_planning_def)

lemma sdlc_inv_reachable:
  assumes "reachable e (initial_config (start_state rid sc req m limit now) w) c" "0 \<le> limit"
  shows "sdlc_inv sc limit (cf_state c) (cf_frontier c) \<and> proper_frontier (cf_frontier c)"
proof (rule reachable_invariant [OF assms(1)])
  show "sdlc_inv sc limit (start_state rid sc req m limit now) [NClarifier]"
    using assms(2) by (rule sdlc_inv_start)
  fix s F s' F' assume I: "sdlc_inv sc limit s F" and mv: "move s F s' F'"
  from I show "sdlc_inv sc limit s' F'"
    unfolding sdlc_inv_def
    using life_inv_move [OF _ mv] test_inv_move [OF _ _ mv] retry_inv_move [OF _ mv] gates_inv_move [OF _ mv] by blast
qed

section \<open>A run to its end\<close>

definition demo_fs :: fs where "demo_fs = \<lparr>fs_files = Map.empty, fs_dirs = {}\<rparr>"

definition demo_env :: "fs env" where
  "demo_env = \<lparr>e_git = \<lparr>git_run = (\<lambda>args w. (Exited 0 ''c0ffee'' [], w)), git_has_dir = (\<lambda>_. True), git_mkdir = id, git_where = ''/ws''\<rparr>,
     e_get_fs = id, e_put_fs = (\<lambda>f _. f), e_workspace = [''ws''], e_workspace_text = ''ws'',
     e_resolve = resolve_lexical, e_conflict_markers = []\<rparr>"

definition demo_decision :: decision where
  "demo_decision = \<lparr>d_status = Some ''approved'', d_decided_by = None, d_decided_by_identity = None,
     d_override_guardrails = None, d_comment = None, d_clarified_requirement = None, d_replayed_from_fixture = None\<rparr>"

definition demo_fixture :: json where
  "demo_fixture = JObj [(''attempts'', JArr [JObj [(''attempt_number'', JInt 1), (''code_files'', JObj [(''a.py'', JStr ''x = 1'')])]])]"

definition demo_runtime :: runtime_env where
  "demo_runtime = \<lparr>de_which = (\<lambda>_. False), de_docker_host = [], de_af_unix = False, de_path_exists = (\<lambda>_. False),
     de_recv = (\<lambda>_. None), de_info = SpawnFailed []\<rparr>"

definition demo_in :: "fs node_in" where
  "demo_in = \<lparr>ni_inputs = \<lparr>i_clock = \<lparr>clk_now = 7, clk_ms = 1\<rparr>, i_decision = Some demo_decision, i_py_files = None,
       i_workdir = ''/ws'', i_workdir_is_dir = True, i_pytest = Exited 0 [] [], i_pytest_duration = 1\<rparr>,
     ni_coder = \<lparr>cd_table = Inr default_routing_table, cd_requirements = None, cd_on_path = False,
       cd_claude = (\<lambda>_ _ w. (SpawnFailed [], w)), cd_runtime = demo_runtime,
       cd_fixture = Some (Inr (dumps demo_fixture)), cd_fixtures_dir = ''fx'', cd_float = id\<rparr>\<rparr>"

definition demo_start :: "fs config" where
  "demo_start = initial_config (new_graph_state ''r1'' Greenfield ''add x'' Replay 0) demo_fs"

definition demo_run :: "fs driven" where
  "demo_run = drive demo_env (\<lambda>_ _. demo_in) 0 23 demo_start"

text \<open>The demonstration run completes, with its gates decided, after one generation.\<close>

lemma demo_run_done:
  "case demo_run of Done c \<Rightarrow> run_status (cf_state c) = Completed \<and> length (coder_attempts (cf_state c)) = 1 | _ \<Rightarrow> False"
  by code_simp

lemma demo_final:
  "\<exists>c. reachable demo_env demo_start c \<and> run_status (cf_state c) = Completed \<and> length (coder_attempts (cf_state c)) = 1"
proof -
  obtain c where c: "demo_run = Done c"
    using demo_run_done by (simp split: driven.splits)
  then have "reachable demo_env demo_start c"
    unfolding demo_run_def by (intro drive_reachable [OF disjI1 reachable.start])
  moreover have "run_status (cf_state c) = Completed \<and> length (coder_attempts (cf_state c)) = 1"
    using demo_run_done unfolding c driven.case .
  ultimately show ?thesis by blast
qed

lemma demo_start_state: "demo_start = initial_config (start_state ''r1'' Greenfield ''add x'' Replay 3 0) demo_fs"
  by (simp add: demo_start_def start_state_default)

section \<open>Properties\<close>

text \<open>
  C4: the merge gate guards every commit. In every state a run can reach, whatever the
  processes and humans around it answer, a completed run, and a recorded commit, means that
  the merge gate was approved by a recorded decision whose status is approved, that there
  is one recorded violation per guardrail finding of the code and every one is overridden
  by that human, that the tests passed on that very attempt, and that nothing was rolled back.
\<close>

theorem merge_gate_guards_commit:
  assumes "reachable e (initial_config (start_state rid sc req m limit now) w) c" "0 \<le> limit"
    and "run_status (cf_state c) = Completed \<or> commit_sha_after (cf_state c) \<noteq> None"
  shows "cf_frontier c = [] \<and> run_status (cf_state c) = Completed \<and> shipped (cf_state c) \<and> tested (cf_state c)"
  using sdlc_inv_reachable [OF assms(1,2)] assms(3)
  by (auto simp: sdlc_inv_def life_inv_def test_inv_def split: if_splits)

lemma merge_gate_guards_commit_witness:
  "\<exists>c. reachable demo_env demo_start c \<and> shipped (cf_state c) \<and> tested (cf_state c)"
proof -
  obtain c where "reachable demo_env demo_start c" "run_status (cf_state c) = Completed"
    using demo_final by blast
  then show ?thesis
    using merge_gate_guards_commit [of demo_env "''r1''" Greenfield "''add x''" Replay 3 0 demo_fs c]
    unfolding demo_start_state by auto
qed

text \<open>
  C5: a run is running exactly as long as the graph has work left, and ends once. With
  work left it is running, has no commit, no end time and no rollback; with none left it has
  an end time and is completed with a commit, or failed without one - and then either was
  rolled back once or stopped safely before anything was released.
\<close>

theorem run_ends_in_one_outcome:
  assumes "reachable e (initial_config (start_state rid sc req m limit now) w) c" "0 \<le> limit"
  shows "if cf_frontier c = []
    then finished_at (cf_state c) \<noteq> None \<and>
      (run_status (cf_state c) = Completed \<and> commit_sha_after (cf_state c) \<noteq> None \<and> rollback_count (cf_state c) = 0 \<and>
         \<not> safe_stop (cf_state c)
       \<or> run_status (cf_state c) = Failed \<and> commit_sha_after (cf_state c) = None \<and>
         (rollback_count (cf_state c) = 1 \<or> rollback_count (cf_state c) = 0 \<and> safe_stop (cf_state c)))
    else run_status (cf_state c) = Running \<and> finished_at (cf_state c) = None \<and>
      commit_sha_after (cf_state c) = None \<and> rollback_count (cf_state c) = 0 \<and> \<not> safe_stop (cf_state c)"
  using sdlc_inv_reachable [OF assms]
  by (auto simp: sdlc_inv_def life_inv_def shipped_def split: if_splits)

lemma run_ends_in_one_outcome_witness:
  "\<exists>c. reachable demo_env demo_start c \<and>
     (cf_frontier c = [] \<longrightarrow> finished_at (cf_state c) \<noteq> None) \<and> run_status (cf_state c) = Completed"
proof -
  obtain c where c: "reachable demo_env demo_start c" "run_status (cf_state c) = Completed"
    using demo_final by blast
  then show ?thesis
    using run_ends_in_one_outcome [of demo_env "''r1''" Greenfield "''add x''" Replay 3 0 demo_fs c]
    unfolding demo_start_state by (auto split: if_splits)
qed

text \<open>
  C6: generation is bounded. A run asks for code at most \<open>retry_limit + 2\<close> times - the first
  attempt, the retries and the one fallback - and its retry counter never passes the limit.
\<close>

theorem generation_bounded:
  assumes "reachable e (initial_config (start_state rid sc req m limit now) w) c" "0 \<le> limit"
  shows "int (length (coder_attempts (cf_state c))) \<le> limit + 2 \<and>
    0 \<le> retry_count (cf_state c) \<and> retry_count (cf_state c) \<le> limit \<and>
    (\<not> fallback_triggered (cf_state c) \<longrightarrow> int (length (coder_attempts (cf_state c))) \<le> limit + 1)"
proof -
  have "retry_inv limit (cf_state c) (cf_frontier c)"
    using sdlc_inv_reachable [OF assms] by (simp add: sdlc_inv_def)
  moreover have "generated_in (cf_frontier c) (cf_state c) \<le> 1" by (simp add: generated_in_def)
  ultimately show ?thesis using assms(2) by (auto simp: retry_inv_def budget_def split: if_splits)
qed

lemma generation_bounded_witness:
  "\<exists>c. reachable demo_env demo_start c \<and> length (coder_attempts (cf_state c)) = 1 \<and>
     int (length (coder_attempts (cf_state c))) \<le> 3 + 2"
proof -
  obtain c where c: "reachable demo_env demo_start c" "length (coder_attempts (cf_state c)) = 1"
    using demo_final by blast
  then show ?thesis
    using generation_bounded [of demo_env "''r1''" Greenfield "''add x''" Replay 3 0 demo_fs c]
    unfolding demo_start_state by auto
qed

text \<open>
  C8: the gates are where each scenario puts them. Only a greenfield run decides the
  clarification and plan gates, only a brownfield run the impact review, only an ambiguous
  run with a detected conflict the re-planning gate; and by the time code is generated each
  run has decided the gates of its scenario.
\<close>

theorem gates_by_scenario:
  assumes "reachable e (initial_config (start_state rid sc req m limit now) w) c" "0 \<le> limit"
  shows "(gates (cf_state c) ClarificationApproval \<noteq> None \<or> gates (cf_state c) PlanApproval \<noteq> None \<longrightarrow> sc = Greenfield) \<and>
    (gates (cf_state c) CodebaseImpactReview \<noteq> None \<longrightarrow> sc = Brownfield) \<and>
    (gates (cf_state c) ReplanningApproval \<noteq> None \<longrightarrow> sc = Ambiguous \<and> replanning_triggered (cf_state c)) \<and>
    (coder_attempts (cf_state c) \<noteq> [] \<or> cf_frontier c = [NCoder] \<longrightarrow>
      (sc = Greenfield \<longrightarrow> gates (cf_state c) ClarificationApproval \<noteq> None \<and> gates (cf_state c) PlanApproval \<noteq> None) \<and>
      (sc = Brownfield \<longrightarrow> gates (cf_state c) CodebaseImpactReview \<noteq> None) \<and>
      (sc = Ambiguous \<and> replanning_triggered (cf_state c) \<longrightarrow> gates (cf_state c) ReplanningApproval \<noteq> None))"
proof -
  have I: "gates_inv sc (cf_state c) (cf_frontier c)"
    using sdlc_inv_reachable [OF assms] by (simp add: sdlc_inv_def)
  have "(coder_attempts (cf_state c) = [] \<or> past_planning (cf_frontier c)) \<and> proper_frontier (cf_frontier c)"
  proof (rule reachable_invariant [OF assms(1)])
    fix s F s' F'
    assume "coder_attempts s = [] \<or> past_planning F" and mv: "move s F s' F'"
    from mv this(1) show "coder_attempts s' = [] \<or> past_planning F'"
      by cases (auto simp: past_planning_def retry_move_def route_after_coder_def route_after_sync_def)
  qed (simp add: start_state_def new_graph_state_def)
  then have past: "coder_attempts (cf_state c) \<noteq> [] \<or> cf_frontier c = [NCoder] \<Longrightarrow> past_planning (cf_frontier c)"
    by (auto simp: past_planning_def)
  show ?thesis
    using I past by (auto simp: gates_inv_def gates_allowed_def past_planning_def)
qed

lemma gates_by_scenario_witness:
  "\<exists>c. reachable demo_env demo_start c \<and> coder_attempts (cf_state c) \<noteq> [] \<and>
     gates (cf_state c) ClarificationApproval \<noteq> None \<and> gates (cf_state c) PlanApproval \<noteq> None"
proof -
  obtain c where c: "reachable demo_env demo_start c" "length (coder_attempts (cf_state c)) = 1"
    using demo_final by blast
  then have "coder_attempts (cf_state c) \<noteq> []" by auto
  moreover from this c have "gates (cf_state c) ClarificationApproval \<noteq> None \<and> gates (cf_state c) PlanApproval \<noteq> None"
    using gates_by_scenario [of demo_env "''r1''" Greenfield "''add x''" Replay 3 0 demo_fs c]
    unfolding demo_start_state by simp
  ultimately show ?thesis using c(1) by blast
qed

text \<open>
  C7: every run comes to an end. Driven superstep by superstep, a run is over, or waits for a
  human, or has crashed, within \<open>3 * (retry_limit + 1) + 11\<close> supersteps - 23 with the default
  limit - whatever fails on the way; and when every gate finds a decision it does not wait.
\<close>

lemma not_paused:
  assumes "\<And>k n. i_decision (ni_inputs (xs k n)) \<noteq> None"
  shows "drive e xs k fuel c \<noteq> PausedAt p c'"
proof (induction fuel arbitrary: k c)
  case 0
  then show ?case by (simp add: drive.simps)
next
  case (Suc fuel)
  have "run_frontier e (xs k) s ns w \<noteq> (Inl (Inl q), w')" for s ns w q w'
  proof (induction ns arbitrary: w w')
    case Nil
    then show ?case by simp
  next
    case (Cons n ns)
    have "fst (run_node e (xs k n) n s w) \<noteq> Interrupt q" for q by (rule not_interrupted [OF assms])
    with Cons.IH show ?case by (auto split: prod.splits node_result.splits sum.splits) (metis fst_conv)
  qed
  then have "superstep e (xs k) c \<noteq> Paused q w" for q w
    by (auto simp: superstep_def Let_def split: prod.splits sum.splits)
  with Suc.IH show ?case by (subst drive.simps) (auto split: outcome.splits)
qed

theorem every_run_ends:
  assumes "0 \<le> limit" "start = initial_config (start_state rid sc req m limit now) w"
    and "3 * (limit + 1) + 11 \<le> int fuel"
  shows "drive e xs 0 fuel start \<noteq> OutOfFuel \<and>
    ((\<forall>k n. i_decision (ni_inputs (xs k n)) \<noteq> None) \<longrightarrow>
      (\<exists>c. drive e xs 0 fuel start = Done c \<and> cf_frontier c = [] \<and> finished_at (cf_state c) \<noteq> None)
      \<or> (\<exists>r c. drive e xs 0 fuel start = CrashedAt r c))"
proof
  have "weight (cf_state start) (cf_frontier start) \<le> fuel"
    using assms by (simp add: initial_config_def start_state_def new_graph_state_def stage_weight_def budget_def)
  then show nf: "drive e xs 0 fuel start \<noteq> OutOfFuel"
    using initial_proper assms(2) by (intro drive_enough) auto
  show "(\<forall>k n. i_decision (ni_inputs (xs k n)) \<noteq> None) \<longrightarrow>
      (\<exists>c. drive e xs 0 fuel start = Done c \<and> cf_frontier c = [] \<and> finished_at (cf_state c) \<noteq> None)
      \<or> (\<exists>r c. drive e xs 0 fuel start = CrashedAt r c)"
  proof
    assume dec: "\<forall>k n. i_decision (ni_inputs (xs k n)) \<noteq> None"
    show "(\<exists>c. drive e xs 0 fuel start = Done c \<and> cf_frontier c = [] \<and> finished_at (cf_state c) \<noteq> None)
      \<or> (\<exists>r c. drive e xs 0 fuel start = CrashedAt r c)"
    proof (cases "drive e xs 0 fuel start")
      case (Done c)
      then have "reachable e start c" by (intro drive_reachable [OF disjI1 reachable.start])
      moreover have "cf_frontier c = []" by (rule drive_done [OF Done])
      ultimately show ?thesis
        using sdlc_inv_reachable [of e rid sc req m limit now w c] assms Done
        by (auto simp: sdlc_inv_def life_inv_def)
    next
      case (PausedAt p c)
      with not_paused [of xs e 0 fuel start p c] dec show ?thesis by blast
    qed (use nf in auto)
  qed
qed

lemma every_run_ends_witness:
  "drive demo_env (\<lambda>_ _. demo_in) 0 23 demo_start \<noteq> OutOfFuel"
  using every_run_ends [of 3 demo_start "''r1''" Greenfield "''add x''" Replay 0 demo_fs 23 demo_env "\<lambda>_ _. demo_in"]
  by (simp add: demo_start_state)


definition demo_checking :: "fs config" where
  "demo_checking = \<lparr>cf_state = new_graph_state ''r1'' Greenfield ''add x'' Replay 0,
     cf_frontier = [NTest, NDocs], cf_world = demo_fs\<rparr>"

lemma demo_checking_advances:
  "case superstep demo_env (\<lambda>_. demo_in) demo_checking of Advanced _ \<Rightarrow> True | _ \<Rightarrow> False"
  by code_simp


text \<open>
  C9: an unsafe release is refused. When the reviewer does not approve, or approves code with
  guardrail findings without overriding them, the release gate touches nothing outside the
  run: no git command is issued, the run is not completed, and the graph goes on to roll back.
\<close>

theorem unsafe_release_refused:
  assumes "i_decision i = Some d"
    and "status_text d \<noteq> ''approved'' \<or>
      evaluate_guardrails (co_code_files (coder_output s)) \<noteq> [] \<and> \<not> get_or False (d_override_guardrails d)"
    and "release_gate e i s w = (r, w')"
  shows "w' = w \<and> (\<forall>us. r = Update us \<longrightarrow> run_status (apply_writes us s) = run_status s \<and>
    commit_sha_after (apply_writes us s) = commit_sha_after s \<and> successors NRelease (apply_writes us s) = [NRollback])"
proof -
  define vs0 where "vs0 = violations_of (evaluate_guardrails (co_code_files (coder_output s)))"
  have vs0: "vs0 = [] \<longleftrightarrow> evaluate_guardrails (co_code_files (coder_output s)) = []"
    by (simp add: vs0_def violations_of_def)
  show ?thesis
  proof (cases "make_gate_record MergeReleaseApproval (release_decision vs0 d) None")
    case (Inl x)
    then show ?thesis using assms(1,3) by (auto simp: release_gate_def Let_def vs0_def)
  next
    case (Inr g)
    have "gr_status g \<noteq> Approved" using release_decision_approved [OF Inr] assms(2) vs0 by blast
    then show ?thesis using assms(1,3) Inr
      by (auto simp: release_gate_def Let_def vs0_def route_after_release_gate_def)
  qed
qed

lemma unsafe_release_refused_witness:
  "\<exists>r w'. release_gate demo_env (ni_inputs demo_in)
       (new_graph_state ''r1'' Greenfield ''add x'' Replay 0
         \<lparr>coder_output := empty_coder\<lparr>co_code_files := [(''a.py'', ''eval(x)'')]\<rparr>\<rparr>) demo_fs = (r, w') \<and> w' = demo_fs"
proof -
  define s where "s = new_graph_state ''r1'' Greenfield ''add x'' Replay 0
    \<lparr>coder_output := empty_coder\<lparr>co_code_files := [(''a.py'', ''eval(x)'')]\<rparr>\<rparr>"
  obtain r w' where run: "release_gate demo_env (ni_inputs demo_in) s demo_fs = (r, w')"
    by (cases "release_gate demo_env (ni_inputs demo_in) s demo_fs")
  have "evaluate_guardrails [(''a.py'', ''eval(x)'')] \<noteq> []" by code_simp
  then have *: "evaluate_guardrails (co_code_files (coder_output s)) \<noteq> []" by (simp add: s_def)
  have "i_decision (ni_inputs demo_in) = Some demo_decision" "\<not> get_or False (d_override_guardrails demo_decision)"
    by (simp_all add: demo_in_def demo_decision_def)
  then have "w' = demo_fs" using unsafe_release_refused [OF _ _ run] * by blast
  then show ?thesis using run unfolding s_def by blast
qed

text \<open>
  C12: a target routed to a specialist never gets the general-purpose model. In live mode a
  run resolved to an external specialist stops safely before anything is generated: the CLI
  is not called, no file is written, the run has failed and nothing runs after the coder.
\<close>

theorem external_never_falls_back:
  assumes "mode s = Live" "run_resolve_route e ci w = (Inr route, w1)" "rs_specialist route = External sp"
  shows "\<exists>us. coder_node e i ci s w = (Update us, w1) \<and>
    safe_stop (apply_writes us s) \<and> run_status (apply_writes us s) = Failed \<and>
    co_code_files (coder_output (apply_writes us s)) = [] \<and> coder_attempts (apply_writes us s) = coder_attempts s \<and>
    successors NCoder (apply_writes us s) = []"
proof -
  have phases: "require_phases rt n ps = Inr () \<or> (\<exists>m. require_phases rt n ps = Inl (RuntimeError m))" for rt n ps
    by (induction rt n ps rule: require_phases.induct) (auto simp: require_runtime_def Let_def split: if_splits)
  obtain m where "generate_live ci s route w1 = (Inl (RuntimeError m), w1)"
    using phases [of "cd_runtime ci" "rs_name route" "es_phases sp"] assms(3)
    by (auto simp: generate_live_def)
  then have "generate e ci s w = (Inl (RuntimeError m), w1)"
    using assms by (simp add: generate_def Let_def bind_io_def)
  then have "coder_node e i ci s w = (Update (safe_stop_updates i (retry_count s + 1) (RuntimeError m)), w1)"
    by (simp add: coder_node_def Let_def is_fixture_failure_def is_runtime_error_def)
  then show ?thesis
    by (simp add: safe_stop_updates_def route_after_coder_def empty_coder_def)
qed

definition demo_external :: "fs coder_in" where
  "demo_external = (ni_coder demo_in)\<lparr>cd_table := Inr (demo_table\<lparr>tb_routes :=
     [\<lparr>rt_scenario = ''modernise'', rt_repository = ''c0ffee'', rt_specialist = ''port'',
       rt_output_repository = None, rt_output_branch = ''main''\<rparr>]\<rparr>)\<rparr>"

lemma external_never_falls_back_witness:
  "\<exists>us w1. coder_node demo_env (ni_inputs demo_in) demo_external (new_graph_state ''r1'' Greenfield ''add x'' Live 0) demo_fs
      = (Update us, w1) \<and> successors NCoder (apply_writes us (new_graph_state ''r1'' Greenfield ''add x'' Live 0)) = []"
proof -
  have "(case run_resolve_route demo_env demo_external demo_fs of
      (Inr r, _) \<Rightarrow> (case rs_specialist r of External _ \<Rightarrow> True | _ \<Rightarrow> False) | _ \<Rightarrow> False)"
    by code_simp
  then obtain route w1 sp where "run_resolve_route demo_env demo_external demo_fs = (Inr route, w1)"
      "rs_specialist route = External sp"
    by (auto split: prod.splits sum.splits Specialist.splits)
  moreover have "mode (new_graph_state ''r1'' Greenfield ''add x'' Live 0) = Live" by (simp add: new_graph_state_def)
  ultimately show ?thesis
    using external_never_falls_back [of "new_graph_state ''r1'' Greenfield ''add x'' Live 0" demo_env demo_external
        demo_fs route w1 sp "ni_inputs demo_in"] by blast
qed

text \<open>
  C10: rolling back means a hard reset to the commit recorded before the run wrote anything,
  then a clean - the clean only once the reset succeeded - and nothing else; without such a
  commit no git command is issued and the run stops safely, and so it does when git fails.
\<close>

theorem rollback_reverts_exactly:
  assumes "e_git e = logged g"
  shows "let sha = co_commit_sha_before (coder_output s);
      (r, w', issued) = rollback_node e i s (w, []);
      reset = run_git g [''reset'', ''--hard'', get_or [] sha] w
    in issued = (if is_falsy sha then []
         else [[''reset'', ''--hard'', get_or [] sha]] @ (if is_ok (fst reset) then [[''clean'', ''-fd'']] else [])) \<and>
       (\<forall>us. r = Update us \<longrightarrow> run_status (apply_writes us s) = Failed \<and>
          (\<not> safe_stop s \<longrightarrow> (safe_stop (apply_writes us s) \<longleftrightarrow> cannot_revert e s (w, []))))"
proof -
  define sha where "sha = co_commit_sha_before (coder_output s)"
  obtain r w' issued where run: "rollback_node e i s (w, []) = (r, w', issued)"
    by (cases "rollback_node e i s (w, [])")
  have log: "issued = (if is_falsy sha then []
      else [[''reset'', ''--hard'', get_or [] sha]] @
        (if is_ok (fst (run_git g [''reset'', ''--hard'', get_or [] sha] w)) then [[''clean'', ''-fd'']] else []))"
  proof (cases "is_falsy sha")
    case True
    then show ?thesis using run by (auto simp: rollback_node_def Let_def sha_def)
  next
    case False
    have "snd (rollback_node e i s (w, [])) = snd (git_revert_to (e_git e) (get_or [] sha) (w, []))"
      using False by (auto simp: rollback_node_def Let_def sha_def split: prod.splits sum.splits)
    then have "issued = snd (snd (git_revert_to (logged g) (get_or [] sha) (w, [])))"
      using run assms by (metis snd_conv)
    then show ?thesis using False unfolding revert_log by simp
  qed
  have "run_status (apply_writes us s) = Failed \<and>
      (\<not> safe_stop s \<longrightarrow> (safe_stop (apply_writes us s) \<longleftrightarrow> cannot_revert e s (w, [])))" if "r = Update us" for us
    using rollback_effect [OF run [unfolded that]] by (auto simp: Let_def split: if_splits)
  with log run show ?thesis by (simp add: sha_def)
qed

definition demo_logged :: "(fs \<times> string list list) env" where
  "demo_logged = \<lparr>e_git = logged (e_git demo_env), e_get_fs = fst, e_put_fs = (\<lambda>f w. (f, snd w)),
     e_workspace = [''ws''], e_workspace_text = ''ws'', e_resolve = resolve_lexical, e_conflict_markers = []\<rparr>"

lemma rollback_reverts_exactly_witness:
  "snd (snd (rollback_node demo_logged (ni_inputs demo_in) (new_graph_state ''r1'' Greenfield ''add x'' Replay 0
     \<lparr>coder_output := empty_coder\<lparr>co_commit_sha_before := Some ''c0ffee''\<rparr>\<rparr>) (demo_fs, []))) =
   [[''reset'', ''--hard'', ''c0ffee''], [''clean'', ''-fd'']]"
proof -
  have "e_git demo_logged = logged (e_git demo_env)" by (simp add: demo_logged_def)
  from rollback_reverts_exactly [OF this, of "new_graph_state ''r1'' Greenfield ''add x'' Replay 0
     \<lparr>coder_output := empty_coder\<lparr>co_commit_sha_before := Some ''c0ffee''\<rparr>\<rparr>" "ni_inputs demo_in" demo_fs]
  have "snd (snd (rollback_node demo_logged (ni_inputs demo_in) (new_graph_state ''r1'' Greenfield ''add x'' Replay 0
       \<lparr>coder_output := empty_coder\<lparr>co_commit_sha_before := Some ''c0ffee''\<rparr>\<rparr>) (demo_fs, []))) =
     [[''reset'', ''--hard'', ''c0ffee'']] @
     (if is_ok (fst (run_git (e_git demo_env) [''reset'', ''--hard'', ''c0ffee''] demo_fs)) then [[''clean'', ''-fd'']] else [])"
    by (simp add: Let_def is_falsy_def split: prod.splits)
  moreover have "is_ok (fst (run_git (e_git demo_env) [''reset'', ''--hard'', ''c0ffee''] demo_fs))"
    by (simp add: run_git_def demo_env_def)
  ultimately show ?thesis by simp
qed

end
