(* ===== verification/Invocation.thy ===== *)
theory Invocation
  imports Coder
begin

text \<open>
  \<open>agentic_control_plane/specialist_invocation.py\<close>: the command line of a specialist's phase,
  the strict reading of what it answers, and the one way an invocation succeeds.
\<close>

section \<open>The command line\<close>

datatype option_value = OneValue string | ManyValues "string list"

definition option_args :: "string \<times> option_value \<Rightarrow> string list" where
  "option_args o' = fst o' # (case snd o' of OneValue v \<Rightarrow> [v] | ManyValues vs \<Rightarrow> vs)"

definition RUN_ID_FLAG :: string where "RUN_ID_FLAG = ''--run-id''"

definition JSON_FLAG :: string where "JSON_FLAG = ''--json''"

definition build_argv ::
  "ExternalSpecialist \<Rightarrow> SpecialistPhase \<Rightarrow> string \<Rightarrow> (string, option_value) dict \<Rightarrow> string list" where
  "build_argv sp ph rid options =
     [es_command sp] @ ph_args ph @ concat (map option_args options) @ [RUN_ID_FLAG, rid, JSON_FLAG]"

section \<open>Reading the answer\<close>

definition REQUIRED_FIELDS :: "string list" where
  "REQUIRED_FIELDS = [''status'', ''phase'', ''run_id'', ''detail'']"

datatype invocation_error = InvocationError string | ProtocolError string | FailedError string | InvokeRaises node_error

fun invocation_text :: "invocation_error \<Rightarrow> string" where
  "invocation_text (InvocationError m) = m"
| "invocation_text (ProtocolError m) = m"
| "invocation_text (FailedError m) = m"
| "invocation_text (InvokeRaises x) = err_text x"

definition command_text :: "string list \<Rightarrow> string" where
  "command_text argv = backquoted (join '' '' (take 2 argv))"

fun type_name :: "json \<Rightarrow> string" where
  "type_name JNull = ''NoneType''"
| "type_name (JBool b) = ''bool''"
| "type_name (JInt i) = ''int''"
| "type_name (JFloat t) = ''float''"
| "type_name (JStr s) = ''str''"
| "type_name (JArr xs) = ''list''"
| "type_name (JObj kvs) = ''dict''"

definition decode_reply ::
  "(string \<Rightarrow> string) \<Rightarrow> string \<Rightarrow> string \<Rightarrow> int \<Rightarrow> string list \<Rightarrow> (invocation_error, (string, json) dict) result" where
  "decode_reply fr out err rc argv =
     (let t = strip out in
      if t = [] then Inl (ProtocolError (command_text argv @ '' exited '' @ int_str rc @ '' and wrote nothing to stdout. '' @
             ''The contract is one JSON object on stdout with logs on stderr (ADR-0018). stderr: '' @
             or_else (tail_chars 400 (strip err)) ''<empty>''))
      else case loads fr t of
        None \<Rightarrow> Inl (ProtocolError (command_text argv @ '' exited '' @ int_str rc @ '' and its stdout is not JSON. stdout starts: '' @
             repr_str (take 200 t)))
      | Some (JObj kvs) \<Rightarrow>
          (let missing = filter (\<lambda>f. dict_get kvs f = None) REQUIRED_FIELDS in
           if missing \<noteq> [] then Inl (ProtocolError (command_text argv @ '' returned an object missing '' @ list_repr missing @
             ''. Every specialist must report '' @ list_repr REQUIRED_FIELDS @ '' whatever else it reports (ADR-0018).''))
           else Inr kvs)
      | Some j \<Rightarrow> Inl (ProtocolError (command_text argv @ '' returned a '' @ type_name j @ '' on stdout, not an object'')))"

record SpecialistResult =
  si_status :: string
  si_phase :: string
  si_run_id :: string
  si_detail :: string
  si_payload :: json
  si_duration_seconds :: int

definition field_text :: "(string, json) dict \<Rightarrow> string \<Rightarrow> string" where
  "field_text kvs f = py_str (get_or JNull (dict_get kvs f))"

definition result_of :: "(string, json) dict \<Rightarrow> int \<Rightarrow> SpecialistResult" where
  "result_of kvs dur = \<lparr>si_status = field_text kvs ''status'', si_phase = field_text kvs ''phase'',
     si_run_id = field_text kvs ''run_id'', si_detail = field_text kvs ''detail'', si_payload = JObj kvs,
     si_duration_seconds = dur\<rparr>"

text \<open>The process runs with the given directory, command line and time limit.\<close>

type_synonym 'w runner = "path \<Rightarrow> string list \<Rightarrow> int \<Rightarrow> 'w \<Rightarrow> proc \<times> 'w"

definition invoke ::
  "(string \<Rightarrow> string) \<Rightarrow> 'w runner \<Rightarrow> int \<Rightarrow> ExternalSpecialist \<Rightarrow> string \<Rightarrow> string \<Rightarrow> string \<Rightarrow>
   (string, option_value) dict \<Rightarrow> path \<Rightarrow> ('w, invocation_error, SpecialistResult) io" where
  "invoke fr run dur sp sp_name ph_name rid options cwd w =
     (case dict_get (es_phases sp) ph_name of
        None \<Rightarrow> (Inl (InvocationError (''specialist '' @ quoted sp_name @ '' has no phase '' @ quoted ph_name @
                  ''; it declares '' @ list_repr (sort (dict_keys (es_phases sp))))), w)
      | Some ph \<Rightarrow>
          (let argv = build_argv sp ph rid options in
           case run cwd argv (ph_timeout_seconds ph) w of
             (SpawnFailed _, w') \<Rightarrow>
               (Inl (InvocationError (''specialist '' @ quoted sp_name @ '' declares command '' @ quoted (es_command sp) @
                  '', which is not on PATH. Install it - see '' @ backquoted ''distribution'' @ '' in the routing table - or build an '' @
                  ''image that carries it (ADR-0017).'')), w')
           | (Expired _ _, w') \<Rightarrow>
               (Inl (InvocationError (''specialist '' @ quoted sp_name @ '' phase '' @ quoted ph_name @ '' exceeded '' @
                  int_str (ph_timeout_seconds ph) @ ''s and was killed. Raise '' @ backquoted ''timeout_seconds'' @
                  '' for this phase in the routing table if the work legitimately takes longer.'')), w')
           | (Exited rc out err, w') \<Rightarrow>
               (bind_result (decode_reply fr out err rc argv) (\<lambda>kvs.
                  let r = result_of kvs dur in
                  if si_status r \<noteq> ''ok''
                  then Inl (FailedError (''specialist '' @ quoted sp_name @ '' phase '' @ quoted ph_name @
                         '' reported status='' @ repr_str (si_status r) @ '': '' @ si_detail r))
                  else if rc \<noteq> 0
                  then Inl (ProtocolError (''specialist '' @ quoted sp_name @ '' phase '' @ quoted ph_name @
                         '' reported status='' @ quoted ''ok'' @ '' but exited '' @ int_str rc @
                         ''. One of the two is wrong and this is not the place to decide which.''))
                  else Inr r), w')))"

section \<open>Properties\<close>

lemma loads_empty: "loads fr [] = None"
  by (simp add: loads_def skip_ws_def numeral_2_eq_2)

lemma decode_reply_iff:
  "decode_reply fr out err rc argv = Inr kvs \<longleftrightarrow>
     loads fr (strip out) = Some (JObj kvs) \<and> set REQUIRED_FIELDS \<subseteq> set (dict_keys kvs)"
proof -
  have missing: "filter (\<lambda>f. dict_get d f = None) REQUIRED_FIELDS = [] \<longleftrightarrow> set REQUIRED_FIELDS \<subseteq> set (dict_keys d)"
    for d :: "(string, json) dict"
    by (auto simp: filter_empty_conv dict_get_None_iff)
  show ?thesis
  proof (cases "strip out = []")
    case True
    then show ?thesis by (simp add: decode_reply_def loads_empty)
  next
    case False
    then show ?thesis
      using missing by (auto simp: decode_reply_def Let_def split: option.splits json.splits if_splits)
  qed
qed

text \<open>
  C17: a specialist's phase succeeds in one way only. An invocation returns a result exactly
  when the phase is declared, its process exits 0, and its standard output is one JSON
  object with all four fields of the contract and the status ok - nothing around it is
  tolerated; the result then carries the whole object. Everything else - no such phase, no
  such command, a timeout, silence, prose, a missing field, another status, a non-zero exit
  behind an ok - is an error.
\<close>

theorem invoke_succeeds_iff:
  "invoke fr run dur sp sp_name ph_name rid options cwd w = (Inr r, w') \<longleftrightarrow>
     (\<exists>ph out err kvs. dict_get (es_phases sp) ph_name = Some ph \<and>
        run cwd (build_argv sp ph rid options) (ph_timeout_seconds ph) w = (Exited 0 out err, w') \<and>
        loads fr (strip out) = Some (JObj kvs) \<and> set REQUIRED_FIELDS \<subseteq> set (dict_keys kvs) \<and>
        field_text kvs ''status'' = ''ok'' \<and> r = result_of kvs dur)"
proof (cases "dict_get (es_phases sp) ph_name")
  case None
  then show ?thesis by (simp add: invoke_def)
next
  case (Some ph)
  obtain p w1 where p: "run cwd (build_argv sp ph rid options) (ph_timeout_seconds ph) w = (p, w1)"
    by (cases "run cwd (build_argv sp ph rid options) (ph_timeout_seconds ph) w")
  show ?thesis
  proof (cases p)
    case (Exited rc out err)
    then have "invoke fr run dur sp sp_name ph_name rid options cwd w = (Inr r, w') \<longleftrightarrow>
       w1 = w' \<and> (\<exists>kvs. decode_reply fr out err rc (build_argv sp ph rid options) = Inr kvs \<and>
         field_text kvs ''status'' = ''ok'' \<and> rc = 0 \<and> r = result_of kvs dur)"
      using Some p by (auto simp: invoke_def Let_def bind_result_Inr_iff result_of_def split: if_splits)
    then show ?thesis using Some p Exited unfolding decode_reply_iff by auto
  qed (use Some p in \<open>auto simp: invoke_def Let_def\<close>)
qed

end
