(* ===== verification/Workspace.thy ===== *)
theory Workspace
  imports Tools
begin

text \<open>
  \<open>agentic_control_plane/workspace.py\<close>: the clone a run works in, the credentials git gets
  for it, its removal, and the reconciliation of what a crash left behind. File system and
  processes are a world \<open>'w\<close> the environment acts on.
\<close>

section \<open>Credentials\<close>

text \<open>
  \<open>pe_file\<close> is \<open>GIT_PAT_FILE\<close> with the content of the file it names when that is a regular
  file; \<open>pe_var\<close> is \<open>GIT_PAT\<close>.
\<close>

record pat_env =
  pe_file :: "(string \<times> string option) option"
  pe_var :: string

definition pat_file_content :: "pat_env \<Rightarrow> string option" where
  "pat_file_content pe = (case pe_file pe of
     Some (p, Some content) \<Rightarrow> if p \<noteq> [] then Some content else None | _ \<Rightarrow> None)"

definition git_pat :: "pat_env \<Rightarrow> string option" where
  "git_pat pe =
     (let from_var = (if strip (pe_var pe) = [] then None else Some (strip (pe_var pe))) in
      case pat_file_content pe of
        Some content \<Rightarrow> if strip content \<noteq> [] then Some (strip content) else from_var
      | None \<Rightarrow> from_var)"

definition dquote :: string where
  "dquote = [CHR 0x22]"

definition credential_helper :: "string \<Rightarrow> string" where
  "credential_helper file = ''!f() { echo '' @ dquote @ ''username=x-access-token'' @ dquote @ ''; echo '' @ dquote @
     ''password=$(cat '' @ file @ '')'' @ dquote @ ''; }; f''"

definition credential_helper_args :: "pat_env \<Rightarrow> string list" where
  "credential_helper_args pe = (case pe_file pe of
     Some (p, Some _) \<Rightarrow> if p \<noteq> [] then [''-c'', ''credential.helper='' @ credential_helper p] else [] | _ \<Rightarrow> [])"

text \<open>\<open>text.replace(token, new)\<close>: leftmost, non-overlapping.\<close>

function replace_all :: "string \<Rightarrow> string \<Rightarrow> string \<Rightarrow> string" where
  "replace_all tok new s =
     (if tok = [] \<or> s = [] then s
      else if startswith s tok then new @ replace_all tok new (drop (length tok) s)
      else hd s # replace_all tok new (tl s))"
  by pat_completeness auto
termination
  by (relation "measure (\<lambda>(t, n, s). length s)") auto

declare replace_all.simps [simp del]

definition redact :: "pat_env \<Rightarrow> string \<Rightarrow> string" where
  "redact pe t = (case git_pat pe of
     Some tok \<Rightarrow> if contains tok t then replace_all tok ''***'' t else t | None \<Rightarrow> t)"

section \<open>Cloning\<close>

datatype ws_error = CloneError string | OtherError node_error

record 'w ws_env =
  we_pat :: pat_env
  we_root :: path
  we_exists :: "path \<Rightarrow> 'w \<Rightarrow> bool"
  we_rmtree :: "path \<Rightarrow> 'w \<Rightarrow> 'w"
  we_mkdirs :: "path \<Rightarrow> 'w \<Rightarrow> 'w"
  we_run :: "path \<Rightarrow> string list \<Rightarrow> 'w \<Rightarrow> proc \<times> 'w"
  we_git :: "path \<Rightarrow> 'w git_env"
  we_committer :: "string \<times> string"

definition path_text :: "path \<Rightarrow> string" where
  "path_text p = concat (map (\<lambda>c. ''/'' @ c) p)"

definition workspace_for :: "'w ws_env \<Rightarrow> string \<Rightarrow> path" where
  "workspace_for e rid = join_path (we_root e) rid"

definition remove_tree :: "'w ws_env \<Rightarrow> path \<Rightarrow> 'w \<Rightarrow> 'w" where
  "remove_tree e d w = (if \<not> we_exists e d w then w else we_rmtree e d w)"

definition cleanup :: "'w ws_env \<Rightarrow> string \<Rightarrow> 'w \<Rightarrow> 'w" where
  "cleanup e rid w = (let d = workspace_for e rid in if \<not> we_exists e d w then w else remove_tree e d w)"

definition clone_argv :: "'w ws_env \<Rightarrow> path \<Rightarrow> string \<Rightarrow> string \<Rightarrow> string list" where
  "clone_argv e d url branch = [''git''] @ credential_helper_args (we_pat e) @
     [''clone'', ''--depth'', nat_str 1, ''--branch'', branch, ''--single-branch'', url, path_text d]"

text \<open>\<open>check=True\<close>: a git config that fails raises, and stops the second one.\<close>

definition config_one :: "'w ws_env \<Rightarrow> path \<Rightarrow> string \<Rightarrow> string \<Rightarrow> ('w, ws_error, unit) io" where
  "config_one e d key v w =
     (case we_run e d [''git'', ''config'', key, v] w of
        (Exited rc _ _, w') \<Rightarrow>
          if rc = 0 then (Inr (), w') else (Inl (OtherError (RuntimeError ''CalledProcessError'')), w')
      | (Expired _ _, w') \<Rightarrow> (Inl (OtherError (TimeoutExpired ''git config'')), w')
      | (SpawnFailed m, w') \<Rightarrow> (Inl (OtherError (FileNotFoundError m)), w'))"

definition configure_commit_identity :: "'w ws_env \<Rightarrow> path \<Rightarrow> ('w, ws_error, unit) io" where
  "configure_commit_identity e d =
     bind_io (config_one e d ''user.name'' (fst (we_committer e))) (\<lambda>_.
       config_one e d ''user.email'' (snd (we_committer e)))"

definition lift_git :: "('w, node_error, 'a) io \<Rightarrow> ('w, ws_error, 'a) io" where
  "lift_git m w = (case m w of (Inl x, w') \<Rightarrow> (Inl (OtherError x), w') | (Inr a, w') \<Rightarrow> (Inr a, w'))"

text \<open>The head is read once more for the log line, and its failure is a failure of the clone.\<close>

definition clone_repository :: "'w ws_env \<Rightarrow> path \<Rightarrow> string \<Rightarrow> string \<Rightarrow> ('w, ws_error, path) io" where
  "clone_repository e d url branch w0 =
     (let w1 = we_mkdirs e (butlast d) w0 in
      case we_run e [] (clone_argv e d url branch) w1 of
        (Expired _ _, w2) \<Rightarrow>
          (Inl (CloneError (''git clone of '' @ url @ '' timed out after 120s'')), remove_tree e d w2)
      | (SpawnFailed m, w2) \<Rightarrow> (Inl (OtherError (FileNotFoundError m)), w2)
      | (Exited rc out err, w2) \<Rightarrow>
          if rc \<noteq> 0
          then (Inl (CloneError (''git clone of '' @ url @ '' (branch '' @ branch @ '') failed: '' @
                  redact (we_pat e) (strip err))), remove_tree e d w2)
          else bind_io (configure_commit_identity e d) (\<lambda>_.
                 bind_io (lift_git (git_current_commit (we_git e d))) (\<lambda>_. ret_io d)) w2)"

definition clone_for_run :: "'w ws_env \<Rightarrow> string \<Rightarrow> string \<Rightarrow> string \<Rightarrow> ('w, ws_error, path \<times> string option) io" where
  "clone_for_run e rid url branch w =
     (let d = workspace_for e rid; w1 = (if we_exists e d w then cleanup e rid w else w) in
      bind_io (clone_repository e d url branch) (\<lambda>p.
        bind_io (lift_git (git_current_commit (we_git e d))) (\<lambda>sha. ret_io (p, sha))) w1)"

section \<open>Reconciliation\<close>

text \<open>The entries of the workspaces root: a name, and whether it is a directory.\<close>

type_synonym root_dir = "(string \<times> bool) list"

definition existing_run_ids :: "root_dir option \<Rightarrow> string list" where
  "existing_run_ids wsr = (case wsr of None \<Rightarrow> []
     | Some es \<Rightarrow> sort (map fst (filter (\<lambda>(n, d). d \<and> \<not> startswith n ''.'') es)))"

definition drop_entry :: "string \<Rightarrow> root_dir \<Rightarrow> root_dir" where
  "drop_entry n es = filter (\<lambda>e. fst e \<noteq> n) es"

fun reconcile_loop :: "(string \<Rightarrow> (unit, bool) result) \<Rightarrow> string list \<Rightarrow> root_dir \<Rightarrow> string list \<times> root_dir" where
  "reconcile_loop resumable [] es = ([], es)"
| "reconcile_loop resumable (r # rs) es =
     (case resumable r of
        Inl _ \<Rightarrow> reconcile_loop resumable rs es
      | Inr True \<Rightarrow> reconcile_loop resumable rs es
      | Inr False \<Rightarrow>
          (let (removed, es') = reconcile_loop resumable rs (drop_entry r es) in (r # removed, es')))"

definition reconcile :: "(string \<Rightarrow> (unit, bool) result) \<Rightarrow> root_dir option \<Rightarrow> string list \<times> root_dir option" where
  "reconcile resumable wsr = (case wsr of
     None \<Rightarrow> ([], None)
   | Some es \<Rightarrow> (let (removed, es') = reconcile_loop resumable (existing_run_ids wsr) es in (removed, Some es')))"

text \<open>\<open>ls\<close> lists what lies under a path: whether each entry is a file, and its size.\<close>

definition total_size_bytes :: "'w ws_env \<Rightarrow> (path \<Rightarrow> (bool \<times> int) list) \<Rightarrow> root_dir option \<Rightarrow> string list option \<Rightarrow> int" where
  "total_size_bytes e ls wsr run_ids =
     (let targets = (case run_ids of Some ids \<Rightarrow> ids | None \<Rightarrow> existing_run_ids wsr) in
      sum_list (map (\<lambda>rid. sum_list (map snd (filter fst (ls (workspace_for e rid))))) targets))"

section \<open>Lemmas\<close>

lemma replace_all_prefix:
  "prefix q (replace_all tok ''***'' s) \<Longrightarrow> CHR ''*'' \<notin> set q \<Longrightarrow> prefix q s"
proof (induction tok "''***''" s arbitrary: q rule: replace_all.induct)
  case (1 tok s)
  show ?case
  proof (cases "tok = [] \<or> s = []")
    case True
    then show ?thesis using "1.prems" by (simp add: replace_all.simps)
  next
    case F: False
    show ?thesis
    proof (cases "startswith s tok")
      case True
      then show ?thesis using F "1.prems" by (cases q) (simp_all add: replace_all.simps [of tok _ s])
    next
      case False
      then have "replace_all tok ''***'' s = hd s # replace_all tok ''***'' (tl s)"
        using F by (simp add: replace_all.simps [of tok _ s])
      with "1.prems" F "1.hyps"(2) [OF F False] show ?thesis
        by (cases q; cases s) auto
    qed
  qed
qed

lemma contains_Cons: "contains p (c # s) \<longleftrightarrow> startswith (c # s) p \<or> contains p s"
  by simp

lemma replace_all_removes:
  "tok \<noteq> [] \<Longrightarrow> CHR ''*'' \<notin> set tok \<Longrightarrow> \<not> contains tok (replace_all tok ''***'' s)"
proof (induction tok "''***''" s rule: replace_all.induct)
  case (1 tok s)
  show ?case
  proof (cases "s = []")
    case True
    then show ?thesis using "1.prems" by (simp add: replace_all.simps)
  next
    case F: False
    obtain t ts where t: "tok = t # ts" "t \<noteq> CHR ''*''" using "1.prems" by (cases tok) auto
    show ?thesis
    proof (cases "startswith s tok")
      case True
      then have "replace_all tok ''***'' s = ''***'' @ replace_all tok ''***'' (drop (length tok) s)"
        using F "1.prems" by (simp add: replace_all.simps [of tok _ s])
      moreover have "\<not> contains tok (replace_all tok ''***'' (drop (length tok) s))"
        using "1.hyps"(1) [OF _ True] F "1.prems" by blast
      ultimately show ?thesis using t by (simp add: startswith_def)
    next
      case False
      then have r: "replace_all tok ''***'' s = hd s # replace_all tok ''***'' (tl s)"
        using F "1.prems" by (simp add: replace_all.simps [of tok _ s])
      have "\<not> contains tok (replace_all tok ''***'' (tl s))"
        using "1.hyps"(2) [OF _ False] F "1.prems" by blast
      moreover have "\<not> startswith (hd s # replace_all tok ''***'' (tl s)) tok"
      proof
        assume "startswith (hd s # replace_all tok ''***'' (tl s)) tok"
        then have "prefix tok (replace_all tok ''***'' s)" unfolding r by (auto simp: startswith_iff prefix_def)
        then have "prefix tok s" using "1.prems"(2) by (rule replace_all_prefix)
        then show False using False by (auto simp: startswith_iff prefix_def)
      qed
      ultimately show ?thesis unfolding r contains_Cons by blast
    qed
  qed
qed

lemma git_pat_nonempty: "git_pat pe = Some t \<Longrightarrow> t \<noteq> []"
  by (auto simp: git_pat_def Let_def split: option.splits if_splits)

lemma reconcile_loop_spec:
  "reconcile_loop res rs es = (removed, es') \<Longrightarrow>
     removed = filter (\<lambda>r. res r = Inr False) rs \<and> es' = filter (\<lambda>e. fst e \<notin> set removed) es"
proof (induction res rs es arbitrary: removed es' rule: reconcile_loop.induct)
  case (1 res es)
  then show ?case by simp
next
  case (2 res r rs es)
  show ?case
  proof (cases "res r")
    case (Inl u)
    then show ?thesis using 2 by auto
  next
    case (Inr b)
    then show ?thesis using 2
      by (cases b) (auto simp: drop_entry_def Let_def split: prod.splits intro!: filter_cong)
  qed
qed

section \<open>Properties\<close>



text \<open>
  Reconciliation deletes orphans and nothing else. Of the entries under the workspaces
  root exactly the directories of runs known not to be resumable go: files, dot-directories,
  resumable runs and runs whose state could not be determined stay, and the result names
  exactly what went.
\<close>

theorem reconcile_removes_orphans_only:
  assumes "distinct (map fst es)" "reconcile resumable (Some es) = (removed, root')"
  shows "\<exists>es'. root' = Some es' \<and>
    es' = filter (\<lambda>(n, is_dir). \<not> (is_dir \<and> \<not> startswith n ''.'' \<and> resumable n = Inr False)) es \<and>
    set removed = {n. (n, True) \<in> set es \<and> \<not> startswith n ''.'' \<and> resumable n = Inr False}"
proof -
  define ids where "ids = existing_run_ids (Some es)"
  obtain rm es' where loop: "reconcile_loop resumable ids es = (rm, es')"
    by (cases "reconcile_loop resumable ids es")
  then have res: "removed = rm" "root' = Some es'" using assms(2) by (simp_all add: reconcile_def ids_def)
  have ids: "set ids = {n. (n, True) \<in> set es \<and> \<not> startswith n ''.''}"
    by (force simp: ids_def existing_run_ids_def)
  from reconcile_loop_spec [OF loop] have rm: "set rm = {n. (n, True) \<in> set es \<and> \<not> startswith n ''.'' \<and> resumable n = Inr False}"
    and es': "es' = filter (\<lambda>e. fst e \<notin> set rm) es" by (auto simp: ids)
  have uniq: "d = d'" if "(n, d) \<in> set es" "(n, d') \<in> set es" for n d d'
    using assms(1) that by (metis map_of_is_SomeI option.inject)
  have "es' = filter (\<lambda>(n, is_dir). \<not> (is_dir \<and> \<not> startswith n ''.'' \<and> resumable n = Inr False)) es"
    unfolding es' rm by (intro filter_cong refl) (auto dest: uniq)
  with res rm show ?thesis by blast
qed

lemma reconcile_removes_orphans_only_witness:
  "\<exists>removed es'. reconcile (\<lambda>r. if r = ''r2'' then Inr False else Inr True)
      (Some [(''.audit'', True), (''r1'', True), (''r2'', True)]) = (removed, Some es') \<and>
    es' = [(''.audit'', True), (''r1'', True)]"
proof -
  let ?res = "\<lambda>r. if r = ''r2'' then Inr False else Inr True :: (unit, bool) result"
  obtain rm root' where r: "reconcile ?res (Some [(''.audit'', True), (''r1'', True), (''r2'', True)]) = (rm, root')"
    by (cases "reconcile ?res (Some [(''.audit'', True), (''r1'', True), (''r2'', True)])")
  show ?thesis
    using reconcile_removes_orphans_only [OF _ r] r by (auto simp: startswith_def)
qed


text \<open>A world of paths, where every clone fails.\<close>

definition demo_ws :: "path set ws_env" where
  "demo_ws = \<lparr>we_pat = \<lparr>pe_file = None, pe_var = []\<rparr>, we_root = [''ws''], we_exists = (\<lambda>p w. p \<in> w),
     we_rmtree = (\<lambda>p w. w - {p}), we_mkdirs = (\<lambda>p w. insert p w),
     we_run = (\<lambda>cwd argv w. (Exited 128 [] ''fatal'', insert [''ws'', ''r1''] w)),
     we_git = (\<lambda>_. \<lparr>git_run = (\<lambda>_ w. (Exited 128 [] [], w)), git_has_dir = (\<lambda>_. False), git_mkdir = id, git_where = ''/ws''\<rparr>),
     we_committer = (''cp'', ''cp@x'')\<rparr>"


end
