(* ===== verification/Publish.thy ===== *)
theory Publish
  imports Coder Workspace
begin

text \<open>
  \<open>agentic_control_plane/publish.py\<close>: delivering an approved commit, or declining to. The push
  is a process, the pull request an HTTP exchange; both are arguments.
\<close>

datatype PublishMode = ModeNone | ModeBranch | ModePullRequest

definition mode_text :: "PublishMode \<Rightarrow> string" where
  "mode_text m = (case m of ModeNone \<Rightarrow> ''none'' | ModeBranch \<Rightarrow> ''branch'' | ModePullRequest \<Rightarrow> ''pull_request'')"

record PublishResult =
  pr_mode :: PublishMode
  pr_published :: bool
  pr_branch :: "string option"
  pr_pull_request_url :: json
  pr_error :: "string option"

definition BRANCH_PREFIX :: string where
  "BRANCH_PREFIX = ''agentic-patch''"

definition publish_mode :: "string option \<Rightarrow> PublishMode" where
  "publish_mode var =
     (let raw = lower (strip (get_or ''none'' var)) in
      if raw = ''branch'' then ModeBranch else if raw = ''pull_request'' then ModePullRequest else ModeNone)"

definition branch_name :: "string \<Rightarrow> string" where
  "branch_name rid = BRANCH_PREFIX @ ''/'' @ rid"

definition as_payload :: "PublishResult \<Rightarrow> (string, json) dict" where
  "as_payload r =
     [(''publish_mode'', JStr (mode_text (pr_mode r))), (''published'', JBool (pr_published r))] @
     (case pr_branch r of Some b \<Rightarrow> if b \<noteq> [] then [(''branch'', JStr b)] else [] | None \<Rightarrow> []) @
     (if truthy (pr_pull_request_url r) then [(''pull_request_url'', pr_pull_request_url r)] else []) @
     (case pr_error r of Some x \<Rightarrow> if x \<noteq> [] then [(''publish_error'', JStr x)] else [] | None \<Rightarrow> [])"

section \<open>The remote of a pull request\<close>

text \<open>
  \<open>^https?://github\.com/(owner)/(repo)(\.git)?/?$\<close> with a shortest \<open>repo\<close>; the dollar also
  matches before a final newline.
\<close>

definition remote_tails :: "string list" where
  "remote_tails = concat (map (\<lambda>t. [t, t @ newline]) [[], ''.git'', ''/'', ''.git/''])"

definition repo_of :: "string \<Rightarrow> string option" where
  "repo_of s = (case filter (\<lambda>k. CHR ''/'' \<notin> set (take k s) \<and> drop k s \<in> set remote_tails) [1..<Suc (length s)] of
     [] \<Rightarrow> None | k # _ \<Rightarrow> Some (take k s))"

definition drop_scheme :: "string \<Rightarrow> string option" where
  "drop_scheme u =
     (if startswith u ''https://github.com/'' then Some (drop 19 u)
      else if startswith u ''http://github.com/'' then Some (drop 18 u) else None)"

definition github_remote :: "string \<Rightarrow> (string \<times> string) option" where
  "github_remote u = (case drop_scheme u of
     None \<Rightarrow> None
   | Some s \<Rightarrow>
       (let owner = takeWhile (\<lambda>c. c \<noteq> CHR ''/'') s; rest = dropWhile (\<lambda>c. c \<noteq> CHR ''/'') s in
        if owner = [] \<or> rest = [] then None
        else map_option (\<lambda>r. (owner, r)) (repo_of (tl rest))))"

section \<open>Pushing and opening the request\<close>

text \<open>What the HTTP call gives back: a body, an error status with a body, or no answer.\<close>

datatype http = HttpBody string | HttpStatus int string | HttpFailed string

record 'w publish_env =
  pb_mode :: "string option"
  pb_pat :: pat_env
  pb_run :: "string list \<Rightarrow> 'w \<Rightarrow> proc \<times> 'w"
  pb_post :: "string \<Rightarrow> string \<Rightarrow> (string, string) dict \<Rightarrow> 'w \<Rightarrow> http \<times> 'w"
  pb_float :: "string \<Rightarrow> string"

datatype publish_error = PublishError string | Escapes node_error

definition push_argv :: "'w publish_env \<Rightarrow> string \<Rightarrow> string list" where
  "push_argv e rid = [''git''] @ credential_helper_args (pb_pat e) @
     [''push'', ''origin'', ''HEAD:refs/heads/'' @ branch_name rid]"

definition push_branch :: "'w publish_env \<Rightarrow> string \<Rightarrow> ('w, publish_error, string) io" where
  "push_branch e rid w =
     (case pb_run e (push_argv e rid) w of
        (Expired _ _, w') \<Rightarrow> (Inl (PublishError ''git push timed out after 60s''), w')
      | (SpawnFailed m, w') \<Rightarrow> (Inl (Escapes (FileNotFoundError m)), w')
      | (Exited rc _ err, w') \<Rightarrow>
          if rc \<noteq> 0 then (Inl (PublishError (''git push failed: '' @ redact (pb_pat e) (strip err))), w')
          else (Inr (branch_name rid), w'))"

definition open_pull_request ::
  "'w publish_env \<Rightarrow> string \<Rightarrow> string \<Rightarrow> string \<Rightarrow> string \<Rightarrow> string \<Rightarrow> ('w, publish_error, json) io" where
  "open_pull_request e url head base title body w =
     (case github_remote url of
        None \<Rightarrow> (Inl (PublishError (''pull_request mode supports GitHub remotes only; '' @ url @ '' is not one'')), w)
      | Some (owner, repo) \<Rightarrow>
          (case git_pat (pb_pat e) of
             None \<Rightarrow> (Inl (PublishError ''pull_request mode needs a PAT; none is configured''), w)
           | Some token \<Rightarrow>
               (case pb_post e (''https://api.github.com/repos/'' @ owner @ ''/'' @ repo @ ''/pulls'') token
                       [(''title'', title), (''head'', head), (''base'', base), (''body'', body)] w of
                  (HttpStatus status detail, w') \<Rightarrow>
                    (Inl (PublishError (''GitHub returned '' @ int_str status @ '' opening the pull request: '' @
                       take 300 (redact (pb_pat e) detail))), w')
                | (HttpFailed m, w') \<Rightarrow>
                    (Inl (PublishError (''could not reach GitHub to open the pull request: '' @ redact (pb_pat e) m)), w')
                | (HttpBody b, w') \<Rightarrow>
                    (case loads (pb_float e) b of
                       Some (JObj kvs) \<Rightarrow> (Inr (get_or (JStr []) (dict_get kvs ''html_url'')), w')
                     | _ \<Rightarrow> (Inl (PublishError ''could not reach GitHub to open the pull request''), w')))))"

definition pr_title :: "string \<Rightarrow> string \<Rightarrow> string" where
  "pr_title requirement rid = ''[agentic-sdlc] '' @ (if requirement \<noteq> [] then take 60 requirement else rid)"

definition pr_body :: "string \<Rightarrow> string \<Rightarrow> string" where
  "pr_body requirement rid =
     ''Opened by '' @ backquoted ''agentic-sdlc-control-plane'' @ '' for run '' @ backquoted rid @ ''.'' @ newline @ newline @
     ''This change passed the platform'' @ [CHR 0x27] @ ''s guardrail scan and a human '' @
     backquoted ''merge_release_approval'' @ '' gate before this branch was pushed. The run'' @ [CHR 0x27] @
     ''s audit trail is the record of who approved it.'' @ newline @ newline @
     ''**Requirement:** '' @ or_else requirement ''(none recorded)''"

definition publish_change ::
  "'w publish_env \<Rightarrow> string \<Rightarrow> string \<Rightarrow> string \<Rightarrow> string \<Rightarrow> ('w, node_error, PublishResult) io" where
  "publish_change e rid repo_url base requirement w =
     (let m = publish_mode (pb_mode e);
          r0 = \<lparr>pr_mode = m, pr_published = False, pr_branch = None, pr_pull_request_url = JNull, pr_error = None\<rparr>
      in if m = ModeNone then (Inr r0, w)
         else case push_branch e rid w of
           (Inl (PublishError x), w') \<Rightarrow> (Inr (r0\<lparr>pr_error := Some x\<rparr>), w')
         | (Inl (Escapes x), w') \<Rightarrow> (Inl x, w')
         | (Inr branch, w') \<Rightarrow>
             if m = ModeBranch then (Inr (r0\<lparr>pr_published := True, pr_branch := Some branch\<rparr>), w')
             else (case open_pull_request e repo_url branch base (pr_title requirement rid) (pr_body requirement rid) w' of
               (Inl (PublishError x), w'') \<Rightarrow>
                 (Inr (r0\<lparr>pr_published := True, pr_branch := Some branch, pr_error := Some x\<rparr>), w'')
             | (Inl (Escapes x), w'') \<Rightarrow> (Inl x, w'')
             | (Inr url, w'') \<Rightarrow>
                 (Inr (r0\<lparr>pr_published := True, pr_branch := Some branch, pr_pull_request_url := url\<rparr>), w'')))"

section \<open>Lemmas\<close>

lemma open_pull_request_escapes: "fst (open_pull_request e u h b t y w) \<noteq> Inl (Escapes x)"
  by (simp add: open_pull_request_def split: option.splits prod.splits http.splits json.splits)

section \<open>Properties\<close>

text \<open>
  What publishing reports is what happened. With the mode off (or unrecognised) nothing
  is run and nothing is published. Otherwise the change is published if and only if the push
  of \<open>agentic-patch/run\<close> was accepted; a push that fails is reported with its reason and no
  pull request is attempted; a request that fails leaves the branch published and carries
  the reason. The only way out with an exception is a git that cannot be started.
\<close>

theorem publish_reports_what_happened:
  "let m = publish_mode (pb_mode e); (p, w1) = pb_run e (push_argv e rid) w;
       (out, w') = publish_change e rid url base req w in
   case out of
     Inl x \<Rightarrow> m \<noteq> ModeNone \<and> (\<exists>t. p = SpawnFailed t \<and> x = FileNotFoundError t)
   | Inr r \<Rightarrow> pr_mode r = m \<and>
       (if m = ModeNone then w' = w \<and> \<not> pr_published r \<and> pr_error r = None
        else if \<exists>a b. p = Exited 0 a b
          then pr_published r \<and> pr_branch r = Some (branch_name rid) \<and> (m = ModeBranch \<and> w' = w1 \<and> pr_error r = None \<or>
            m = ModePullRequest \<and> (pr_error r = None \<or> pr_pull_request_url r = JNull))
          else \<not> pr_published r \<and> pr_branch r = None \<and> pr_error r \<noteq> None \<and> w' = w1)"
proof -
  define m where "m = publish_mode (pb_mode e)"
  obtain p w1 where p: "pb_run e (push_argv e rid) w = (p, w1)" by (cases "pb_run e (push_argv e rid) w")
  obtain z w2 where z: "open_pull_request e url (branch_name rid) base (pr_title req rid) (pr_body req rid) w1 = (z, w2)"
    by (cases "open_pull_request e url (branch_name rid) base (pr_title req rid) (pr_body req rid) w1")
  have "z \<noteq> Inl (Escapes x)" for x using open_pull_request_escapes z by (metis fst_conv)
  then consider x where "z = Inl (PublishError x)" | u where "z = Inr u"
    by (metis publish_error.exhaust sum.exhaust)
  then show ?thesis
    using p z by cases (cases p; cases m;
      auto simp: publish_change_def push_branch_def Let_def m_def [symmetric])+
qed

end
