(* ===== verification/SpecGraph.thy ===== *)
theory SpecGraph
  imports Invocation Publish NodeFacts
begin

text \<open>
  \<open>agentic_control_plane/specialist_graph.py\<close>: design, a human gate, generation, a second gate,
  publication. The nodes, the routers and the edges are the source's; the runtime executes
  one node at a time and the contract of \<open>SdlcGraph\<close> applies (a node that pauses or raises
  leaves the state as it was).
\<close>

section \<open>State writes\<close>

datatype spec_write =
    SRunStatus RunStatus
  | SSafeStop bool
  | SGates "GateType \<rightharpoonup> GateRecord"
  | SPhases "string \<rightharpoonup> SpecialistPhaseResult"
  | SOutput string string
  | SCommit string bool string string
  | SEvents "AuditEvent list"
  | SFinishedAt "time option"

fun apply_spec :: "spec_write \<Rightarrow> SpecialistRunState \<Rightarrow> SpecialistRunState" where
  "apply_spec (SRunStatus v) s = s\<lparr>sr_run_status := v\<rparr>"
| "apply_spec (SSafeStop v) s = s\<lparr>sr_safe_stop := v\<rparr>"
| "apply_spec (SGates v) s = s\<lparr>sr_gates := v\<rparr>"
| "apply_spec (SPhases v) s = s\<lparr>sr_phases := v\<rparr>"
| "apply_spec (SOutput r b) s = s\<lparr>sr_output_repository := r, sr_output_branch := b\<rparr>"
| "apply_spec (SCommit sha p b d) s =
     s\<lparr>sr_commit_sha_after := Some sha, sr_published := p, sr_publish_branch := b, sr_publish_detail := d\<rparr>"
| "apply_spec (SEvents v) s = s\<lparr>sr_events := sr_events s @ v\<rparr>"
| "apply_spec (SFinishedAt v) s = s\<lparr>sr_finished_at := v\<rparr>"

definition apply_specs :: "spec_write list \<Rightarrow> SpecialistRunState \<Rightarrow> SpecialistRunState" where
  "apply_specs ws s = fold apply_spec ws s"

lemma apply_specs_simps [simp]:
  "apply_specs [] s = s" "apply_specs (x # ws) s = apply_specs ws (apply_spec x s)"
  by (simp_all add: apply_specs_def)

section \<open>What the nodes are bound to\<close>

record 'w spec_env =
  sg_specialist :: ExternalSpecialist
  sg_tenant_repo :: path
  sg_output_repo :: path
  sg_output_repository :: "string option"
  sg_output_branch :: string
  sg_run :: "'w runner"
  sg_ws :: "'w ws_env"
  sg_is_file :: "path \<Rightarrow> 'w \<Rightarrow> bool"
  sg_walk :: "path \<Rightarrow> 'w \<Rightarrow> (path \<times> bool) list option"
  sg_publish :: "'w publish_env"
  sg_float :: "string \<Rightarrow> string"

record spec_in =
  sx_clock :: clock
  sx_decision :: "decision option"
  sx_runtime :: runtime_env
  sx_duration :: int

definition DESIGN_PHASE :: string where "DESIGN_PHASE = ''design''"

definition GENERATE_PHASE :: string where "GENERATE_PHASE = ''generate''"

definition DESIGN_OUTPUT_DIRNAME :: string where "DESIGN_OUTPUT_DIRNAME = ''.specialist-design''"

definition DESIGN_ARTIFACT_NAME :: string where "DESIGN_ARTIFACT_NAME = ''design.json''"

section \<open>Nodes\<close>

definition failure_writes :: "clock \<Rightarrow> string \<Rightarrow> string \<Rightarrow> spec_write list" where
  "failure_writes c n m = [SSafeStop True, SRunStatus Failed, SFinishedAt (Some (clk_now c)), SEvents [ev c n EvSafeStop m]]"

definition record_phase :: "SpecialistResult \<Rightarrow> path \<Rightarrow> SpecialistPhaseResult" where
  "record_phase r p = \<lparr>sp_phase = si_phase r, sp_status = si_status r, sp_detail = si_detail r,
     sp_output_path = path_text p, sp_payload = si_payload r, sp_duration_seconds = si_duration_seconds r\<rparr>"

definition preflight :: "'w spec_env \<Rightarrow> spec_in \<Rightarrow> SpecialistRunState \<Rightarrow> string \<Rightarrow> spec_write list option" where
  "preflight e x s ph_name =
     (case dict_get (es_phases (sg_specialist e)) ph_name of
        None \<Rightarrow> None
      | Some ph \<Rightarrow>
          (case require_runtime (sx_runtime x) (sr_specialist s) ph_name ph of
             Inr _ \<Rightarrow> None
           | Inl r \<Rightarrow> Some (failure_writes (sx_clock x) ph_name (err_text r))))"

definition invoked ::
  "'w spec_env \<Rightarrow> spec_in \<Rightarrow> SpecialistRunState \<Rightarrow> string \<Rightarrow> (string, option_value) dict \<Rightarrow>
   ('w, invocation_error, SpecialistResult) io" where
  "invoked e x s ph options = invoke (sg_float e) (sg_run e) (sx_duration x) (sg_specialist e) (sr_specialist s) ph
     (sr_run_id s) options (sg_tenant_repo e)"

fun invocation_failure :: "clock \<Rightarrow> string \<Rightarrow> invocation_error \<Rightarrow> spec_write list node_result" where
  "invocation_failure c n (InvokeRaises r) = Raise r"
| "invocation_failure c n x = Update (failure_writes c n (invocation_text x))"

definition design_node :: "'w spec_env \<Rightarrow> spec_in \<Rightarrow> SpecialistRunState \<Rightarrow> 'w \<Rightarrow> spec_write list node_result \<times> 'w" where
  "design_node e x s w =
     (case preflight e x s DESIGN_PHASE of
        Some ws \<Rightarrow> (Update ws, w)
      | None \<Rightarrow>
          (let out = sg_tenant_repo e @ [DESIGN_OUTPUT_DIRNAME]; w1 = we_mkdirs (sg_ws e) out w in
           case invoked e x s DESIGN_PHASE
                  [(''--tenant-repo'', OneValue (path_text (sg_tenant_repo e))), (''--output'', OneValue (path_text out))] w1 of
             (Inl r, w2) \<Rightarrow> (invocation_failure (sx_clock x) DESIGN_PHASE r, w2)
           | (Inr r, w2) \<Rightarrow>
               (Update [SPhases [DESIGN_PHASE \<mapsto> record_phase r out],
                  SEvents [ev_timed (sx_clock x) DESIGN_PHASE NodeEnd
                    (''specialist '' @ quoted (sr_specialist s) @ '' produced a design: '' @ si_detail r)]], w2)))"

definition phase_detail :: "SpecialistPhaseResult option \<Rightarrow> string" where
  "phase_detail p = (case p of None \<Rightarrow> [] | Some r \<Rightarrow> sp_detail r)"

definition phase_payload :: "SpecialistPhaseResult option \<Rightarrow> json" where
  "phase_payload p = (case p of None \<Rightarrow> JObj [] | Some r \<Rightarrow> sp_payload r)"

text \<open>What both gates write for a decision; only an approval goes on.\<close>

definition gate_writes :: "clock \<Rightarrow> GateType \<Rightarrow> string \<Rightarrow> SpecialistRunState \<Rightarrow> decision \<Rightarrow> spec_write list node_result" where
  "gate_writes c g label s d =
     (case make_gate_record g d (Some (clk_now c)) of
        Inl r \<Rightarrow> Raise r
      | Inr gr \<Rightarrow> Update ([SGates ((sr_gates s)(g \<mapsto> gr)),
          SEvents [ev_decision c (gate_name g) (label @ '' review '' @ status_text d) (status_text d)]] @
          (if status_text d \<noteq> ''approved'' then [SRunStatus Completed, SFinishedAt (Some (clk_now c))] else [])))"

definition design_review_gate :: "spec_in \<Rightarrow> SpecialistRunState \<Rightarrow> spec_write list node_result" where
  "design_review_gate x s =
     (let design = sr_phases s DESIGN_PHASE in
      interrupt (sx_decision x)
        (DesignReviewPayload (sr_run_id s) (sr_specialist s) (sr_scenario s) (sr_target_repository s)
           (phase_detail design) (phase_payload design))
        (gate_writes (sx_clock x) SpecialistDesignReview ''design'' s))"

definition ensure_output_checkout :: "'w spec_env \<Rightarrow> ('w, ws_error, unit) io" where
  "ensure_output_checkout e w =
     (if git_has_dir (we_git (sg_ws e) (sg_output_repo e)) w then (Inr (), w)
      else case sg_output_repository e of
        Some url \<Rightarrow>
          if url \<noteq> [] then bind_io (clone_repository (sg_ws e) (sg_output_repo e) url (sg_output_branch e)) (\<lambda>_. ret_io ()) w
          else (Inr (), we_mkdirs (sg_ws e) (sg_output_repo e) w)
      | None \<Rightarrow> (Inr (), we_mkdirs (sg_ws e) (sg_output_repo e) w))"

definition output_repository_text :: "'w spec_env \<Rightarrow> string" where
  "output_repository_text e = get_or [] (sg_output_repository e)"

definition generate_node :: "'w spec_env \<Rightarrow> spec_in \<Rightarrow> SpecialistRunState \<Rightarrow> 'w \<Rightarrow> spec_write list node_result \<times> 'w" where
  "generate_node e x s w =
     (let c = sx_clock x; fail = (\<lambda>m. Update (failure_writes c GENERATE_PHASE m)) in
      case sr_phases s DESIGN_PHASE of
        None \<Rightarrow> (fail ''no design phase result to generate from'', w)
      | Some design \<Rightarrow>
          (case preflight e x s GENERATE_PHASE of
             Some ws \<Rightarrow> (Update ws, w)
           | None \<Rightarrow>
               (let artifact = join_path (path_parts (sp_output_path design)) DESIGN_ARTIFACT_NAME in
                if \<not> sg_is_file e artifact w
                then (fail (''the approved design is not where the design phase reported writing it ('' @ path_text artifact @
                  ''). The two phases are separate processes with no shared state, so this path is the entire hand-off between them.''), w)
                else case ensure_output_checkout e w of
                  (Inl (CloneError m), w1) \<Rightarrow> (fail m, w1)
                | (Inl (OtherError r), w1) \<Rightarrow> (Raise r, w1)
                | (Inr _, w1) \<Rightarrow>
                    (case invoked e x s GENERATE_PHASE
                        [(''--design'', OneValue (path_text artifact)),
                         (''--tenant-repo'', OneValue (path_text (sg_tenant_repo e))),
                         (''--output'', OneValue (path_text (sg_output_repo e)))] w1 of
                       (Inl r, w2) \<Rightarrow> (invocation_failure c GENERATE_PHASE r, w2)
                     | (Inr r, w2) \<Rightarrow>
                         (Update ([SPhases ((sr_phases s)(GENERATE_PHASE \<mapsto> record_phase r (sg_output_repo e))),
                             SOutput (output_repository_text e)
                               (if output_repository_text e \<noteq> [] then sg_output_branch e else []),
                             SEvents [ev_timed c GENERATE_PHASE NodeEnd (''specialist '' @ quoted (sr_specialist s) @
                               '' generated into '' @ path_text (sg_output_repo e) @ '': '' @ si_detail r)]] @
                             (if output_repository_text e = [] then [SRunStatus Completed, SFinishedAt (Some (clk_now c))] else [])), w2)))))"

definition MAX_LISTED_FILES :: nat where "MAX_LISTED_FILES = 200"

definition generated_file_names :: "'w spec_env \<Rightarrow> path \<Rightarrow> 'w \<Rightarrow> string list" where
  "generated_file_names e p w = (case sg_walk e p w of
     None \<Rightarrow> []
   | Some es \<Rightarrow> take MAX_LISTED_FILES (sort (map (\<lambda>(rel, _). replace_char backslash CHR ''/'' (join ''/'' rel))
       (filter (\<lambda>(rel, f). f \<and> ''.git'' \<notin> set p \<and> ''.git'' \<notin> set rel) es))))"

definition release_review_gate :: "'w spec_env \<Rightarrow> spec_in \<Rightarrow> SpecialistRunState \<Rightarrow> 'w \<Rightarrow> spec_write list node_result" where
  "release_review_gate e x s w =
     (let generated = sr_phases s GENERATE_PHASE in
      interrupt (sx_decision x)
        (ReleaseReviewPayload (sr_run_id s) (sr_specialist s) (sr_scenario s) (sr_output_repository s)
           (sr_output_branch s) (phase_detail generated) (phase_payload generated)
           (case generated of None \<Rightarrow> [] | Some g \<Rightarrow> generated_file_names e (path_parts (sp_output_path g)) w))
        (gate_writes (sx_clock x) MergeReleaseApproval ''release'' s))"

definition publish_detail_of :: "PublishResult \<Rightarrow> string" where
  "publish_detail_of r = or_else (get_or [] (pr_error r))
     (if pr_published r then ''published to '' @ get_or ''None'' (pr_branch r)
      else ''mode='' @ mode_text (pr_mode r) @ '', not published'')"

definition publish_node :: "'w spec_env \<Rightarrow> spec_in \<Rightarrow> SpecialistRunState \<Rightarrow> 'w \<Rightarrow> spec_write list node_result \<times> 'w" where
  "publish_node e x s w =
     (case git_commit_all (we_git (sg_ws e) (sg_output_repo e))
            (''[agentic-sdlc] generated by '' @ quoted (sr_specialist s) @ '' for run '' @ sr_run_id s) w of
        (Inl r, w1) \<Rightarrow>
          if is_git_error r then (Update (failure_writes (sx_clock x) ''publish'' (err_text r)), w1) else (Raise r, w1)
      | (Inr sha, w1) \<Rightarrow>
          (case publish_change (sg_publish e) (sr_run_id s) (sr_output_repository s)
                  (or_else (sr_output_branch s) ''main'') (sr_scenario s) w1 of
             (Inl r, w2) \<Rightarrow> (Raise r, w2)
           | (Inr r, w2) \<Rightarrow>
               (Update [SRunStatus Completed, SFinishedAt (Some (clk_now (sx_clock x))),
                  SCommit sha (pr_published r) (get_or [] (pr_branch r)) (publish_detail_of r),
                  SEvents [ev_timed (sx_clock x) ''publish'' NodeEnd
                    (''commit '' @ take 8 sha @ '': '' @ publish_detail_of r)]], w2)))"

section \<open>Routers and edges\<close>

datatype spec_node = PDesign | PDesignReview | PGenerate | PReleaseReview | PPublish

definition gate_approved :: "SpecialistRunState \<Rightarrow> GateType \<Rightarrow> bool" where
  "gate_approved s g = (case sr_gates s g of None \<Rightarrow> False | Some r \<Rightarrow> gr_status r = Approved)"

fun spec_next :: "spec_node \<Rightarrow> SpecialistRunState \<Rightarrow> spec_node option" where
  "spec_next PDesign s = (if sr_safe_stop s then None else Some PDesignReview)"
| "spec_next PDesignReview s = (if gate_approved s SpecialistDesignReview then Some PGenerate else None)"
| "spec_next PGenerate s =
     (if sr_safe_stop s then None else if sr_output_repository s \<noteq> [] then Some PReleaseReview else None)"
| "spec_next PReleaseReview s = (if gate_approved s MergeReleaseApproval then Some PPublish else None)"
| "spec_next PPublish s = None"

fun run_spec_node :: "'w spec_env \<Rightarrow> spec_in \<Rightarrow> spec_node \<Rightarrow> SpecialistRunState \<Rightarrow> 'w \<Rightarrow> spec_write list node_result \<times> 'w" where
  "run_spec_node e x PDesign s w = design_node e x s w"
| "run_spec_node e x PDesignReview s w = (design_review_gate x s, w)"
| "run_spec_node e x PGenerate s w = generate_node e x s w"
| "run_spec_node e x PReleaseReview s w = (release_review_gate e x s w, w)"
| "run_spec_node e x PPublish s w = publish_node e x s w"

record 'w spec_config =
  sc_state :: SpecialistRunState
  sc_node :: "spec_node option"
  sc_world :: 'w

text \<open>One step: \<open>None\<close> for a node that paused or raised, whose configuration stays but for the world.\<close>

definition spec_superstep :: "'w spec_env \<Rightarrow> spec_in \<Rightarrow> 'w spec_config \<Rightarrow> 'w spec_config" where
  "spec_superstep e x c =
     (case sc_node c of
        None \<Rightarrow> c
      | Some n \<Rightarrow>
          (case run_spec_node e x n (sc_state c) (sc_world c) of
             (Update us, w) \<Rightarrow>
               (let s = apply_specs us (sc_state c) in \<lparr>sc_state = s, sc_node = spec_next n s, sc_world = w\<rparr>)
           | (_, w) \<Rightarrow> c\<lparr>sc_world := w\<rparr>))"

definition spec_start :: "string \<Rightarrow> string \<Rightarrow> string \<Rightarrow> string \<Rightarrow> time \<Rightarrow> 'w \<Rightarrow> 'w spec_config" where
  "spec_start rid sp sc target now w =
     \<lparr>sc_state = new_specialist_state rid sp sc target now, sc_node = Some PDesign, sc_world = w\<rparr>"

inductive spec_reachable :: "'w spec_env \<Rightarrow> 'w spec_config \<Rightarrow> 'w spec_config \<Rightarrow> bool" for e :: "'w spec_env" and c0 :: "'w spec_config" where
  refl: "spec_reachable e c0 c0"
| step: "spec_reachable e c0 c \<Longrightarrow> spec_reachable e c0 (spec_superstep e x c)"

section \<open>What the nodes write\<close>

definition failed_writes :: "spec_write list \<Rightarrow> bool" where
  "failed_writes us \<longleftrightarrow> (\<exists>t evs. us = [SSafeStop True, SRunStatus Failed, SFinishedAt (Some t), SEvents evs])"

lemma failed_failure_writes [simp]: "failed_writes (failure_writes c n m)"
  by (simp add: failed_writes_def failure_writes_def)

lemma preflight_failed: "preflight e x s ph = Some ws \<Longrightarrow> failed_writes ws"
  by (auto simp: preflight_def split: option.splits sum.splits)

lemma invocation_failed: "invocation_failure c n r = Update us \<Longrightarrow> failed_writes us"
  by (cases r) auto

lemma design_node_effect:
  "design_node e x s w = (Update us, w') \<Longrightarrow>
     failed_writes us \<or> (\<exists>r evs. us = [SPhases [DESIGN_PHASE \<mapsto> r], SEvents evs])"
  by (auto simp: design_node_def Let_def split: option.splits prod.splits sum.splits
      dest: preflight_failed invocation_failed)

definition ends :: "bool \<Rightarrow> time \<Rightarrow> spec_write list" where
  "ends b t = (if b then [SRunStatus Completed, SFinishedAt (Some t)] else [])"

lemma gate_writes_effect:
  "gate_writes c g l s d = Update us \<Longrightarrow>
     \<exists>gr evs t. us = [SGates ((sr_gates s)(g \<mapsto> gr)), SEvents evs] @ ends (gr_status gr \<noteq> Approved) t"
proof -
  assume g: "gate_writes c g l s d = Update us"
  then obtain gr where gr: "make_gate_record g d (Some (clk_now c)) = Inr gr"
    by (auto simp: gate_writes_def split: sum.splits)
  have "status_text d = ''approved'' \<longleftrightarrow> gr_status gr = Approved"
    using make_gate_record_Inr [OF gr] read_status_Approved [of "status_text d"] by (simp add: status_text_def)
  then show ?thesis using g gr
    by (intro exI [of _ gr]) (auto simp: gate_writes_def ends_def)
qed

lemma review_effect:
  "design_review_gate x s = Update us \<Longrightarrow>
     \<exists>gr evs t. us = [SGates ((sr_gates s)(SpecialistDesignReview \<mapsto> gr)), SEvents evs] @ ends (gr_status gr \<noteq> Approved) t"
  "release_review_gate e x s w = Update us \<Longrightarrow>
     \<exists>gr evs t. us = [SGates ((sr_gates s)(MergeReleaseApproval \<mapsto> gr)), SEvents evs] @ ends (gr_status gr \<noteq> Approved) t"
  unfolding design_review_gate_def release_review_gate_def Let_def interrupt_def
  by (auto split: option.splits dest!: gate_writes_effect simp del: append_Cons)

lemma generate_node_effect:
  "generate_node e x s w = (Update us, w') \<Longrightarrow>
     failed_writes us \<or>
     (\<exists>r url b evs t. us = [SPhases ((sr_phases s)(GENERATE_PHASE \<mapsto> r)), SOutput url b, SEvents evs] @ ends (url = []) t)"
  by (auto simp: generate_node_def Let_def ends_def split: option.splits prod.splits sum.splits if_splits ws_error.splits
      dest: preflight_failed invocation_failed)

lemma publish_node_effect:
  "publish_node e x s w = (Update us, w') \<Longrightarrow>
     failed_writes us \<or>
     (\<exists>t sha p b d evs. us = [SRunStatus Completed, SFinishedAt (Some t), SCommit sha p b d, SEvents evs])"
  by (auto simp: publish_node_def Let_def split: prod.splits sum.splits if_splits)

section \<open>The invariant of a specialist run\<close>

definition spec_open :: "SpecialistRunState \<Rightarrow> bool" where
  "spec_open s \<longleftrightarrow> sr_run_status s = Running \<and> sr_finished_at s = None \<and> \<not> sr_safe_stop s"

definition spec_closed :: "SpecialistRunState \<Rightarrow> bool" where
  "spec_closed s \<longleftrightarrow> sr_finished_at s \<noteq> None \<and>
     (sr_run_status s = Completed \<and> \<not> sr_safe_stop s \<or>
      sr_run_status s = Failed \<and> sr_safe_stop s \<and> sr_commit_sha_after s = None)"

definition stage_ok :: "spec_node option \<Rightarrow> SpecialistRunState \<Rightarrow> bool" where
  "stage_ok n s \<longleftrightarrow> (case n of
     None \<Rightarrow> True
   | Some PDesign \<Rightarrow> sr_gates s = Map.empty \<and> sr_phases s GENERATE_PHASE = None
   | Some PDesignReview \<Rightarrow> sr_gates s = Map.empty \<and> sr_phases s GENERATE_PHASE = None
   | Some PGenerate \<Rightarrow> gate_approved s SpecialistDesignReview
   | Some PReleaseReview \<Rightarrow> gate_approved s SpecialistDesignReview \<and> sr_output_repository s \<noteq> []
   | Some PPublish \<Rightarrow> gate_approved s SpecialistDesignReview \<and> gate_approved s MergeReleaseApproval \<and> sr_output_repository s \<noteq> [])"

definition spec_inv :: "SpecialistRunState \<Rightarrow> spec_node option \<Rightarrow> bool" where
  "spec_inv s n \<longleftrightarrow> stage_ok n s \<and>
     (if n = None then spec_closed s else spec_open s \<and> sr_commit_sha_after s = None \<and> \<not> sr_published s) \<and>
     (sr_published s \<longrightarrow> sr_commit_sha_after s \<noteq> None) \<and>
     (sr_commit_sha_after s \<noteq> None \<longrightarrow> gate_approved s SpecialistDesignReview \<and>
        gate_approved s MergeReleaseApproval \<and> sr_output_repository s \<noteq> []) \<and>
     (sr_phases s GENERATE_PHASE \<noteq> None \<longrightarrow> gate_approved s SpecialistDesignReview)"

lemma phase_names [simp]: "DESIGN_PHASE \<noteq> GENERATE_PHASE" "GENERATE_PHASE \<noteq> DESIGN_PHASE"
  by (simp_all add: DESIGN_PHASE_def GENERATE_PHASE_def)

lemmas spec_inv_defs = spec_inv_def stage_ok_def spec_open_def spec_closed_def gate_approved_def ends_def

lemma spec_inv_failed:
  assumes "spec_inv s (Some n)" "failed_writes us" "n \<noteq> PDesignReview" "n \<noteq> PReleaseReview"
  shows "spec_inv (apply_specs us s) (spec_next n (apply_specs us s))"
proof -
  obtain t evs where us: "us = [SSafeStop True, SRunStatus Failed, SFinishedAt (Some t), SEvents evs]"
    using assms(2) by (auto simp: failed_writes_def)
  show ?thesis by (cases n) (use assms in \<open>auto simp: us spec_inv_defs split: option.splits\<close>)
qed

lemma spec_inv_step:
  assumes I: "spec_inv s (Some n)" and run: "run_spec_node e x n s w = (Update us, w')"
  shows "spec_inv (apply_specs us s) (spec_next n (apply_specs us s))"
proof (cases "failed_writes us")
  case True
  have "n \<noteq> PDesignReview \<and> n \<noteq> PReleaseReview"
    using True run by (cases n) (auto simp: failed_writes_def dest!: review_effect)
  then show ?thesis using spec_inv_failed [OF I True] by simp
next
  case ok: False
  show ?thesis
  proof (cases n)
    case PDesign
    then have "design_node e x s w = (Update us, w')" using run by simp
    from design_node_effect [OF this] ok obtain r evs where "us = [SPhases [DESIGN_PHASE \<mapsto> r], SEvents evs]" by blast
    then show ?thesis using I PDesign by (auto simp: spec_inv_defs split: option.splits)
  next
    case PDesignReview
    then have "design_review_gate x s = Update us" using run by simp
    from review_effect(1) [OF this] obtain gr evs t where
      "us = [SGates ((sr_gates s)(SpecialistDesignReview \<mapsto> gr)), SEvents evs] @ ends (gr_status gr \<noteq> Approved) t" by blast
    then show ?thesis using I PDesignReview by (cases "gr_status gr = Approved") (auto simp: spec_inv_defs split: option.splits)
  next
    case PGenerate
    then have "generate_node e x s w = (Update us, w')" using run by simp
    from generate_node_effect [OF this] ok obtain r url b evs t where
      "us = [SPhases ((sr_phases s)(GENERATE_PHASE \<mapsto> r)), SOutput url b, SEvents evs] @ ends (url = []) t" by blast
    then show ?thesis using I PGenerate by (cases "url = []") (auto simp: spec_inv_defs split: option.splits)
  next
    case PReleaseReview
    then have "release_review_gate e x s w = Update us" using run by auto
    from review_effect(2) [OF this] obtain gr evs t where
      "us = [SGates ((sr_gates s)(MergeReleaseApproval \<mapsto> gr)), SEvents evs] @ ends (gr_status gr \<noteq> Approved) t" by blast
    then show ?thesis using I PReleaseReview by (cases "gr_status gr = Approved") (auto simp: spec_inv_defs split: option.splits)
  next
    case PPublish
    then have "publish_node e x s w = (Update us, w')" using run by simp
    from publish_node_effect [OF this] ok obtain t sha p b d evs where
      "us = [SRunStatus Completed, SFinishedAt (Some t), SCommit sha p b d, SEvents evs]" by blast
    then show ?thesis using I PPublish by (auto simp: spec_inv_defs split: option.splits)
  qed
qed

lemma spec_inv_start: "spec_inv (new_specialist_state rid sp sc target now) (Some PDesign)"
  by (simp add: spec_inv_defs new_specialist_state_def)

lemma spec_inv_reachable:
  "spec_reachable e (spec_start rid sp sc target now w) c \<Longrightarrow> spec_inv (sc_state c) (sc_node c)"
proof (induction rule: spec_reachable.induct)
  case refl
  then show ?case using spec_inv_start by (simp add: spec_start_def)
next
  case (step c x)
  show ?case
  proof (cases "sc_node c")
    case None
    then show ?thesis using step.IH by (simp add: spec_superstep_def)
  next
    case (Some n)
    obtain r w' where r: "run_spec_node e x n (sc_state c) (sc_world c) = (r, w')"
      by (cases "run_spec_node e x n (sc_state c) (sc_world c)")
    show ?thesis
    proof (cases r)
      case (Update us)
      then show ?thesis using spec_inv_step [of "sc_state c" n e x "sc_world c" us w'] step.IH Some r
        by (simp add: spec_superstep_def Let_def)
    qed (use step.IH Some r in \<open>simp_all add: spec_superstep_def\<close>)
  qed
qed

section \<open>Progress\<close>

fun spec_rank :: "spec_node option \<Rightarrow> nat" where
  "spec_rank None = 0"
| "spec_rank (Some PDesign) = 5"
| "spec_rank (Some PDesignReview) = 4"
| "spec_rank (Some PGenerate) = 3"
| "spec_rank (Some PReleaseReview) = 2"
| "spec_rank (Some PPublish) = 1"

lemma spec_next_rank: "spec_rank (spec_next n s) < spec_rank (Some n)"
  by (cases n) auto

text \<open>A run driven to its end, to a pause or to a raise: \<open>None\<close> only when the fuel is out.\<close>

fun spec_run :: "'w spec_env \<Rightarrow> (nat \<Rightarrow> spec_in) \<Rightarrow> nat \<Rightarrow> nat \<Rightarrow> 'w spec_config \<Rightarrow> 'w spec_config option" where
  "spec_run e xs k fuel c =
     (if sc_node c = None then Some c
      else case fuel of
        0 \<Rightarrow> None
      | Suc f \<Rightarrow>
          (let c' = spec_superstep e (xs k) c in
           if sc_node c' = sc_node c then Some c' else spec_run e xs (Suc k) f c'))"

declare spec_run.simps [simp del]

lemma spec_superstep_rank:
  "sc_node (spec_superstep e x c) = sc_node c \<or> spec_rank (sc_node (spec_superstep e x c)) < spec_rank (sc_node c)"
  using spec_next_rank
  by (auto simp: spec_superstep_def Let_def split: option.splits prod.splits node_result.splits)

lemma spec_run_enough: "spec_rank (sc_node c) \<le> fuel \<Longrightarrow> spec_run e xs k fuel c \<noteq> None"
proof (induction fuel arbitrary: k c)
  case 0
  then have "sc_node c = None" by (cases "sc_node c" rule: option.exhaust; cases "the (sc_node c)") auto
  then show ?case by (simp add: spec_run.simps)
next
  case (Suc f)
  have "spec_run e xs (Suc k) f (spec_superstep e (xs k) c) \<noteq> None"
    if "sc_node (spec_superstep e (xs k) c) \<noteq> sc_node c"
    using spec_superstep_rank [of e "xs k" c] that Suc.prems by (intro Suc.IH) auto
  then show ?case by (subst spec_run.simps) (auto simp: Let_def)
qed

lemma spec_run_reachable:
  "spec_run e xs k fuel c = Some c' \<Longrightarrow> spec_reachable e c0 c \<Longrightarrow> spec_reachable e c0 c'"
proof (induction fuel arbitrary: k c)
  case 0
  then show ?case by (auto simp: spec_run.simps split: if_splits)
next
  case (Suc f)
  have next_ok: "spec_reachable e c0 (spec_superstep e (xs k) c)" using Suc.prems(2) by (rule spec_reachable.step)
  from Suc.prems(1) show ?case
    by (subst (asm) spec_run.simps) (use Suc.IH next_ok Suc.prems(2) in \<open>auto simp: Let_def split: if_splits\<close>)
qed

section \<open>A run to its end\<close>

text \<open>A world in which every process succeeds: the specialist answers, git has something to commit.\<close>

definition demo_answer :: string where
  "demo_answer = dumps (JObj [(''status'', JStr ''ok''), (''phase'', JStr ''p''), (''run_id'', JStr ''r1''), (''detail'', JStr ''d'')])"

definition demo_phase :: SpecialistPhase where
  "demo_phase = \<lparr>ph_args = [''go''], ph_requires = \<lparr>rq_executables = [], rq_docker_daemon = False\<rparr>, ph_timeout_seconds = 9\<rparr>"

definition demo_spec_ws :: "unit ws_env" where
  "demo_spec_ws = \<lparr>we_pat = \<lparr>pe_file = None, pe_var = []\<rparr>, we_root = [''ws''], we_exists = (\<lambda>_ _. False),
     we_rmtree = (\<lambda>_ w. w), we_mkdirs = (\<lambda>_ w. w), we_run = (\<lambda>_ _ w. (Exited 0 [] [], w)),
     we_git = (\<lambda>_. \<lparr>git_run = (\<lambda>_ w. (Exited 0 ''c0ffee'' [], w)), git_has_dir = (\<lambda>_. True), git_mkdir = id, git_where = ''/ws''\<rparr>),
     we_committer = (''cp'', ''cp@x'')\<rparr>"

definition demo_publish :: "unit publish_env" where
  "demo_publish = \<lparr>pb_mode = Some ''branch'', pb_pat = \<lparr>pe_file = None, pe_var = []\<rparr>,
     pb_run = (\<lambda>_ w. (Exited 0 [] [], w)), pb_post = (\<lambda>_ _ _ w. (HttpFailed [], w)), pb_float = id\<rparr>"

definition demo_spec_env :: "unit spec_env" where
  "demo_spec_env = \<lparr>sg_specialist = \<lparr>es_command = ''port'', es_distribution = None,
       es_phases = [(DESIGN_PHASE, demo_phase), (GENERATE_PHASE, demo_phase)]\<rparr>,
     sg_tenant_repo = [''ws'', ''r1''], sg_output_repo = [''out'', ''r1''], sg_output_repository = Some ''https://h/o/new'',
     sg_output_branch = ''main'', sg_run = (\<lambda>_ _ _ w. (Exited 0 demo_answer [], w)), sg_ws = demo_spec_ws,
     sg_is_file = (\<lambda>_ _. True), sg_walk = (\<lambda>_ _. None), sg_publish = demo_publish, sg_float = id\<rparr>"

definition demo_spec_in :: spec_in where
  "demo_spec_in = \<lparr>sx_clock = \<lparr>clk_now = 7, clk_ms = 1\<rparr>, sx_decision = Some \<lparr>d_status = Some ''approved'', d_decided_by = None,
       d_decided_by_identity = None, d_override_guardrails = None, d_comment = None, d_clarified_requirement = None,
       d_replayed_from_fixture = None\<rparr>,
     sx_runtime = \<lparr>de_which = (\<lambda>_. True), de_docker_host = [], de_af_unix = False, de_path_exists = (\<lambda>_. False),
       de_recv = (\<lambda>_. None), de_info = SpawnFailed []\<rparr>, sx_duration = 1\<rparr>"

definition demo_spec_start :: "unit spec_config" where
  "demo_spec_start = spec_start ''r1'' ''port'' ''modernise'' ''Legacy'' 0 ()"

lemma demo_spec_done:
  "case spec_run demo_spec_env (\<lambda>_. demo_spec_in) 0 5 demo_spec_start of
     Some c \<Rightarrow> sc_node c = None \<and> sr_published (sc_state c) | None \<Rightarrow> False"
  by code_simp

lemma demo_spec_final:
  "\<exists>c. spec_reachable demo_spec_env demo_spec_start c \<and> sc_node c = None \<and> sr_published (sc_state c)"
proof -
  obtain c where c: "spec_run demo_spec_env (\<lambda>_. demo_spec_in) 0 5 demo_spec_start = Some c"
      "sc_node c = None \<and> sr_published (sc_state c)"
    using demo_spec_done by (simp split: option.splits)
  from spec_run_reachable [OF c(1) spec_reachable.refl] c(2) show ?thesis by blast
qed

section \<open>Properties\<close>

text \<open>
  C14: nothing is committed or published without both approvals. In every state a specialist
  run can reach, a recorded commit or a publication means that the design gate and the
  release gate each hold an approval and that the route names an output repository; and a
  generation result means at least that the design was approved.
\<close>

theorem specialist_gates_guard_delivery:
  assumes "spec_reachable e (spec_start rid sp sc target now w) c"
  shows "(sr_commit_sha_after (sc_state c) \<noteq> None \<or> sr_published (sc_state c) \<longrightarrow>
      gate_approved (sc_state c) SpecialistDesignReview \<and> gate_approved (sc_state c) MergeReleaseApproval \<and>
      sr_output_repository (sc_state c) \<noteq> [] \<and> sc_node c = None \<and> sr_run_status (sc_state c) = Completed) \<and>
    (sr_phases (sc_state c) GENERATE_PHASE \<noteq> None \<longrightarrow> gate_approved (sc_state c) SpecialistDesignReview)"
  using spec_inv_reachable [OF assms] by (auto simp: spec_inv_def spec_closed_def split: if_splits)

lemma specialist_gates_guard_delivery_witness:
  "\<exists>c. spec_reachable demo_spec_env demo_spec_start c \<and> sr_published (sc_state c) \<and>
     gate_approved (sc_state c) SpecialistDesignReview \<and> gate_approved (sc_state c) MergeReleaseApproval"
proof -
  obtain c where c: "spec_reachable demo_spec_env demo_spec_start c" "sr_published (sc_state c)"
    using demo_spec_final by blast
  with specialist_gates_guard_delivery [OF c(1) [unfolded demo_spec_start_def]] show ?thesis by blast
qed

text \<open>
  C15: the publisher is out of reach until the release gate approved. From any state a run can
  reach in which the release gate holds no approval, a superstep does the same whatever
  the publisher - its mode, its push, its pull request - would do.
\<close>

theorem publisher_untouched_before_release:
  assumes "spec_reachable e (spec_start rid sp sc target now w) c"
    and "\<not> gate_approved (sc_state c) MergeReleaseApproval"
  shows "spec_superstep (e\<lparr>sg_publish := p\<rparr>) x c = spec_superstep e x c"
proof -
  have frame: "preflight (e\<lparr>sg_publish := p\<rparr>) x s ph = preflight e x s ph"
    "invoked (e\<lparr>sg_publish := p\<rparr>) x s ph opts = invoked e x s ph opts"
    "ensure_output_checkout (e\<lparr>sg_publish := p\<rparr>) = ensure_output_checkout e"
    "generated_file_names (e\<lparr>sg_publish := p\<rparr>) d w' = generated_file_names e d w'" for s ph opts d w'
    by (auto simp: preflight_def invoked_def ensure_output_checkout_def generated_file_names_def fun_eq_iff cong: option.case_cong if_cong)
  have "sc_node c \<noteq> Some PPublish"
    using spec_inv_reachable [OF assms(1)] assms(2) by (auto simp: spec_inv_def stage_ok_def)
  then have "run_spec_node (e\<lparr>sg_publish := p\<rparr>) x n (sc_state c) (sc_world c) = run_spec_node e x n (sc_state c) (sc_world c)"
    if "sc_node c = Some n" for n
    using that by (cases n) (simp_all add: design_node_def generate_node_def release_review_gate_def
      output_repository_text_def frame cong: option.case_cong sum.case_cong prod.case_cong ws_error.case_cong if_cong)
  then show ?thesis by (simp add: spec_superstep_def split: option.splits)
qed

lemma publisher_untouched_before_release_witness:
  "spec_superstep (demo_spec_env\<lparr>sg_publish := demo_publish\<lparr>pb_mode := None\<rparr>\<rparr>) demo_spec_in demo_spec_start =
   spec_superstep demo_spec_env demo_spec_in demo_spec_start"
  unfolding demo_spec_start_def
  by (rule publisher_untouched_before_release [OF spec_reachable.refl])
    (simp add: spec_start_def new_specialist_state_def gate_approved_def)

text \<open>
  C16: a specialist run ends, in a state that says how. Within five supersteps it has reached
  its end, is paused at a gate, or stopped at a raise. While a node is left the run is
  running; at the end it has an end time and is completed without a safe stop, or failed with one.
\<close>

theorem specialist_run_ends:
  assumes "start = spec_start rid sp sc target now w" "5 \<le> fuel"
  shows "\<exists>c. spec_run e xs 0 fuel start = Some c \<and>
    (if sc_node c = None
     then sr_finished_at (sc_state c) \<noteq> None \<and>
       (sr_run_status (sc_state c) = Completed \<and> \<not> sr_safe_stop (sc_state c) \<or>
        sr_run_status (sc_state c) = Failed \<and> sr_safe_stop (sc_state c) \<and> sr_commit_sha_after (sc_state c) = None)
     else sr_run_status (sc_state c) = Running \<and> sr_finished_at (sc_state c) = None \<and> \<not> sr_safe_stop (sc_state c))"
proof -
  have "spec_run e xs 0 fuel start \<noteq> None" using assms by (intro spec_run_enough) (simp add: spec_start_def)
  then obtain c where c: "spec_run e xs 0 fuel start = Some c" by blast
  have "spec_inv (sc_state c) (sc_node c)"
    using spec_inv_reachable [OF spec_run_reachable [OF c spec_reachable.refl, unfolded assms(1)]] .
  with c show ?thesis by (auto simp: spec_inv_def spec_closed_def spec_open_def split: if_splits)
qed

lemma specialist_run_ends_witness: "\<exists>c. spec_run demo_spec_env (\<lambda>_. demo_spec_in) 0 5 demo_spec_start = Some c"
  using specialist_run_ends [of demo_spec_start "''r1''" "''port''" "''modernise''" "''Legacy''" 0 "()" 5
      demo_spec_env "\<lambda>_. demo_spec_in"]
  by (auto simp: demo_spec_start_def)

end
