(* ===== verification/Stores.thy ===== *)
theory Stores
  imports Invocation
begin

text \<open>
  \<open>agentic_control_plane/run_targets.py\<close> and \<open>inbox.py\<close>: the two small tables of the service.
  A Postgres table is its rows together with what the next statements meet: each operation
  opens a connection of its own and either succeeds or raises without an effect. What the
  clients rely on is stated as interfaces, and both implementations of the target store,
  and the inbox, are shown to provide them.
\<close>

section \<open>A database that may refuse\<close>

record 'r pg =
  pg_rows :: 'r
  pg_answers :: "string option list"

text \<open>The answer to the next statement: \<open>None\<close> when it goes through, else what is raised.\<close>

definition next_answer :: "'r pg \<Rightarrow> string option \<times> 'r pg" where
  "next_answer db = (case pg_answers db of [] \<Rightarrow> (None, db) | a # as \<Rightarrow> (a, db\<lparr>pg_answers := as\<rparr>))"

lemma next_answer_rows [simp]: "next_answer db = (a, db') \<Longrightarrow> pg_rows db' = pg_rows db"
  by (auto simp: next_answer_def split: list.splits)

section \<open>Delivery targets\<close>

record RunTarget =
  tg_repo_url :: string
  tg_branch :: string
  tg_scenario_type :: string
  tg_commit_sha_before :: "string option"

record 's target_ops =
  op_record :: "string \<Rightarrow> RunTarget \<Rightarrow> 's \<Rightarrow> (string, unit) result \<times> 's"
  op_get :: "string \<Rightarrow> 's \<Rightarrow> RunTarget option \<times> 's"
  op_forget :: "string \<Rightarrow> 's \<Rightarrow> 's"

text \<open>
  What the worker may rely on. Recording raises or records; reading and forgetting never
  raise, and at worst do nothing.
\<close>

locale target_store =
  fixes ops :: "'s target_ops" and content :: "'s \<Rightarrow> string \<rightharpoonup> RunTarget"
  assumes record_ok: "op_record ops r t s = (Inr u, s') \<Longrightarrow> content s' = (content s)(r \<mapsto> t)"
    and record_refused: "op_record ops r t s = (Inl m, s') \<Longrightarrow> content s' = content s"
    and get_keeps: "content (snd (op_get ops r s)) = content s"
    and get_sound: "fst (op_get ops r s) = Some t \<Longrightarrow> content s r = Some t"
    and forget_own: "content (op_forget ops r s) = content s \<or> content (op_forget ops r s) = (content s)(r := None)"

locale reliable_target_store = target_store +
  assumes record_total: "fst (op_record ops r t s) = Inr ()"
    and get_complete: "fst (op_get ops r s) = content s r"
    and forget_exact: "content (op_forget ops r s) = (content s)(r := None)"

text \<open>A history of calls on a store.\<close>

datatype target_call = RecordTarget string RunTarget | ReadTarget string | ForgetTarget string

fun call_target :: "'s target_ops \<Rightarrow> target_call \<Rightarrow> 's \<Rightarrow> 's" where
  "call_target ops (RecordTarget r t) s = snd (op_record ops r t s)"
| "call_target ops (ReadTarget r) s = snd (op_get ops r s)"
| "call_target ops (ForgetTarget r) s = op_forget ops r s"

definition call_targets :: "'s target_ops \<Rightarrow> target_call list \<Rightarrow> 's \<Rightarrow> 's" where
  "call_targets ops cs s = fold (call_target ops) cs s"

fun writes_run :: "string \<Rightarrow> target_call \<Rightarrow> bool" where
  "writes_run r (RecordTarget r' _) = (r' = r)"
| "writes_run r (ReadTarget _) = False"
| "writes_run r (ForgetTarget r') = (r' = r)"

context target_store
begin

lemma record_cases:
  "content (snd (op_record ops r t s)) = (content s)(r \<mapsto> t) \<or> content (snd (op_record ops r t s)) = content s"
proof -
  obtain a s' where a: "op_record ops r t s = (a, s')" by (cases "op_record ops r t s")
  show ?thesis
  proof (cases a)
    case (Inl m)
    with a record_refused show ?thesis by simp
  next
    case (Inr u)
    with a record_ok show ?thesis by simp
  qed
qed

lemma call_keeps_others: "\<not> writes_run r c \<Longrightarrow> content (call_target ops c s) r = content s r"
proof (cases c)
  case (RecordTarget r' t)
  assume "\<not> writes_run r c"
  with RecordTarget show ?thesis using record_cases [of r' t s] by auto
next
  case (ReadTarget r')
  then show ?thesis by (simp add: get_keeps)
next
  case (ForgetTarget r')
  assume "\<not> writes_run r c"
  with ForgetTarget show ?thesis using forget_own [of r' s] by auto
qed

lemma calls_keep_others:
  "(\<And>c. c \<in> set cs \<Longrightarrow> \<not> writes_run r c) \<Longrightarrow> content (call_targets ops cs s) r = content s r"
  unfolding call_targets_def
proof (induction cs arbitrary: s)
  case Nil
  then show ?case by simp
next
  case (Cons c cs)
  then show ?case using call_keeps_others [of r c s] by simp
qed

text \<open>A target once recorded is what every later read gives, if it gives anything.\<close>

lemma recorded_is_read:
  assumes "op_record ops r t s = (Inr u, s1)" "\<And>c. c \<in> set cs \<Longrightarrow> \<not> writes_run r c"
  shows "content (call_targets ops cs s1) r = Some t \<and> fst (op_get ops r (call_targets ops cs s1)) \<in> {None, Some t}"
proof -
  have "content (call_targets ops cs s1) r = Some t"
    using calls_keep_others [OF assms(2)] record_ok [OF assms(1)] by simp
  moreover have "fst (op_get ops r (call_targets ops cs s1)) = Some t' \<Longrightarrow> t' = t" for t'
    using get_sound [of r "call_targets ops cs s1" t'] calculation by simp
  ultimately show ?thesis by (cases "fst (op_get ops r (call_targets ops cs s1))") auto
qed

end

subsection \<open>In memory\<close>

type_synonym memory_targets = "string \<rightharpoonup> RunTarget"

definition memory_record :: "string \<Rightarrow> RunTarget \<Rightarrow> memory_targets \<Rightarrow> (string, unit) result \<times> memory_targets" where
  "memory_record r t m = (Inr (), m(r \<mapsto> t))"

definition memory_get :: "string \<Rightarrow> memory_targets \<Rightarrow> RunTarget option \<times> memory_targets" where
  "memory_get r m = (m r, m)"

definition memory_forget :: "string \<Rightarrow> memory_targets \<Rightarrow> memory_targets" where
  "memory_forget r m = m(r := None)"

definition InMemoryRunTargets :: "memory_targets target_ops" where
  "InMemoryRunTargets = \<lparr>op_record = memory_record, op_get = memory_get, op_forget = memory_forget\<rparr>"

definition new_memory_targets :: memory_targets where
  "new_memory_targets = Map.empty"

interpretation memory: reliable_target_store InMemoryRunTargets "\<lambda>m. m"
  by unfold_locales (auto simp: InMemoryRunTargets_def memory_record_def memory_get_def memory_forget_def)

subsection \<open>In Postgres\<close>

type_synonym target_table = "(string \<rightharpoonup> RunTarget) pg"

text \<open>The upsert: a row that exists has its columns overwritten.\<close>

definition upsert :: "string \<Rightarrow> RunTarget \<Rightarrow> (string \<rightharpoonup> RunTarget) \<Rightarrow> string \<rightharpoonup> RunTarget" where
  "upsert r t rows = (case rows r of
     None \<Rightarrow> rows(r \<mapsto> t)
   | Some old \<Rightarrow> rows(r \<mapsto> old\<lparr>tg_repo_url := tg_repo_url t, tg_branch := tg_branch t,
       tg_scenario_type := tg_scenario_type t, tg_commit_sha_before := tg_commit_sha_before t\<rparr>))"

definition pg_record :: "string \<Rightarrow> RunTarget \<Rightarrow> target_table \<Rightarrow> (string, unit) result \<times> target_table" where
  "pg_record r t db = (case next_answer db of
     (Some m, db') \<Rightarrow> (Inl m, db')
   | (None, db') \<Rightarrow> (Inr (), db'\<lparr>pg_rows := upsert r t (pg_rows db')\<rparr>))"

definition pg_get :: "string \<Rightarrow> target_table \<Rightarrow> RunTarget option \<times> target_table" where
  "pg_get r db = (case next_answer db of
     (Some m, db') \<Rightarrow> (None, db')
   | (None, db') \<Rightarrow> (pg_rows db' r, db'))"

definition pg_forget :: "string \<Rightarrow> target_table \<Rightarrow> target_table" where
  "pg_forget r db = (case next_answer db of
     (Some m, db') \<Rightarrow> db'
   | (None, db') \<Rightarrow> db'\<lparr>pg_rows := (pg_rows db')(r := None)\<rparr>)"

definition PostgresRunTargets :: "target_table target_ops" where
  "PostgresRunTargets = \<lparr>op_record = pg_record, op_get = pg_get, op_forget = pg_forget\<rparr>"

lemma upsert_upd [simp]: "upsert r t rows = rows(r \<mapsto> t)"
proof -
  have all: "old\<lparr>tg_repo_url := tg_repo_url t, tg_branch := tg_branch t, tg_scenario_type := tg_scenario_type t,
      tg_commit_sha_before := tg_commit_sha_before t\<rparr> = t" for old :: RunTarget
    by (rule RunTarget.equality) simp_all
  show ?thesis unfolding upsert_def by (cases "rows r") (simp_all only: option.case all)
qed

interpretation postgres: target_store PostgresRunTargets pg_rows
  by unfold_locales (auto simp: PostgresRunTargets_def pg_record_def pg_get_def pg_forget_def split: prod.splits option.splits)

section \<open>The inbox\<close>

text \<open>A row: its serial id, the kind of work, the run, and the fields of the work item.\<close>

record inbox_row =
  ir_id :: nat
  ir_kind :: string
  ir_run_id :: string
  ir_payload :: "(string, json) dict"

record inbox_table =
  it_rows :: "inbox_row list"
  it_next :: nat

type_synonym inbox = "inbox_table pg"

definition new_inbox :: inbox where
  "new_inbox = \<lparr>pg_rows = \<lparr>it_rows = [], it_next = 1\<rparr>, pg_answers = []\<rparr>"

definition inbox_record :: "string \<Rightarrow> string \<Rightarrow> (string, json) dict \<Rightarrow> inbox \<Rightarrow> (string, nat) result \<times> inbox" where
  "inbox_record kind r payload db = (case next_answer db of
     (Some m, db') \<Rightarrow> (Inl m, db')
   | (None, db') \<Rightarrow>
       (let t = pg_rows db' in
        (Inr (it_next t), db'\<lparr>pg_rows := \<lparr>it_rows = it_rows t @ [\<lparr>ir_id = it_next t, ir_kind = kind, ir_run_id = r, ir_payload = payload\<rparr>],
           it_next = Suc (it_next t)\<rparr>\<rparr>)))"

definition inbox_discard :: "nat \<Rightarrow> inbox \<Rightarrow> inbox" where
  "inbox_discard i db = (case next_answer db of
     (Some m, db') \<Rightarrow> db'
   | (None, db') \<Rightarrow> db'\<lparr>pg_rows := (pg_rows db')\<lparr>it_rows := filter (\<lambda>row. ir_id row \<noteq> i) (it_rows (pg_rows db'))\<rparr>\<rparr>)"

definition inbox_pending :: "inbox \<Rightarrow> (string, (nat \<times> string \<times> (string, json) dict) list) result \<times> inbox" where
  "inbox_pending db = (case next_answer db of
     (Some m, db') \<Rightarrow> (Inl m, db')
   | (None, db') \<Rightarrow> (Inr (map (\<lambda>row. (ir_id row, ir_kind row, ir_payload row)) (sort_key ir_id (it_rows (pg_rows db')))), db'))"

definition inbox_depth :: "inbox \<Rightarrow> (string, nat) result \<times> inbox" where
  "inbox_depth db = (case next_answer db of
     (Some m, db') \<Rightarrow> (Inl m, db')
   | (None, db') \<Rightarrow> (Inr (length (it_rows (pg_rows db'))), db'))"

text \<open>Serial ids: ascending, all below the next one.\<close>

definition inbox_ok :: "inbox \<Rightarrow> bool" where
  "inbox_ok db \<longleftrightarrow> sorted_wrt (<) (map ir_id (it_rows (pg_rows db))) \<and> (\<forall>row \<in> set (it_rows (pg_rows db)). ir_id row < it_next (pg_rows db))"

lemma new_inbox_ok: "inbox_ok new_inbox"
  by (simp add: inbox_ok_def new_inbox_def)

definition inbox_ids :: "inbox \<Rightarrow> nat list" where
  "inbox_ids db = map ir_id (it_rows (pg_rows db))"

lemma inbox_record_ok: "inbox_ok db \<Longrightarrow> inbox_ok (snd (inbox_record k r p db))"
  by (auto simp: inbox_ok_def inbox_record_def Let_def sorted_wrt_append less_Suc_eq split: prod.splits option.splits)

lemma inbox_discard_ok: "inbox_ok db \<Longrightarrow> inbox_ok (inbox_discard i db)"
  by (auto simp: inbox_ok_def inbox_discard_def sorted_wrt_map intro: sorted_wrt_filter split: prod.splits option.splits)

section \<open>Properties\<close>

text \<open>
  A delivery target outlives its process. Once a target is recorded in Postgres, then
  after any reads, and any recording and forgetting of other runs, in whatever processes
  and with whatever failures, the row is still there, a read gives that very target or
  nothing, and it gives the target whenever the database answers the read.
\<close>

theorem delivery_target_survives:
  assumes "pg_record r t db = (Inr u, db1)" "\<And>c. c \<in> set cs \<Longrightarrow> \<not> writes_run r c"
  shows "pg_rows (call_targets PostgresRunTargets cs db1) r = Some t \<and>
    fst (pg_get r (call_targets PostgresRunTargets cs db1)) \<in> {None, Some t} \<and>
    (fst (next_answer (call_targets PostgresRunTargets cs db1)) = None \<longrightarrow>
       fst (pg_get r (call_targets PostgresRunTargets cs db1)) = Some t)"
proof -
  define db2 where "db2 = call_targets PostgresRunTargets cs db1"
  have "op_record PostgresRunTargets r t db = (Inr u, db1)" using assms(1) by (simp add: PostgresRunTargets_def)
  then have row: "pg_rows db2 r = Some t" and got: "fst (op_get PostgresRunTargets r db2) \<in> {None, Some t}"
    using postgres.recorded_is_read [OF _ assms(2)] unfolding db2_def by blast+
  have "fst (pg_get r db2) \<in> {None, Some t}" using got by (simp add: PostgresRunTargets_def)
  moreover have "fst (next_answer db2) = None \<longrightarrow> fst (pg_get r db2) = Some t"
    using row by (cases "next_answer db2") (auto simp: pg_get_def)
  ultimately show ?thesis using row unfolding db2_def by simp
qed

definition demo_target :: RunTarget where
  "demo_target = \<lparr>tg_repo_url = ''https://h/o/r'', tg_branch = ''main'', tg_scenario_type = ''brownfield'', tg_commit_sha_before = None\<rparr>"

lemma delivery_target_survives_witness:
  "fst (pg_get ''r1'' (call_targets PostgresRunTargets [RecordTarget ''r2'' demo_target, ReadTarget ''r1'', ForgetTarget ''r2'']
     (snd (pg_record ''r1'' demo_target \<lparr>pg_rows = Map.empty, pg_answers = [None, Some ''down'', Some ''down'']\<rparr>)))) = Some demo_target"
proof -
  define db1 :: target_table where "db1 = \<lparr>pg_rows = [''r1'' \<mapsto> demo_target], pg_answers = [Some ''down'', Some ''down'']\<rparr>"
  have r: "pg_record ''r1'' demo_target \<lparr>pg_rows = Map.empty, pg_answers = [None, Some ''down'', Some ''down'']\<rparr> = (Inr (), db1)"
    by (simp add: pg_record_def next_answer_def db1_def)
  have "fst (next_answer (call_targets PostgresRunTargets [RecordTarget ''r2'' demo_target, ReadTarget ''r1'', ForgetTarget ''r2''] db1)) = None"
    by (simp add: call_targets_def PostgresRunTargets_def pg_record_def pg_get_def pg_forget_def next_answer_def db1_def)
  moreover have "\<not> writes_run ''r1'' c" if "c \<in> set [RecordTarget ''r2'' demo_target, ReadTarget ''r1'', ForgetTarget ''r2'']" for c
    using that by auto
  ultimately show ?thesis using delivery_target_survives [OF r] unfolding r snd_conv by blast
qed

end
