(* ===== verification/Runner.thy ===== *)
theory Runner
  imports SdlcRuns SpecGraph Stores
begin

text \<open>
  \<open>agentic_control_plane/runner.py\<close>, \<open>run_routing.py\<close> and the reconciliation of
  \<open>main.py\<close>: executing a run one slice at a time against the checkpointer, and choosing the
  graph it runs on. A checkpoint is the state a thread stopped in and the nodes it names as
  next; it is written after every superstep, so a node that pauses or raises leaves the
  last one.
\<close>

section \<open>Checkpoints\<close>

datatype thread =
    SdlcThread GraphState "sdlc_node list" time
  | SpecThread SpecialistRunState "spec_node option" time

type_synonym threads = "string \<rightharpoonup> thread"

datatype run_values = SdlcValues GraphState | SpecValues SpecialistRunState

fun thread_values :: "thread \<Rightarrow> run_values" where
  "thread_values (SdlcThread s F t) = SdlcValues s"
| "thread_values (SpecThread s n t) = SpecValues s"

fun thread_written :: "thread \<Rightarrow> time" where
  "thread_written (SdlcThread s F t) = t"
| "thread_written (SpecThread s n t) = t"

text \<open>Work is left in a thread, whichever graph reads it.\<close>

fun open_thread :: "thread \<Rightarrow> bool" where
  "open_thread (SdlcThread s F t) = (F \<noteq> [])"
| "open_thread (SpecThread s n t) = (n \<noteq> None)"

text \<open>The compiled graph a caller asks with: the SDLC one by default, or a specialist's.\<close>

datatype 'w graph = SdlcTopology | SpecTopology "'w spec_env"

record snapshot =
  sn_created_at :: "time option"
  sn_next :: bool
  sn_values :: "run_values option"

text \<open>
  \<open>get_state\<close>: a topology that has no node of the checkpoint's names reads an empty
  \<open>next\<close>, as \<open>_reconcile_workspaces\<close> reports.
\<close>

fun reads_thread :: "'w graph \<Rightarrow> thread \<Rightarrow> bool" where
  "reads_thread SdlcTopology (SdlcThread s F t) = True"
| "reads_thread (SpecTopology e) (SpecThread s n t) = True"
| "reads_thread _ _ = False"

definition snapshot_for :: "'w graph \<Rightarrow> threads \<Rightarrow> string \<Rightarrow> snapshot" where
  "snapshot_for g ts rid = (case ts rid of
     None \<Rightarrow> \<lparr>sn_created_at = None, sn_next = False, sn_values = None\<rparr>
   | Some th \<Rightarrow> \<lparr>sn_created_at = Some (thread_written th), sn_next = (reads_thread g th \<and> open_thread th),
       sn_values = Some (thread_values th)\<rparr>)"

definition already_known :: "'w graph \<Rightarrow> threads \<Rightarrow> string \<Rightarrow> bool" where
  "already_known g ts rid = (sn_created_at (snapshot_for g ts rid) \<noteq> None)"

definition is_resumable :: "'w graph \<Rightarrow> threads \<Rightarrow> string \<Rightarrow> bool" where
  "is_resumable g ts rid = (let sn = snapshot_for g ts rid in sn_created_at sn \<noteq> None \<and> sn_next sn)"

definition parked_since :: "'w graph \<Rightarrow> threads \<Rightarrow> string \<Rightarrow> time option" where
  "parked_since g ts rid =
     (let sn = snapshot_for g ts rid in if sn_created_at sn = None \<or> \<not> sn_next sn then None else sn_created_at sn)"

section \<open>Expiry\<close>

definition DEFAULT_PARKED_TTL_HOURS :: rat where "DEFAULT_PARKED_TTL_HOURS = 24"

text \<open>Hours, from \<open>PARKED_RUN_TTL_HOURS\<close>; \<open>num\<close> is \<open>float\<close> on a text. Times are in seconds.\<close>

definition parked_ttl :: "(string \<Rightarrow> rat option) \<Rightarrow> string option \<Rightarrow> (node_error, rat) result" where
  "parked_ttl num var = (case var of
     None \<Rightarrow> Inr DEFAULT_PARKED_TTL_HOURS
   | Some t \<Rightarrow> (case num t of None \<Rightarrow> Inl (ValueError t) | Some hrs \<Rightarrow> Inr hrs))"

definition past_ttl :: "rat \<Rightarrow> time \<Rightarrow> time \<Rightarrow> bool" where
  "past_ttl hrs now since \<longleftrightarrow> rat_of_int (now - since) > hrs * 3600"

text \<open>The sweep asks with the default graph, whichever graph the run belongs to.\<close>

definition find_stale_runs :: "string list \<Rightarrow> threads \<Rightarrow> time \<Rightarrow> rat \<Rightarrow> string list" where
  "find_stale_runs rids ts now hrs =
     filter (\<lambda>rid. case parked_since (SdlcTopology :: unit graph) ts rid of None \<Rightarrow> False | Some since \<Rightarrow> past_ttl hrs now since) rids"

section \<open>Results\<close>

record RunResult =
  rr_run_id :: string
  rr_parked :: bool
  rr_gate_type :: "string option"
  rr_gate_payload :: "gate_payload option"
  rr_terminal_state :: "string option"
  rr_detail :: string
  rr_values :: run_values

definition is_terminal :: "RunResult \<Rightarrow> bool" where
  "is_terminal r = (rr_terminal_state r \<noteq> None)"

fun values_safe_stop :: "run_values \<Rightarrow> bool" where
  "values_safe_stop (SdlcValues s) = safe_stop s"
| "values_safe_stop (SpecValues s) = sr_safe_stop s"

fun values_status :: "run_values \<Rightarrow> RunStatus" where
  "values_status (SdlcValues s) = run_status s"
| "values_status (SpecValues s) = sr_run_status s"

definition terminal_state_of :: "run_values \<Rightarrow> string \<times> string" where
  "terminal_state_of v =
     (if values_safe_stop v then (''safe_stop'', ''run safe-stopped'')
      else if values_status v = Completed then (''completed'', ''run completed'')
      else (''failed'', ''run finished with status '' @ quoted (run_status_name (values_status v))))"

text \<open>\<open>_interpret\<close>: an interrupt makes the result parked, its absence terminal.\<close>

definition run_result_of :: "string \<Rightarrow> gate_payload option \<Rightarrow> run_values \<Rightarrow> RunResult" where
  "run_result_of rid p v = (case p of
     Some q \<Rightarrow> \<lparr>rr_run_id = rid, rr_parked = True, rr_gate_type = Some (gate_name (payload_gate q)), rr_gate_payload = Some q,
       rr_terminal_state = None, rr_detail = [], rr_values = v\<rparr>
   | None \<Rightarrow> (let (ts, d) = terminal_state_of v in
       \<lparr>rr_run_id = rid, rr_parked = False, rr_gate_type = None, rr_gate_payload = None,
        rr_terminal_state = Some ts, rr_detail = d, rr_values = v\<rparr>))"

section \<open>One slice\<close>

text \<open>A specialist graph driven from where it stands to its end, a gate, or a raise.\<close>

datatype 'w spec_driven =
    SpecDone "'w spec_config" | SpecPaused gate_payload "'w spec_config" | SpecCrashed node_error "'w spec_config" | SpecOutOfFuel

fun spec_drive :: "'w spec_env \<Rightarrow> (nat \<Rightarrow> spec_in) \<Rightarrow> nat \<Rightarrow> nat \<Rightarrow> 'w spec_config \<Rightarrow> 'w spec_driven" where
  "spec_drive e xs k fuel c =
     (case sc_node c of
        None \<Rightarrow> SpecDone c
      | Some n \<Rightarrow>
          (case fuel of
             0 \<Rightarrow> SpecOutOfFuel
           | Suc f \<Rightarrow>
               (case run_spec_node e (xs k) n (sc_state c) (sc_world c) of
                  (Interrupt p, w) \<Rightarrow> SpecPaused p (c\<lparr>sc_world := w\<rparr>)
                | (Raise r, w) \<Rightarrow> SpecCrashed r (c\<lparr>sc_world := w\<rparr>)
                | (Update us, w) \<Rightarrow> spec_drive e xs (Suc k) f (spec_superstep e (xs k) c))))"

declare spec_drive.simps [simp del]

text \<open>
  What a slice meets from outside: the answers to the nodes, without a decision; the one
  decision of a resume reaches the node that is run first, every later gate has none.
\<close>

record 'w slice_in =
  sl_nodes :: "nat \<Rightarrow> sdlc_node \<Rightarrow> 'w node_in"
  sl_spec :: "nat \<Rightarrow> spec_in"
  sl_table :: "(node_error, RoutingTable) result"
  sl_saver_readable :: bool
  sl_now :: time
  sl_fresh_id :: string

definition sdlc_answers :: "decision option \<Rightarrow> 'w slice_in \<Rightarrow> nat \<Rightarrow> sdlc_node \<Rightarrow> 'w node_in" where
  "sdlc_answers d x k n =
     (let y = sl_nodes x k n in y\<lparr>ni_inputs := (ni_inputs y)\<lparr>i_decision := if k = 0 then d else None\<rparr>\<rparr>)"

definition spec_answers :: "decision option \<Rightarrow> 'w slice_in \<Rightarrow> nat \<Rightarrow> spec_in" where
  "spec_answers d x k = (sl_spec x k)\<lparr>sx_decision := if k = 0 then d else None\<rparr>"

text \<open>\<open>invoke\<close>: what it gives, the checkpoint it leaves, and the world after it.\<close>

fun invoke_graph ::
  "'w env \<Rightarrow> 'w slice_in \<Rightarrow> string \<Rightarrow> 'w graph \<Rightarrow> decision option \<Rightarrow> thread \<Rightarrow> 'w \<Rightarrow> (node_error, RunResult) result \<times> thread \<times> 'w" where
  "invoke_graph e x rid SdlcTopology d (SdlcThread s F t) w =
     (case drive e (sdlc_answers d x) 0 (weight s F) \<lparr>cf_state = s, cf_frontier = F, cf_world = w\<rparr> of
        Done c \<Rightarrow> (Inr (run_result_of rid None (SdlcValues (cf_state c))), SdlcThread (cf_state c) (cf_frontier c) (sl_now x), cf_world c)
      | PausedAt p c \<Rightarrow>
          (Inr (run_result_of rid (Some p) (SdlcValues (cf_state c))), SdlcThread (cf_state c) (cf_frontier c) (sl_now x), cf_world c)
      | CrashedAt r c \<Rightarrow> (Inl r, SdlcThread (cf_state c) (cf_frontier c) (sl_now x), cf_world c)
      | OutOfFuel \<Rightarrow> (Inl (RuntimeError ''recursion limit''), SdlcThread s F t, w))"
| "invoke_graph e x rid (SpecTopology g) d (SpecThread s n t) w =
     (case spec_drive g (spec_answers d x) 0 (spec_rank n) \<lparr>sc_state = s, sc_node = n, sc_world = w\<rparr> of
        SpecDone c \<Rightarrow> (Inr (run_result_of rid None (SpecValues (sc_state c))), SpecThread (sc_state c) (sc_node c) (sl_now x), sc_world c)
      | SpecPaused p c \<Rightarrow>
          (Inr (run_result_of rid (Some p) (SpecValues (sc_state c))), SpecThread (sc_state c) (sc_node c) (sl_now x), sc_world c)
      | SpecCrashed r c \<Rightarrow> (Inl r, SpecThread (sc_state c) (sc_node c) (sl_now x), sc_world c)
      | SpecOutOfFuel \<Rightarrow> (Inl (RuntimeError ''recursion limit''), SpecThread s n t, w))"
| "invoke_graph e x rid g d th w = (Inr (run_result_of rid None (thread_values th)), th, w)"

definition start_run ::
  "'w env \<Rightarrow> 'w slice_in \<Rightarrow> string \<Rightarrow> 'w graph \<Rightarrow> thread \<Rightarrow> threads \<times> 'w \<Rightarrow> (node_error, RunResult) result \<times> threads \<times> 'w" where
  "start_run e x rid g initial tw =
     (let (ts, w) = tw; (r, th, w') = invoke_graph e x rid g None initial w in (r, ts(rid \<mapsto> th), w'))"

datatype resume_error = UnknownRunError | RunAlreadyTerminalError | RunRaises node_error

definition resume_run ::
  "'w env \<Rightarrow> 'w slice_in \<Rightarrow> string \<Rightarrow> 'w graph \<Rightarrow> decision \<Rightarrow> threads \<times> 'w \<Rightarrow> (resume_error, RunResult) result \<times> threads \<times> 'w" where
  "resume_run e x rid g d tw =
     (let (ts, w) = tw; sn = snapshot_for g ts rid in
      if sn_created_at sn = None then (Inl UnknownRunError, ts, w)
      else if \<not> sn_next sn then (Inl RunAlreadyTerminalError, ts, w)
      else case ts rid of
        None \<Rightarrow> (Inl UnknownRunError, ts, w)
      | Some th \<Rightarrow>
          (case invoke_graph e x rid g (Some d) th w of
             (Inl r, th', w') \<Rightarrow> (Inl (RunRaises r), ts(rid \<mapsto> th'), w')
           | (Inr r, th', w') \<Rightarrow> (Inr r, ts(rid \<mapsto> th'), w')))"

section \<open>Facts about slices\<close>

text \<open>What every checkpoint satisfies: the invariants of the graph that wrote it.\<close>

definition run_ok :: "GraphState \<Rightarrow> sdlc_node list \<Rightarrow> bool" where
  "run_ok s F \<longleftrightarrow> proper_frontier F \<and> (\<exists>sc limit. 0 \<le> limit \<and> sdlc_inv sc limit s F)"

fun thread_ok :: "thread \<Rightarrow> bool" where
  "thread_ok (SdlcThread s F t) \<longleftrightarrow> run_ok s F"
| "thread_ok (SpecThread s n t) \<longleftrightarrow> spec_inv s n"

lemma thread_ok_move:
  assumes "thread_ok (SdlcThread s F t)" "move s F s' F'"
  shows "thread_ok (SdlcThread s' F' t')"
proof -
  obtain sc limit where I: "0 \<le> limit" "sdlc_inv sc limit s F" using assms(1) by (auto simp: run_ok_def)
  then have "sdlc_inv sc limit s' F'"
    unfolding sdlc_inv_def
    using life_inv_move [OF _ assms(2)] test_inv_move [OF _ _ assms(2)] retry_inv_move [OF _ assms(2)]
      gates_inv_move [OF _ assms(2)] by blast
  then show ?thesis using I(1) move_proper [OF assms(2)] by (auto simp: run_ok_def)
qed

definition config_thread :: "'w config \<Rightarrow> time \<Rightarrow> thread" where
  "config_thread c t = SdlcThread (cf_state c) (cf_frontier c) t"

lemma config_thread_world [simp]: "config_thread (c\<lparr>cf_world := w\<rparr>) t = config_thread c t"
  by (simp add: config_thread_def)

lemma superstep_idle: "cf_frontier c = [] \<Longrightarrow> superstep e x c \<noteq> Paused p w \<and> superstep e x c \<noteq> Crashed r w"
  by (simp add: superstep_def)

text \<open>Where a drive stops is a checkpoint of the same run, with work left unless it is done.\<close>

lemma drive_stops:
  "thread_ok (config_thread c t) \<Longrightarrow>
   (case drive e xs k fuel c of
      Done c' \<Rightarrow> thread_ok (config_thread c' t') \<and> cf_frontier c' = []
    | PausedAt p c' \<Rightarrow> thread_ok (config_thread c' t') \<and> cf_frontier c' \<noteq> []
    | CrashedAt r c' \<Rightarrow> thread_ok (config_thread c' t') \<and> cf_frontier c' \<noteq> []
    | OutOfFuel \<Rightarrow> True)"
proof (induction fuel arbitrary: k c)
  case 0
  then show ?case by (auto simp: drive.simps config_thread_def)
next
  case (Suc fuel)
  show ?case
  proof (cases "cf_frontier c = []")
    case True
    then show ?thesis using Suc.prems by (auto simp: drive.simps config_thread_def)
  next
    case False
    have ok: "thread_ok (config_thread c' t)" if "superstep e (xs k) c = Advanced c'" for c'
    proof -
      have "move (cf_state c) (cf_frontier c) (cf_state c') (cf_frontier c')"
        using advance_move [of "cf_frontier c" c e "xs k" c'] False Suc.prems that by (simp add: config_thread_def run_ok_def)
      with Suc.prems show ?thesis unfolding config_thread_def by (rule thread_ok_move)
    qed
    show ?thesis
      using Suc.prems Suc.IH [OF ok] False
      by (subst drive.simps) (auto simp: config_thread_def split: outcome.splits)
  qed
qed

lemma drive_not_out:
  "thread_ok (config_thread c t) \<Longrightarrow> drive e xs k (weight (cf_state c) (cf_frontier c)) c \<noteq> OutOfFuel"
  by (rule drive_enough) (auto simp: config_thread_def run_ok_def)

lemma spec_drive_stops:
  "spec_inv (sc_state c) (sc_node c) \<Longrightarrow> spec_rank (sc_node c) \<le> fuel \<Longrightarrow>
   (case spec_drive e xs k fuel c of
      SpecDone c' \<Rightarrow> spec_inv (sc_state c') (sc_node c') \<and> sc_node c' = None
    | SpecPaused p c' \<Rightarrow> spec_inv (sc_state c') (sc_node c') \<and> sc_node c' \<noteq> None
    | SpecCrashed r c' \<Rightarrow> spec_inv (sc_state c') (sc_node c') \<and> sc_node c' \<noteq> None
    | SpecOutOfFuel \<Rightarrow> False)"
proof (induction fuel arbitrary: k c)
  case 0
  then have "sc_node c = None" by (cases "sc_node c" rule: option.exhaust; cases "the (sc_node c)") auto
  then show ?case using 0 by (simp add: spec_drive.simps)
next
  case (Suc fuel)
  show ?case
  proof (cases "sc_node c")
    case None
    then show ?thesis using Suc.prems by (simp add: spec_drive.simps)
  next
    case (Some n)
    obtain r w where r: "run_spec_node e (xs k) n (sc_state c) (sc_world c) = (r, w)"
      by (cases "run_spec_node e (xs k) n (sc_state c) (sc_world c)")
    show ?thesis
    proof (cases r)
      case (Update us)
      define c' where "c' = spec_superstep e (xs k) c"
      have c': "sc_state c' = apply_specs us (sc_state c)" "sc_node c' = spec_next n (apply_specs us (sc_state c))"
        using Some r Update by (simp_all add: c'_def spec_superstep_def Let_def)
      have "spec_inv (sc_state c') (sc_node c')"
        unfolding c' by (rule spec_inv_step [of _ _ e "xs k" "sc_world c" _ w]) (use Suc.prems(1) Some r Update in simp_all)
      moreover have "spec_rank (sc_node c') \<le> fuel"
        using spec_next_rank [of n "apply_specs us (sc_state c)"] Suc.prems(2) Some c'(2) by simp
      ultimately show ?thesis
        using Suc.IH [of c' "Suc k"] Some r Update by (subst spec_drive.simps) (simp add: c'_def)
    qed (use Suc.prems Some r in \<open>simp_all add: spec_drive.simps\<close>)
  qed
qed

text \<open>
  A slice of a graph on its own thread: the checkpoint it leaves is of the same graph and
  keeps the invariants; the result is parked exactly when work is left, terminal exactly
  when none is, and carries the values of the checkpoint; a raise leaves work.
\<close>

lemma run_result_of_simps [simp]:
  "rr_run_id (run_result_of rid p v) = rid"
  "rr_values (run_result_of rid p v) = v"
  "rr_parked (run_result_of rid p v) = (p \<noteq> None)"
  "rr_terminal_state (run_result_of rid p v) = (if p = None then Some (fst (terminal_state_of v)) else None)"
  by (auto simp: run_result_of_def Let_def split: option.splits prod.splits)

lemma invoke_graph_stops:
  assumes "thread_ok th" "reads_thread g th" "invoke_graph e x rid g d th w = (r, th', w')"
  shows "thread_ok th' \<and> reads_thread g th' \<and>
    (case r of Inl _ \<Rightarrow> open_thread th'
     | Inr res \<Rightarrow> rr_run_id res = rid \<and> rr_values res = thread_values th' \<and> rr_parked res = open_thread th' \<and>
         rr_terminal_state res = (if open_thread th' then None else Some (fst (terminal_state_of (thread_values th')))))"
proof (cases th)
  case (SdlcThread s F t)
  define c where "c = \<lparr>cf_state = s, cf_frontier = F, cf_world = w\<rparr>"
  have g: "g = SdlcTopology" using assms(2) SdlcThread by (cases g) auto
  have ok: "thread_ok (config_thread c t)" using assms(1) SdlcThread by (simp add: config_thread_def c_def)
  define dr where "dr = drive e (sdlc_answers d x) 0 (weight s F) c"
  have "dr \<noteq> OutOfFuel" using drive_not_out [OF ok] by (simp add: dr_def c_def)
  then show ?thesis
    using drive_stops [OF ok, where e = e and xs = "sdlc_answers d x" and k = 0 and fuel = "weight s F" and t' = "sl_now x"] assms(3)
    by (cases dr) (auto simp: SdlcThread g c_def [symmetric] dr_def [symmetric] config_thread_def)
next
  case (SpecThread s n t)
  define c where "c = \<lparr>sc_state = s, sc_node = n, sc_world = w\<rparr>"
  obtain e' where g: "g = SpecTopology e'" using assms(2) SpecThread by (cases g) auto
  define dr where "dr = spec_drive e' (spec_answers d x) 0 (spec_rank n) c"
  show ?thesis
    using spec_drive_stops [of c "spec_rank n" e' "spec_answers d x" 0] assms(1,3)
    by (cases dr) (auto simp: SpecThread g c_def [symmetric] dr_def [symmetric], simp_all add: c_def)
qed

lemma invoke_graph_written: "reads_thread g th \<Longrightarrow> thread_ok th \<Longrightarrow> invoke_graph e x rid g d th w = (r, th', w') \<Longrightarrow> thread_written th' = sl_now x"
proof (cases th)
  case (SdlcThread s F t)
  assume a: "reads_thread g th" "thread_ok th" "invoke_graph e x rid g d th w = (r, th', w')"
  then show ?thesis using SdlcThread drive_not_out [of "\<lparr>cf_state = s, cf_frontier = F, cf_world = w\<rparr>" t e "sdlc_answers d x" 0]
    by (cases g) (auto simp: config_thread_def split: driven.splits)
next
  case (SpecThread s n t)
  assume a: "reads_thread g th" "thread_ok th" "invoke_graph e x rid g d th w = (r, th', w')"
  then show ?thesis using SpecThread spec_drive_stops [of "\<lparr>sc_state = s, sc_node = n, sc_world = w\<rparr>" "spec_rank n" _ "spec_answers d x" 0]
    by (cases g) (fastforce split: spec_driven.splits)+
qed

section \<open>Histories\<close>

text \<open>
  Everything that can happen to the checkpointer: runs are started from their initial
  state, resumed with any decision and any graph, and between slices the world moves on.
\<close>

fun start_thread :: "thread \<Rightarrow> bool" where
  "start_thread (SdlcThread s F t) \<longleftrightarrow> F = [NClarifier] \<and> (\<exists>rid sc q m now. s = new_graph_state rid sc q m now)"
| "start_thread (SpecThread s n t) \<longleftrightarrow> n = Some PDesign \<and> (\<exists>rid sp sc target now. s = new_specialist_state rid sp sc target now)"

lemma start_threads [simp]:
  "start_thread (SdlcThread (new_graph_state rid sc q m now) [NClarifier] t)"
  "start_thread (SpecThread (new_specialist_state rid sp scn target now) (Some PDesign) t)"
  unfolding start_thread.simps by blast+

lemma start_thread_ok: "start_thread th \<Longrightarrow> thread_ok th"
proof (cases th)
  case (SdlcThread s F t)
  assume "start_thread th"
  then obtain rid sc q m now where "F = [NClarifier]" "s = start_state rid sc q m 3 now"
    using SdlcThread by (auto simp: start_state_default)
  moreover have "sdlc_inv sc 3 (start_state rid sc q m 3 now) [NClarifier]" by (rule sdlc_inv_start) simp
  ultimately show ?thesis using SdlcThread
    by (simp add: run_ok_def proper_frontier_def) (intro exI [of _ sc] exI [of _ 3], simp)
next
  case (SpecThread s n t)
  assume "start_thread th"
  then show ?thesis using SpecThread spec_inv_start by auto
qed

declare start_thread.simps [simp del]

inductive runner_history :: "threads \<times> 'w \<Rightarrow> bool" where
  fresh: "runner_history (Map.empty, w)"
| elsewhere: "runner_history (ts, w) \<Longrightarrow> runner_history (ts, w')"
| started: "runner_history tw \<Longrightarrow> start_thread th \<Longrightarrow> reads_thread g th \<Longrightarrow> start_run e x rid g th tw = (r, tw') \<Longrightarrow> runner_history tw'"
| resumed: "runner_history tw \<Longrightarrow> resume_run e x rid g d tw = (r, tw') \<Longrightarrow> runner_history tw'"

definition threads_ok :: "threads \<Rightarrow> bool" where
  "threads_ok ts \<longleftrightarrow> (\<forall>rid th. ts rid = Some th \<longrightarrow> thread_ok th)"

lemma start_run_ok:
  assumes "threads_ok (fst tw)" "thread_ok th" "reads_thread g th" "start_run e x rid g th tw = (r, tw')"
  shows "threads_ok (fst tw') \<and> (\<forall>r'. r' \<noteq> rid \<longrightarrow> fst tw' r' = fst tw r') \<and>
    (\<exists>th'. fst tw' rid = Some th' \<and> reads_thread g th' \<and>
       (case r of Inl _ \<Rightarrow> open_thread th'
        | Inr res \<Rightarrow> rr_run_id res = rid \<and> rr_values res = thread_values th' \<and> rr_parked res = open_thread th' \<and>
            rr_terminal_state res = (if open_thread th' then None else Some (fst (terminal_state_of (thread_values th'))))))"
proof -
  obtain ts w where tw: "tw = (ts, w)" by (cases tw)
  obtain r0 th' w' where i: "invoke_graph e x rid g None th w = (r0, th', w')" by (cases "invoke_graph e x rid g None th w")
  have "r0 = r" "tw' = (ts(rid \<mapsto> th'), w')" using assms(4) tw i by (auto simp: start_run_def)
  then show ?thesis using invoke_graph_stops [OF assms(2,3) i] assms(1) tw by (auto simp: threads_ok_def)
qed

text \<open>A resume is refused without an effect, or is a slice of the very graph that wrote the checkpoint.\<close>

lemma resume_run_cases:
  assumes "resume_run e x rid g d (ts, w) = (r, tw')"
  shows "(r = Inl UnknownRunError \<and> ts rid = None \<or> r = Inl RunAlreadyTerminalError \<and> ts rid \<noteq> None) \<and> tw' = (ts, w) \<or>
    (\<exists>th r0 th' w'. ts rid = Some th \<and> open_thread th \<and> reads_thread g th \<and> invoke_graph e x rid g (Some d) th w = (r0, th', w') \<and>
       r = (case r0 of Inl y \<Rightarrow> Inl (RunRaises y) | Inr res \<Rightarrow> Inr res) \<and> tw' = (ts(rid \<mapsto> th'), w'))"
  using assms by (auto simp: resume_run_def snapshot_for_def Let_def split: option.splits if_splits prod.splits sum.splits)

lemma resume_run_Inr:
  assumes "resume_run e x rid g d (ts, w) = (Inr res, tw')"
  obtains th th' w' where "ts rid = Some th" "reads_thread g th" "open_thread th"
    "invoke_graph e x rid g (Some d) th w = (Inr res, th', w')" "tw' = (ts(rid \<mapsto> th'), w')"
proof -
  from resume_run_cases [OF assms] obtain th r0 th' w' where i: "ts rid = Some th" "open_thread th" "reads_thread g th"
      "invoke_graph e x rid g (Some d) th w = (r0, th', w')" "tw' = (ts(rid \<mapsto> th'), w')"
      "Inr res = (case r0 of Inl y \<Rightarrow> Inl (RunRaises y) | Inr res \<Rightarrow> Inr res)"
    by blast
  from i(6) have "r0 = Inr res" by (cases r0) simp_all
  with i that show ?thesis by blast
qed

lemma resume_run_ok:
  assumes "threads_ok ts" "resume_run e x rid g d (ts, w) = (r, tw')"
  shows "threads_ok (fst tw') \<and> (\<forall>r'. r' \<noteq> rid \<longrightarrow> fst tw' r' = ts r') \<and>
    (\<forall>res. r = Inr res \<longrightarrow> (\<exists>th'. fst tw' rid = Some th' \<and> rr_run_id res = rid \<and> rr_values res = thread_values th' \<and>
       rr_parked res = open_thread th' \<and>
       rr_terminal_state res = (if open_thread th' then None else Some (fst (terminal_state_of (thread_values th'))))))"
  using resume_run_cases [OF assms(2)]
proof (elim disjE conjE exE)
  fix th r0 th' w'
  assume a: "ts rid = Some th" "reads_thread g th" "invoke_graph e x rid g (Some d) th w = (r0, th', w')"
    "r = (case r0 of Inl y \<Rightarrow> Inl (RunRaises y) | Inr res \<Rightarrow> Inr res)" "tw' = (ts(rid \<mapsto> th'), w')"
  then show ?thesis
    using invoke_graph_stops [OF _ a(2,3)] assms(1) by (cases r0) (auto simp: threads_ok_def)
qed (use assms(1) in auto)

lemma runner_history_ok: "runner_history tw \<Longrightarrow> threads_ok (fst tw)"
proof (induction rule: runner_history.induct)
  case (started tw th g e x rid r tw')
  then show ?case using start_run_ok start_thread_ok by blast
next
  case (resumed tw e x rid g d r tw')
  obtain ts w where "tw = (ts, w)" by fastforce
  with resumed.IH resumed.hyps(2) show ?case using resume_run_ok [of ts e x rid g d w r tw'] by simp
qed (auto simp: threads_ok_def)

text \<open>What a completed run's values are worth, on either graph.\<close>

fun governed :: "run_values \<Rightarrow> bool" where
  "governed (SdlcValues s) \<longleftrightarrow> shipped s \<and> tested s"
| "governed (SpecValues s) \<longleftrightarrow> \<not> sr_safe_stop s \<and>
     (sr_commit_sha_after s \<noteq> None \<or> sr_published s \<longrightarrow>
        gate_approved s SpecialistDesignReview \<and> gate_approved s MergeReleaseApproval \<and> sr_output_repository s \<noteq> []) \<and>
     (sr_phases s GENERATE_PHASE \<noteq> None \<longrightarrow> gate_approved s SpecialistDesignReview)"

lemma completed_governed:
  assumes "thread_ok th" "\<not> open_thread th" "fst (terminal_state_of (thread_values th)) = ''completed''"
  shows "governed (thread_values th)"
proof (cases th)
  case (SdlcThread s F t)
  with assms have "\<not> safe_stop s" "run_status s = Completed" "F = []"
    by (auto simp: terminal_state_of_def split: if_splits)
  then show ?thesis using assms(1) SdlcThread by (auto simp: run_ok_def sdlc_inv_def life_inv_def test_inv_def)
next
  case (SpecThread s n t)
  then show ?thesis using assms by (auto simp: terminal_state_of_def spec_inv_defs split: if_splits)
qed

text \<open>What may follow a slice, short of starting the same run anew.\<close>

inductive later_than :: "string \<Rightarrow> threads \<times> 'w \<Rightarrow> threads \<times> 'w \<Rightarrow> bool" for rid where
  same: "later_than rid tw tw"
| elsewhere: "later_than rid tw (ts, w) \<Longrightarrow> later_than rid tw (ts, w')"
| started: "later_than rid tw tw' \<Longrightarrow> rid' \<noteq> rid \<Longrightarrow> start_run e x rid' g th tw' = (r, tw'') \<Longrightarrow> later_than rid tw tw''"
| resumed: "later_than rid tw tw' \<Longrightarrow> resume_run e x rid' g d tw' = (r, tw'') \<Longrightarrow> later_than rid tw tw''"

lemma resume_keeps_closed:
  assumes "resume_run e x rid' g d tw = (r, tw')" "fst tw rid = Some th" "\<not> open_thread th"
  shows "fst tw' rid = Some th"
proof -
  obtain ts w where tw: "tw = (ts, w)" by fastforce
  show ?thesis using resume_run_cases [OF assms(1) [unfolded tw]] assms(2,3) tw by (cases "rid' = rid") auto
qed

lemma later_than_closed':
  "later_than rid tw tw' \<Longrightarrow> fst tw rid = Some th \<Longrightarrow> \<not> open_thread th \<Longrightarrow> fst tw' rid = Some th"
proof (induction rule: later_than.induct)
  case (started tw tw' rid' e x g th' r tw'')
  then show ?case by (auto simp: start_run_def split: prod.splits)
next
  case (resumed tw tw' e x rid' g d r tw'')
  then show ?case using resume_keeps_closed by metis
qed auto

lemma later_than_closed:
  "later_than rid (ts, w) (ts', w') \<Longrightarrow> ts rid = Some th \<Longrightarrow> \<not> open_thread th \<Longrightarrow> ts' rid = Some th"
  using later_than_closed' [of rid "(ts, w)" "(ts', w')" th] by simp

section \<open>Properties\<close>

text \<open>
  C23: what a resume reports is what the run is. After any history of slices of any runs -
  in whatever processes, with whatever the world did in between - a resume of a run that
  was never checkpointed, or has no work left for the graph it is asked with, is refused
  and changes nothing. One that returns has touched this run only; it says parked exactly
  when the run has work left, and terminal exactly when it has none; and when it says
  completed, the change is governed: on the SDLC graph an approved merge gate with every
  guardrail finding overridden, a commit, and tests that passed on that attempt; on a
  specialist's, no commit or publication without both gate approvals.
\<close>

theorem resume_reports_the_run:
  assumes "runner_history (ts, w)" "resume_run e x rid g d (ts, w) = (r, tw')"
  shows "(r = Inl UnknownRunError \<longleftrightarrow> ts rid = None) \<and>
    (r = Inl RunAlreadyTerminalError \<longleftrightarrow> already_known g ts rid \<and> \<not> is_resumable g ts rid) \<and>
    (r = Inl UnknownRunError \<or> r = Inl RunAlreadyTerminalError \<longrightarrow> tw' = (ts, w)) \<and>
    (\<forall>r'. r' \<noteq> rid \<longrightarrow> fst tw' r' = ts r') \<and>
    (\<forall>res. r = Inr res \<longrightarrow> rr_run_id res = rid \<and> rr_parked res = is_resumable g (fst tw') rid \<and>
       is_terminal res = (\<not> rr_parked res) \<and>
       (rr_terminal_state res = Some ''completed'' \<longrightarrow> governed (rr_values res)))"
proof -
  have ok: "threads_ok ts" using runner_history_ok [OF assms(1)] by simp
  have refused: "(r = Inl UnknownRunError \<longleftrightarrow> ts rid = None) \<and>
    (r = Inl RunAlreadyTerminalError \<longleftrightarrow> already_known g ts rid \<and> \<not> is_resumable g ts rid) \<and>
    (r = Inl UnknownRunError \<or> r = Inl RunAlreadyTerminalError \<longrightarrow> tw' = (ts, w))"
    using assms(2) by (auto simp: resume_run_def already_known_def is_resumable_def snapshot_for_def Let_def
        split: option.splits if_splits prod.splits sum.splits)
  have "rr_run_id res = rid \<and> rr_parked res = is_resumable g (fst tw') rid \<and> is_terminal res = (\<not> rr_parked res) \<and>
       (rr_terminal_state res = Some ''completed'' \<longrightarrow> governed (rr_values res))" if r: "r = Inr res" for res
  proof -
    obtain th th' w' where i: "ts rid = Some th" "reads_thread g th" "invoke_graph e x rid g (Some d) th w = (Inr res, th', w')"
        "tw' = (ts(rid \<mapsto> th'), w')"
      using resume_run_Inr [OF assms(2) [unfolded r]] by blast
    have th: "thread_ok th" using ok i(1) by (auto simp: threads_ok_def)
    from invoke_graph_stops [OF th i(2,3)] show ?thesis
      using completed_governed [of th'] i(4)
      by (auto simp: is_resumable_def snapshot_for_def is_terminal_def split: if_splits)
  qed
  with refused resume_run_ok [OF ok assms(2)] show ?thesis by blast
qed

definition demo_slice :: "fs slice_in" where
  "demo_slice = \<lparr>sl_nodes = (\<lambda>_ _. demo_in), sl_spec = (\<lambda>_. demo_spec_in), sl_table = Inr default_routing_table,
     sl_saver_readable = True, sl_now = 5, sl_fresh_id = ''u1''\<rparr>"

definition demo_thread :: thread where
  "demo_thread = SdlcThread (new_graph_state ''u1'' Greenfield ''add x'' Replay 0) [NClarifier] 0"

definition demo_started :: "(node_error, RunResult) result \<times> threads \<times> fs" where
  "demo_started = start_run demo_env demo_slice ''r1'' SdlcTopology demo_thread (Map.empty, demo_fs)"

definition demo_resumed :: "(resume_error, RunResult) result \<times> threads \<times> fs" where
  "demo_resumed = resume_run demo_env demo_slice ''r1'' SdlcTopology demo_decision (snd demo_started)"

lemma demo_started_history: "runner_history (snd demo_started)"
proof -
  have "start_thread demo_thread" by (simp add: demo_thread_def)
  then show ?thesis
    by (rule runner_history.started [OF runner_history.fresh, where g = SdlcTopology and e = demo_env and x = demo_slice
          and rid = "''r1''" and w1 = demo_fs and r = "fst demo_started"]) (simp_all add: demo_started_def demo_thread_def)
qed

lemma demo_resumed_parked:
  "case fst demo_resumed of Inr res \<Rightarrow> rr_parked res \<and> rr_gate_type res = Some ''plan_approval'' | Inl _ \<Rightarrow> False"
  by code_simp

lemma resume_reports_the_run_witness:
  "\<exists>res. fst demo_resumed = Inr res \<and> is_resumable (SdlcTopology :: fs graph) (fst (snd demo_resumed)) ''r1'' \<and> \<not> is_terminal res"
proof -
  obtain res where res: "fst demo_resumed = Inr res" "rr_parked res"
    using demo_resumed_parked by (cases "fst demo_resumed") simp_all
  have "resume_run demo_env demo_slice ''r1'' SdlcTopology demo_decision (fst (snd demo_started), snd (snd demo_started)) =
      (Inr res, snd demo_resumed)"
    using res(1) by (simp add: demo_resumed_def prod_eq_iff)
  from resume_reports_the_run [OF _ this] demo_started_history res show ?thesis by simp
qed

text \<open>
  A run ends once. Once nothing is left of a run, no later slice of any run, no decision
  for it and no change of the world touches its checkpoint any more, and every decision
  that still comes for it is answered as already terminal, with nothing executed.
\<close>

theorem ended_run_stays_ended:
  assumes "later_than rid (ts, w) (ts', w')" "ts rid = Some th" "\<not> open_thread th"
  shows "ts' rid = Some th \<and> resume_run e x rid g d (ts', w') = (Inl RunAlreadyTerminalError, ts', w')"
proof -
  have "ts' rid = Some th" using later_than_closed [OF assms] .
  then show ?thesis using assms(3) by (simp add: resume_run_def snapshot_for_def Let_def)
qed

lemma ended_run_stays_ended_witness:
  "resume_run demo_env demo_slice ''r0'' SdlcTopology demo_decision
     ([''r0'' \<mapsto> SdlcThread (new_graph_state ''u'' Greenfield [] Replay 0) [] 0], demo_fs) =
   (Inl RunAlreadyTerminalError, [''r0'' \<mapsto> SdlcThread (new_graph_state ''u'' Greenfield [] Replay 0) [] 0], demo_fs)"
  using ended_run_stays_ended [OF later_than.same, of "[''r0'' \<mapsto> SdlcThread (new_graph_state ''u'' Greenfield [] Replay 0) [] 0]"
      "''r0''" _ demo_env demo_slice SdlcTopology demo_decision demo_fs] by simp

text \<open>
  Which runs the sweep expires. Of the runs it is given, exactly those that are SDLC
  runs with work left whose checkpoint is older than the limit. A specialist run is never
  among them, however long it has been parked: the sweep asks with the SDLC graph.
\<close>

theorem sweep_expires_sdlc_runs_only:
  "rid \<in> set (find_stale_runs rids ts now hrs) \<longleftrightarrow>
     rid \<in> set rids \<and> (\<exists>s F t. ts rid = Some (SdlcThread s F t) \<and> F \<noteq> [] \<and> past_ttl hrs now t)"
proof (cases "ts rid")
  case None
  then show ?thesis by (simp add: find_stale_runs_def parked_since_def snapshot_for_def)
next
  case (Some th)
  then show ?thesis
    by (cases th) (auto simp: find_stale_runs_def parked_since_def snapshot_for_def Let_def)
qed

end
