(* ===== verification/AuditTrail.thy ===== *)
theory AuditTrail
  imports Runner "HOL-Library.Sublist"
begin

text \<open>
  The audit trail of a run, on either graph: what each node adds to \<open>events\<close>, set against the
  gates it decides. The trail and the gates are two channels the nodes write separately; the
  theorem says that in every checkpoint they tell the same story. The locale \<open>gated_run\<close> is what
  a graph has to keep for it; both graphs are interpretations.
\<close>

section \<open>Decisions in a trail\<close>

definition is_decision :: "AuditEvent \<Rightarrow> bool" where
  "is_decision e \<longleftrightarrow> ae_event_type e = GateDecision"

text \<open>The decisions a trail reports: the gate, as \<open>key\<close> reads it, and the decision's text.\<close>

definition decided :: "(AuditEvent \<Rightarrow> string) \<Rightarrow> AuditEvent list \<Rightarrow> (string \<times> string option) list" where
  "decided key es = map (\<lambda>e. (key e, ae_decision e)) (filter is_decision es)"

definition decisions_on :: "(AuditEvent \<Rightarrow> string) \<Rightarrow> GateType \<Rightarrow> AuditEvent list \<Rightarrow> string option list" where
  "decisions_on key g es = map snd (filter (\<lambda>d. fst d = gate_name g) (decided key es))"

text \<open>A decision is carried by a decision event, and by no other.\<close>

definition event_ok :: "AuditEvent \<Rightarrow> bool" where
  "event_ok e \<longleftrightarrow> (ae_decision e \<noteq> None \<longleftrightarrow> is_decision e)"

lemma decided_simps [simp]:
  "decided key [] = []" "decided key (es @ es') = decided key es @ decided key es'"
  "decided key (ev_decision c n d t # es) = (key (ev_decision c n d t), Some t) # decided key es"
  "ty \<noteq> GateDecision \<Longrightarrow> decided key (ev c n ty d # es) = decided key es"
  "ty \<noteq> GateDecision \<Longrightarrow> decided key (ev_timed c n ty d # es) = decided key es"
  by (simp_all add: decided_def is_decision_def ev_defs)

lemma ev_decision_fields [simp]: "ae_detail (ev_decision c n d t) = d" "ae_node (ev_decision c n d t) = n"
  by (simp_all add: ev_defs)

lemma decided_map_ev [simp]: "ty \<noteq> GateDecision \<Longrightarrow> decided key (map (\<lambda>v. ev c n ty (f v)) vs) = []"
  by (induction vs) simp_all

lemma event_ok_simps [simp]:
  "event_ok (ev_decision c n d t)"
  "ty \<noteq> GateDecision \<Longrightarrow> event_ok (ev c n ty d)" "ty \<noteq> GateDecision \<Longrightarrow> event_ok (ev_timed c n ty d)"
  by (simp_all add: event_ok_def is_decision_def ev_defs)

lemma gate_name_eq [simp]: "gate_name g = gate_name h \<longleftrightarrow> g = h"
  by (auto dest: gate_name_inject)

text \<open>
  What a step does to the gates, next to what it adds to the trail: nothing in either, or one of
  the gates asked for decided, and one decision event with the recorded status.
\<close>

definition accounted ::
  "(AuditEvent \<Rightarrow> string) \<Rightarrow> GateType set \<Rightarrow> (GateType \<rightharpoonup> GateRecord) \<Rightarrow> (GateType \<rightharpoonup> GateRecord) \<Rightarrow> AuditEvent list \<Rightarrow> bool" where
  "accounted key G m m' es \<longleftrightarrow> list_all event_ok es \<and>
     (m' = m \<and> decided key es = [] \<or>
      (\<exists>g\<in>G. \<exists>r. m' = m(g \<mapsto> r) \<and> gr_gate_type r = g \<and> decided key es = [(gate_name g, Some (gate_status_text (gr_status r)))]))"

lemma accounted_quiet: "accounted key {} m m' es \<longleftrightarrow> list_all event_ok es \<and> m' = m \<and> decided key es = []"
  by (auto simp: accounted_def)

lemma accounted_nothing [simp]: "accounted key G m m []"
  by (simp add: accounted_def)

definition trail_agrees :: "(AuditEvent \<Rightarrow> string) \<Rightarrow> AuditEvent list \<Rightarrow> (GateType \<rightharpoonup> GateRecord) \<Rightarrow> bool" where
  "trail_agrees key es m \<longleftrightarrow> list_all event_ok es \<and>
     (\<forall>g. decisions_on key g es = (case m g of None \<Rightarrow> [] | Some r \<Rightarrow> [Some (gate_status_text (gr_status r))])) \<and>
     (\<forall>g r. m g = Some r \<longrightarrow> gr_gate_type r = g)"

lemma trail_agrees_empty [simp]: "trail_agrees key [] Map.empty"
  by (simp add: trail_agrees_def decisions_on_def)

lemma accounted_agrees:
  assumes "trail_agrees key tr m" "accounted key G m m' es" "\<And>g. g \<in> G \<Longrightarrow> m g = None"
  shows "trail_agrees key (tr @ es) m' \<and> m \<subseteq>\<^sub>m m'"
  using assms(2)[unfolded accounted_def]
proof (elim conjE disjE)
  assume "m' = m" "decided key es = []" "list_all event_ok es"
  then show ?thesis using assms(1) by (simp add: trail_agrees_def decisions_on_def)
next
  assume ok: "list_all event_ok es" and "\<exists>g\<in>G. \<exists>r. m' = m(g \<mapsto> r) \<and> gr_gate_type r = g \<and>
    decided key es = [(gate_name g, Some (gate_status_text (gr_status r)))]"
  then obtain g r where g: "m g = None" and m': "m' = m(g \<mapsto> r)" "gr_gate_type r = g"
      "decided key es = [(gate_name g, Some (gate_status_text (gr_status r)))]"
    using assms(3) by blast
  then show ?thesis using assms(1) ok
    by (auto simp: trail_agrees_def decisions_on_def map_le_def)
qed

section \<open>The contract of a graph\<close>

text \<open>
  A graph that accounts for what each step adds, and asks for no gate that is decided, keeps
  trail and gates in agreement, and only ever adds to them.
\<close>

locale gated_run =
  fixes step :: "'c \<Rightarrow> 'c \<Rightarrow> bool" and trail_of :: "'c \<Rightarrow> AuditEvent list" and gates_of :: "'c \<Rightarrow> (GateType \<rightharpoonup> GateRecord)"
    and key :: "AuditEvent \<Rightarrow> string" and safe :: "'c \<Rightarrow> bool" and asks :: "'c \<Rightarrow> GateType set"
  assumes step_accounted: "safe c \<Longrightarrow> step c c' \<Longrightarrow> \<exists>es. trail_of c' = trail_of c @ es \<and> accounted key (asks c) (gates_of c) (gates_of c') es"
    and asks_fresh: "safe c \<Longrightarrow> g \<in> asks c \<Longrightarrow> gates_of c g = None"
    and step_safe: "safe c \<Longrightarrow> step c c' \<Longrightarrow> safe c'"
begin

lemma step_agrees:
  assumes "safe c" "trail_agrees key (trail_of c) (gates_of c)" "step c c'"
  shows "trail_agrees key (trail_of c') (gates_of c') \<and> prefix (trail_of c) (trail_of c') \<and> gates_of c \<subseteq>\<^sub>m gates_of c'"
proof -
  obtain es where es: "trail_of c' = trail_of c @ es" "accounted key (asks c) (gates_of c) (gates_of c') es"
    using step_accounted [OF assms(1,3)] by blast
  from accounted_agrees [OF assms(2) es(2)] asks_fresh [OF assms(1)] show ?thesis by (simp add: es(1))
qed

lemma steps_agree:
  assumes "step\<^sup>*\<^sup>* c c'" "safe c" "trail_agrees key (trail_of c) (gates_of c)"
  shows "safe c' \<and> trail_agrees key (trail_of c') (gates_of c') \<and> prefix (trail_of c) (trail_of c') \<and> gates_of c \<subseteq>\<^sub>m gates_of c'"
  using assms(1)
proof (induction rule: rtranclp_induct)
  case base
  then show ?case using assms(2,3) by simp
next
  case (step y z)
  then have y: "safe y" "trail_agrees key (trail_of y) (gates_of y)" by simp_all
  from step_agrees [OF y step.hyps(2)] step_safe [OF y(1) step.hyps(2)] step.IH show ?case
    by (meson map_le_trans prefix_order.trans)
qed

end

section \<open>What the nodes of the SDLC graph add\<close>

fun reported :: "chan_write \<Rightarrow> AuditEvent list" where
  "reported (WEvents es) = es"
| "reported w = []"

definition trail :: "updates \<Rightarrow> AuditEvent list" where
  "trail us = concat (map reported us)"

lemma trail_simps [simp]:
  "trail [] = []" "trail (w # us) = reported w @ trail us" "trail (us @ vs) = trail us @ trail vs"
  by (simp_all add: trail_def)

lemma events_apply_write: "events (apply_write w s) = events s @ reported w"
  by (cases w) simp_all

lemma events_apply_writes: "events (apply_writes us s) = events s @ trail us"
  by (induction us arbitrary: s) (simp_all add: events_apply_write)

definition reports :: "GraphState \<Rightarrow> sdlc_node \<Rightarrow> updates \<Rightarrow> bool" where
  "reports s n us \<longleftrightarrow> accounted ae_detail (added_gates s [n]) (gates s) (gates (apply_writes us s)) (trail us)"

lemma status_text_of_record:
  "make_gate_record g d t = Inr r \<Longrightarrow> status_text d = gate_status_text (gr_status r)"
  by (drule make_gate_record_Inr) (auto simp: read_status_text status_text_def)

lemma clarifier_reports: "requirement_clarifier i s = Update us \<Longrightarrow> reports s NClarifier us"
  by (auto simp: requirement_clarifier_def Let_def interrupt_def reports_def accounted_def added_gates_def
      status_text_of_record make_gate_record_type split: if_splits option.splits sum.splits)

lemma reasoner_reports: "codebase_reasoner e i s = Update us \<Longrightarrow> reports s NReasoner us"
  by (auto simp: codebase_reasoner_def Let_def interrupt_def reports_def accounted_def added_gates_def
      status_text_of_record make_gate_record_type split: if_splits option.splits sum.splits prod.splits)

lemma planner_reports: "decomposer_planner i s = Update us \<Longrightarrow> reports s NPlanner us"
  by (auto simp: decomposer_planner_def Let_def interrupt_def reports_def accounted_def added_gates_def
      status_text_of_record make_gate_record_type split: if_splits option.splits sum.splits)

lemma replanner_reports: "replanner i s = Update us \<Longrightarrow> reports s NReplanner us"
  by (auto simp: replanner_def Let_def interrupt_def reports_def accounted_def added_gates_def
      status_text_of_record make_gate_record_type split: if_splits option.splits sum.splits)

lemma design_reports: "architecture_design_node i s = Update us \<Longrightarrow> reports s NDesign us"
  by (auto simp: architecture_design_node_def Let_def reports_def accounted_def)

lemma coder_reports: "coder_node e i ci s w = (Update us, w') \<Longrightarrow> reports s NCoder us"
  by (auto simp: coder_node_def Let_def safe_stop_updates_def reports_def accounted_def
      split: if_splits sum.splits prod.splits option.splits bool.splits)

lemma test_reports: "test_executor i s = Update us \<Longrightarrow> reports s NTest us"
  by (auto simp: test_executor_def Let_def reports_def accounted_def split: if_splits sum.splits)

lemma docs_reports: "documentation_node e i s w = (Update us, w') \<Longrightarrow> reports s NDocs us"
  by (auto simp: documentation_node_def Let_def reports_def accounted_def split: sum.splits prod.splits)

lemma rollback_reports: "rollback_node e i s w = (Update us, w') \<Longrightarrow> reports s NRollback us"
  by (auto simp: rollback_node_def Let_def reports_def accounted_def split: if_splits sum.splits prod.splits)

lemma release_reports: "release_gate e i s w = (Update us, w') \<Longrightarrow> reports s NRelease us"
  by (auto simp: release_gate_def Let_def reports_def accounted_def added_gates_def list_all_iff
      status_text_of_record make_gate_record_type split: if_splits option.splits sum.splits prod.splits)

lemma run_node_reports: "run_node e x n s w = (Update us, w') \<Longrightarrow> reports s n us"
proof (cases n)
  case NSync
  assume "run_node e x n s w = (Update us, w')"
  with NSync have "us = []" using sync_only [of s us] by simp
  with NSync show ?thesis by (simp add: reports_def accounted_quiet added_gates_def)
qed (auto intro: clarifier_reports reasoner_reports planner_reports replanner_reports design_reports coder_reports
    test_reports docs_reports rollback_reports release_reports)

section \<open>Steps of a run\<close>

lemma gates_quiet:
  "reports s n us \<Longrightarrow> added_gates s [n] = {} \<Longrightarrow> gates (apply_writes us s) = gates s \<and> decided ae_detail (trail us) = [] \<and> list_all event_ok (trail us)"
  by (simp add: reports_def accounted_quiet)

lemma gates_apply_writes: "gates s = gates t \<Longrightarrow> gates (apply_writes us s) = gates (apply_writes us t)"
proof (induction us arbitrary: s t)
  case (Cons w us)
  have "gates (apply_write w s) = gates (apply_write w t)" using Cons.prems by (cases w) simp_all
  from Cons.IH [OF this] show ?case by simp
qed simp

text \<open>Every step accounts for what it adds; a pause, or a crash, adds nothing.\<close>

lemma superstep_accounted:
  assumes adv: "superstep e x c = Advanced c'" and F: "cf_frontier c = [n] \<or> parallel_stage (cf_frontier c)"
  shows "\<exists>es. events (cf_state c') = events (cf_state c) @ es \<and>
    accounted ae_detail (added_gates (cf_state c) (cf_frontier c)) (gates (cf_state c)) (gates (cf_state c')) es"
  using F
proof
  assume n: "cf_frontier c = [n]"
  obtain us where "run_node e (x n) n (cf_state c) (cf_world c) = (Update us, cf_world c')"
    and s': "cf_state c' = apply_writes us (cf_state c)"
    using superstep_single [OF adv n] by blast
  from run_node_reports [OF this(1)] show ?thesis
    by (intro exI [of _ "trail us"]) (simp add: s' n events_apply_writes reports_def)
next
  assume F: "parallel_stage (cf_frontier c)"
  then obtain a b where ab: "cf_frontier c = [a, b]" "a \<in> {NTest, NDocs}" "b \<in> {NTest, NDocs}"
    by (auto simp: parallel_stage_def)
  obtain us vs w where
    u: "run_node e (x a) a (cf_state c) (cf_world c) = (Update us, w)" and
    v: "run_node e (x b) b (cf_state c) w = (Update vs, cf_world c')" and
    s': "cf_state c' = apply_writes (us @ vs) (cf_state c)"
    using superstep_pair [OF adv ab(1)] by blast
  have none: "added_gates (cf_state c) [a] = {}" "added_gates (cf_state c) [b] = {}" "added_gates (cf_state c) [a, b] = {}"
    using ab by (auto simp: added_gates_def)
  note qa = gates_quiet [OF run_node_reports [OF u] none(1)]
  note qb = gates_quiet [OF run_node_reports [OF v] none(2)]
  have "gates (cf_state c') = gates (cf_state c)"
    using gates_apply_writes [of "apply_writes us (cf_state c)" "cf_state c" vs] qa qb by (simp add: s')
  then show ?thesis using qa qb
    by (intro exI [of _ "trail us @ trail vs"]) (simp add: s' ab(1) none accounted_quiet events_apply_writes)
qed

lemma sdlc_step_accounted:
  assumes "sdlc_step e c c'" "proper_frontier (cf_frontier c)"
  shows "\<exists>es. events (cf_state c') = events (cf_state c) @ es \<and>
    accounted ae_detail (added_gates (cf_state c) (cf_frontier c)) (gates (cf_state c)) (gates (cf_state c')) es"
  using assms(1)
proof cases
  case (advance ns x)
  from proper_frontier_mset [OF assms(2) advance(1,2)] show ?thesis
  proof (elim disjE exE conjE)
    fix n assume "cf_frontier c = [n]" "ns = [n]"
    then show ?thesis using superstep_accounted [OF advance(3), of n] by simp
  next
    assume p: "parallel_stage (cf_frontier c)" "parallel_stage ns"
    then have "added_gates (cf_state c) (cf_frontier c) = added_gates (cf_state c) ns"
      by (auto simp: parallel_stage_def added_gates_def)
    with superstep_accounted [OF advance(3)] p show ?thesis by simp
  qed
qed auto

section \<open>A gate is decided once\<close>

text \<open>The gate a node is about to ask for is not yet decided.\<close>

definition fresh :: "GraphState \<Rightarrow> sdlc_node list \<Rightarrow> bool" where
  "fresh s F \<longleftrightarrow>
     (F = [NClarifier] \<longrightarrow> gates s = Map.empty) \<and>
     (F = [NReasoner] \<longrightarrow> gates s CodebaseImpactReview = None \<and> gates s PlanApproval = None) \<and>
     (F = [NDesign] \<longrightarrow> gates s PlanApproval = None) \<and>
     (F = [NPlanner] \<longrightarrow> scenario_type s = Greenfield \<longrightarrow> gates s PlanApproval = None) \<and>
     (F = [NReplanner] \<longrightarrow> scenario_type s = Ambiguous \<and> gates s ReplanningApproval = None)"

lemma fresh_move: "fresh s F \<Longrightarrow> move s F s' F' \<Longrightarrow> fresh s' F'"
proof -
  assume I: "fresh s F" and "move s F s' F'"
  from this(2) show "fresh s' F'"
    by cases (use I in \<open>auto simp: fresh_def gate_set_other route_after_clarifier_def route_after_planner_def
      route_after_coder_def route_after_sync_def retry_move_def\<close>)
qed

lemma fresh_added:
  "fresh s F \<Longrightarrow> life_inv s F \<Longrightarrow> g \<in> added_gates s F \<Longrightarrow> gates s g = None"
  by (auto simp: fresh_def life_inv_def added_gates_def split: if_splits)

definition sdlc_safe :: "GraphState \<Rightarrow> sdlc_node list \<Rightarrow> bool" where
  "sdlc_safe s F \<longleftrightarrow> fresh s F \<and> life_inv s F \<and> proper_frontier F"

lemma sdlc_step_safe:
  assumes "sdlc_safe (cf_state c) (cf_frontier c)" "sdlc_step e c c'"
  shows "sdlc_safe (cf_state c') (cf_frontier c')"
proof -
  have I: "fresh (cf_state c) (cf_frontier c)" "life_inv (cf_state c) (cf_frontier c)" "proper_frontier (cf_frontier c)"
    using assms(1) by (simp_all add: sdlc_safe_def)
  from sdlc_step_move [OF assms(2) I(3)] fresh_move [OF I(1)] life_inv_move [OF I(2)] move_proper I
  show ?thesis unfolding sdlc_safe_def by metis
qed

interpretation sdlc: gated_run "sdlc_step (e :: 'w env)" "\<lambda>c. events (cf_state c)" "\<lambda>c. gates (cf_state c)" ae_detail
    "\<lambda>c. sdlc_safe (cf_state c) (cf_frontier c)" "\<lambda>c. added_gates (cf_state c) (cf_frontier c)"
proof
  fix c c' :: "'w config" and g
  assume safe: "sdlc_safe (cf_state c) (cf_frontier c)"
  then show "g \<in> added_gates (cf_state c) (cf_frontier c) \<Longrightarrow> gates (cf_state c) g = None"
    using fresh_added unfolding sdlc_safe_def by blast
  assume "sdlc_step e c c'"
  with safe show "sdlc_safe (cf_state c') (cf_frontier c')" by (rule sdlc_step_safe)
  show "\<exists>es. events (cf_state c') = events (cf_state c) @ es \<and>
      accounted ae_detail (added_gates (cf_state c) (cf_frontier c)) (gates (cf_state c)) (gates (cf_state c')) es"
    using sdlc_step_accounted [OF \<open>sdlc_step e c c'\<close>] safe by (simp add: sdlc_safe_def)
qed

lemma reachable_steps: "reachable e c0 c \<Longrightarrow> (sdlc_step e)\<^sup>*\<^sup>* c0 c"
  by (induction rule: reachable.induct) (auto intro: rtranclp.rtrancl_into_rtrancl)

section \<open>What the nodes of the specialist graph add\<close>

text \<open>There the gate is the event's node.\<close>

fun spec_reported :: "spec_write \<Rightarrow> AuditEvent list" where
  "spec_reported (SEvents es) = es"
| "spec_reported w = []"

definition spec_trail :: "spec_write list \<Rightarrow> AuditEvent list" where
  "spec_trail us = concat (map spec_reported us)"

lemma spec_trail_simps [simp]:
  "spec_trail [] = []" "spec_trail (w # us) = spec_reported w @ spec_trail us"
  by (simp_all add: spec_trail_def)

lemma events_apply_spec: "sr_events (apply_spec w s) = sr_events s @ spec_reported w"
  by (cases w) simp_all

lemma events_apply_specs: "sr_events (apply_specs us s) = sr_events s @ spec_trail us"
  by (induction us arbitrary: s) (simp_all add: events_apply_spec)

definition spec_asks :: "spec_node option \<Rightarrow> GateType set" where
  "spec_asks n = (if n = Some PDesignReview then {SpecialistDesignReview}
     else if n = Some PReleaseReview then {MergeReleaseApproval} else {})"

definition spec_reports :: "SpecialistRunState \<Rightarrow> spec_node \<Rightarrow> spec_write list \<Rightarrow> bool" where
  "spec_reports s n us \<longleftrightarrow> accounted ae_node (spec_asks (Some n)) (sr_gates s) (sr_gates (apply_specs us s)) (spec_trail us)"

lemma failure_reports: "spec_reports s n (failure_writes c p m)"
  by (simp add: spec_reports_def failure_writes_def accounted_def)

lemma preflight_reports: "preflight e x s p = Some us \<Longrightarrow> spec_reports s n us"
  by (auto simp: preflight_def failure_reports split: option.splits sum.splits)

lemma invocation_failure_reports: "invocation_failure c p r = Update us \<Longrightarrow> spec_reports s n us"
  by (cases r) (auto simp: failure_reports)

lemma gate_writes_reports:
  assumes "gate_writes c g l s d = Update us" "g \<in> spec_asks (Some n)"
  shows "spec_reports s n us"
proof -
  obtain gr where gr: "make_gate_record g d (Some (clk_now c)) = Inr gr"
    using assms(1) by (auto simp: gate_writes_def split: sum.splits)
  have "list_all event_ok (spec_trail us) \<and> sr_gates (apply_specs us s) = (sr_gates s)(g \<mapsto> gr) \<and>
      decided ae_node (spec_trail us) = [(gate_name g, Some (gate_status_text (gr_status gr)))]"
    using assms(1) gr status_text_of_record [OF gr] by (auto simp: gate_writes_def split: if_splits)
  then show ?thesis using assms(2) make_gate_record_type [OF gr] unfolding spec_reports_def accounted_def by blast
qed

lemma design_node_reports: "design_node e x s w = (Update us, w') \<Longrightarrow> spec_reports s PDesign us"
  by (auto simp: design_node_def Let_def preflight_reports invocation_failure_reports split: option.splits prod.splits sum.splits)
    (simp add: spec_reports_def accounted_def)

lemma generate_node_reports: "generate_node e x s w = (Update us, w') \<Longrightarrow> spec_reports s PGenerate us"
  by (auto simp: generate_node_def Let_def preflight_reports invocation_failure_reports failure_reports
      split: option.splits prod.splits sum.splits if_splits ws_error.splits)
    (simp_all add: spec_reports_def accounted_def)

lemma publish_node_reports: "publish_node e x s w = (Update us, w') \<Longrightarrow> spec_reports s PPublish us"
  by (auto simp: publish_node_def Let_def failure_reports split: prod.splits sum.splits if_splits)
    (simp add: spec_reports_def accounted_def)

lemma review_reports:
  "design_review_gate x s = Update us \<Longrightarrow> spec_reports s PDesignReview us"
  "release_review_gate e x s w = Update us \<Longrightarrow> spec_reports s PReleaseReview us"
  by (auto simp: design_review_gate_def release_review_gate_def Let_def interrupt_def spec_asks_def
      split: option.splits intro: gate_writes_reports)

lemma run_spec_node_reports: "run_spec_node e x n s w = (Update us, w') \<Longrightarrow> spec_reports s n us"
  by (cases n) (auto intro: design_node_reports review_reports generate_node_reports publish_node_reports)

definition spec_fresh :: "SpecialistRunState \<Rightarrow> spec_node option \<Rightarrow> bool" where
  "spec_fresh s n \<longleftrightarrow> (n \<in> {Some PDesign, Some PDesignReview} \<longrightarrow> sr_gates s = Map.empty) \<and>
     (n \<in> {Some PGenerate, Some PReleaseReview} \<longrightarrow> sr_gates s MergeReleaseApproval = None)"

lemma spec_superstep_cases:
  "(\<exists>n us w. sc_node c = Some n \<and> run_spec_node e x n (sc_state c) (sc_world c) = (Update us, w) \<and>
      spec_superstep e x c = \<lparr>sc_state = apply_specs us (sc_state c), sc_node = spec_next n (apply_specs us (sc_state c)), sc_world = w\<rparr>) \<or>
   sc_state (spec_superstep e x c) = sc_state c \<and> sc_node (spec_superstep e x c) = sc_node c"
  by (auto simp: spec_superstep_def Let_def split: option.splits prod.splits node_result.splits)

lemma spec_fresh_node:
  assumes "spec_fresh s (Some n)" "spec_reports s n us"
  shows "spec_fresh (apply_specs us s) (spec_next n (apply_specs us s))"
proof -
  have "sr_gates (apply_specs us s) = sr_gates s \<or> (\<exists>g \<in> spec_asks (Some n). \<exists>r. sr_gates (apply_specs us s) = (sr_gates s)(g \<mapsto> r))"
    using assms(2) by (auto simp: spec_reports_def accounted_def)
  then show ?thesis using assms(1) by (cases n) (auto simp: spec_fresh_def spec_asks_def)
qed

lemma spec_superstep_accounted:
  "\<exists>es. sr_events (sc_state (spec_superstep e x c)) = sr_events (sc_state c) @ es \<and>
    accounted ae_node (spec_asks (sc_node c)) (sr_gates (sc_state c)) (sr_gates (sc_state (spec_superstep e x c))) es"
  using spec_superstep_cases [of c e x]
proof (elim disjE exE conjE)
  fix n us w assume n: "sc_node c = Some n" "run_spec_node e x n (sc_state c) (sc_world c) = (Update us, w)"
    "spec_superstep e x c = \<lparr>sc_state = apply_specs us (sc_state c), sc_node = spec_next n (apply_specs us (sc_state c)), sc_world = w\<rparr>"
  from run_spec_node_reports [OF n(2)] show ?thesis
    by (intro exI [of _ "spec_trail us"]) (simp add: n(1,3) events_apply_specs spec_reports_def)
qed auto

interpretation spec: gated_run "\<lambda>c c'. \<exists>x. c' = spec_superstep (e :: 'w spec_env) x c" "\<lambda>c. sr_events (sc_state c)"
    "\<lambda>c. sr_gates (sc_state c)" ae_node "\<lambda>c. spec_fresh (sc_state c) (sc_node c)" "\<lambda>c. spec_asks (sc_node c)"
proof
  fix c c' :: "'w spec_config" and g
  assume fr: "spec_fresh (sc_state c) (sc_node c)"
  then show "g \<in> spec_asks (sc_node c) \<Longrightarrow> sr_gates (sc_state c) g = None"
    by (auto simp: spec_fresh_def spec_asks_def split: if_splits)
  assume "\<exists>x. c' = spec_superstep e x c"
  then obtain x where c': "c' = spec_superstep e x c" by blast
  show "spec_fresh (sc_state c') (sc_node c')"
    using spec_superstep_cases [of c e x] spec_fresh_node run_spec_node_reports fr unfolding c' by fastforce
  show "\<exists>es. sr_events (sc_state c') = sr_events (sc_state c) @ es \<and>
      accounted ae_node (spec_asks (sc_node c)) (sr_gates (sc_state c)) (sr_gates (sc_state c')) es"
    unfolding c' by (rule spec_superstep_accounted)
qed

section \<open>Slices and checkpoints\<close>

abbreviation spec_steps :: "'w spec_env \<Rightarrow> 'w spec_config \<Rightarrow> 'w spec_config \<Rightarrow> bool" where
  "spec_steps e \<equiv> (\<lambda>c c'. \<exists>x. c' = spec_superstep e x c)\<^sup>*\<^sup>*"

lemma spec_drive_steps:
  "(case spec_drive e xs k fuel c of SpecDone c' \<Rightarrow> spec_steps e c c' | SpecPaused p c' \<Rightarrow> spec_steps e c c'
    | SpecCrashed r c' \<Rightarrow> spec_steps e c c' | SpecOutOfFuel \<Rightarrow> True)"
proof (induction fuel arbitrary: k c)
  case 0
  then show ?case by (simp add: spec_drive.simps split: option.split)
next
  case (Suc fuel)
  show ?case
  proof (cases "sc_node c")
    case None
    then show ?thesis by (simp add: spec_drive.simps)
  next
    case (Some n)
    obtain r w where r: "run_spec_node e (xs k) n (sc_state c) (sc_world c) = (r, w)"
      by (cases "run_spec_node e (xs k) n (sc_state c) (sc_world c)")
    have one: "spec_steps e c (spec_superstep e (xs k) c)" by blast
    show ?thesis
    proof (cases r)
      case (Update us)
      have "spec_drive e xs k (Suc fuel) c = spec_drive e xs (Suc k) fuel (spec_superstep e (xs k) c)"
        using Some r Update by (subst spec_drive.simps) simp
      then show ?thesis
        using Suc.IH [where k = "Suc k" and c = "spec_superstep e (xs k) c"] one
        by (auto split: spec_driven.splits intro: rtranclp_trans [OF one])
    next
      case (Interrupt p)
      then have "spec_superstep e (xs k) c = c\<lparr>sc_world := w\<rparr>" using Some r by (simp add: spec_superstep_def)
      then show ?thesis using one Some r Interrupt by (simp add: spec_drive.simps)
    next
      case (Raise x)
      then have "spec_superstep e (xs k) c = c\<lparr>sc_world := w\<rparr>" using Some r by (simp add: spec_superstep_def)
      then show ?thesis using one Some r Raise by (simp add: spec_drive.simps)
    qed
  qed
qed

lemma drive_steps:
  "(case drive e xs k fuel c of Done c' \<Rightarrow> (sdlc_step e)\<^sup>*\<^sup>* c c' | PausedAt p c' \<Rightarrow> (sdlc_step e)\<^sup>*\<^sup>* c c'
    | CrashedAt r c' \<Rightarrow> (sdlc_step e)\<^sup>*\<^sup>* c c' | OutOfFuel \<Rightarrow> True)"
  using drive_reachable [OF _ reachable.start, where e = e and xs = xs and k = k and fuel = fuel and c = c]
  by (auto split: driven.split intro: reachable_steps)

text \<open>A checkpoint's trail, its gates, and where its events name the gate.\<close>

fun thread_trail :: "thread \<Rightarrow> AuditEvent list" where
  "thread_trail (SdlcThread s F t) = events s"
| "thread_trail (SpecThread s n t) = sr_events s"

fun thread_gates :: "thread \<Rightarrow> GateType \<rightharpoonup> GateRecord" where
  "thread_gates (SdlcThread s F t) = gates s"
| "thread_gates (SpecThread s n t) = sr_gates s"

fun gate_field :: "thread \<Rightarrow> AuditEvent \<Rightarrow> string" where
  "gate_field (SdlcThread s F t) = ae_detail"
| "gate_field (SpecThread s n t) = ae_node"

fun asks_afresh :: "thread \<Rightarrow> bool" where
  "asks_afresh (SdlcThread s F t) \<longleftrightarrow> sdlc_safe s F"
| "asks_afresh (SpecThread s n t) \<longleftrightarrow> spec_fresh s n"

definition audited :: "thread \<Rightarrow> bool" where
  "audited th \<longleftrightarrow> asks_afresh th \<and> trail_agrees (gate_field th) (thread_trail th) (thread_gates th)"

definition continues :: "thread \<Rightarrow> thread \<Rightarrow> bool" where
  "continues th th' \<longleftrightarrow> prefix (thread_trail th) (thread_trail th') \<and> thread_gates th \<subseteq>\<^sub>m thread_gates th'"

lemma continues_refl [simp]: "continues th th"
  by (simp add: continues_def)

lemma start_thread_audited: "start_thread th \<Longrightarrow> audited th"
  by (cases th) (auto simp: start_thread.simps audited_def sdlc_safe_def fresh_def life_inv_def proper_frontier_def
      new_graph_state_def spec_fresh_def new_specialist_state_def)

lemma sdlc_slice_audited:
  assumes "audited (SdlcThread s F t)" "(sdlc_step e)\<^sup>*\<^sup>* \<lparr>cf_state = s, cf_frontier = F, cf_world = w\<rparr> c"
  shows "audited (SdlcThread (cf_state c) (cf_frontier c) t') \<and> continues (SdlcThread s F t) (SdlcThread (cf_state c) (cf_frontier c) t')"
  using sdlc.steps_agree [OF assms(2)] assms(1) by (simp add: audited_def continues_def)

lemma spec_slice_audited:
  assumes "audited (SpecThread s n t)" "spec_steps e \<lparr>sc_state = s, sc_node = n, sc_world = w\<rparr> c"
  shows "audited (SpecThread (sc_state c) (sc_node c) t') \<and> continues (SpecThread s n t) (SpecThread (sc_state c) (sc_node c) t')"
  using spec.steps_agree [OF assms(2)] assms(1) by (simp add: audited_def continues_def)

lemma invoke_graph_audited:
  assumes "audited th" "invoke_graph e x rid g d th w = (r, th', w')"
  shows "audited th' \<and> continues th th'"
  using assms
proof (induction e x rid g d th w rule: invoke_graph.induct)
  case (1 e x rid d s F t w)
  define c where "c = \<lparr>cf_state = s, cf_frontier = F, cf_world = w\<rparr>"
  show ?case
    using drive_steps [where e = e and xs = "sdlc_answers d x" and k = 0 and fuel = "weight s F" and c = c] sdlc_slice_audited [OF 1(1), where e = e and w = w, folded c_def] 1
    by (cases "drive e (sdlc_answers d x) 0 (weight s F) c") (auto simp: c_def [symmetric])
next
  case (2 e x rid g d s n t w)
  define c where "c = \<lparr>sc_state = s, sc_node = n, sc_world = w\<rparr>"
  show ?case
    using spec_drive_steps [where e = g and xs = "spec_answers d x" and k = 0 and fuel = "spec_rank n" and c = c] spec_slice_audited [OF 2(1), where e = g and w = w, folded c_def] 2
    by (cases "spec_drive g (spec_answers d x) 0 (spec_rank n) c") (auto simp: c_def [symmetric])
qed auto

lemma resume_run_audited:
  assumes "\<And>rid th. ts rid = Some th \<Longrightarrow> audited th" "resume_run e x rid g d (ts, w) = (r, tw')"
  shows "(\<forall>rid' th'. fst tw' rid' = Some th' \<longrightarrow> audited th') \<and> (\<forall>th. ts rid = Some th \<longrightarrow> (\<exists>th'. fst tw' rid = Some th' \<and> continues th th'))"
  using resume_run_cases [OF assms(2)]
proof (elim disjE conjE exE)
  fix th r0 th' w' assume th: "ts rid = Some th" and i: "invoke_graph e x rid g (Some d) th w = (r0, th', w')"
    and tw': "tw' = (ts(rid \<mapsto> th'), w')"
  have "audited th' \<and> continues th th'" using assms(1) [OF th] i by (rule invoke_graph_audited)
  then show ?thesis using assms(1) by (simp add: tw' th)
qed (use assms(1) in auto)

lemma runner_history_audited: "runner_history tw \<Longrightarrow> fst tw rid = Some th \<Longrightarrow> audited th"
proof (induction arbitrary: rid th rule: runner_history.induct)
  case (started tw th0 g e x rid0 r tw')
  obtain ts w where tw: "tw = (ts, w)" by fastforce
  obtain r0 th' w' where i: "invoke_graph e x rid0 g None th0 w = (r0, th', w')" by (cases "invoke_graph e x rid0 g None th0 w")
  then have "tw' = (ts(rid0 \<mapsto> th'), w')" using started.hyps(4) tw by (auto simp: start_run_def)
  then show ?case
    using invoke_graph_audited [OF start_thread_audited [OF started.hyps(2)] i] started.IH [of rid] started.prems tw
    by (auto split: if_splits)
next
  case (resumed tw e x rid0 g d r tw')
  obtain ts w where tw: "tw = (ts, w)" by fastforce
  show ?case using resume_run_audited [OF _ resumed.hyps(2) [unfolded tw]] resumed.IH resumed.prems tw by fastforce
qed auto

section \<open>Properties\<close>

text \<open>
  C24: the audit trail tells what the gates tell, in every checkpoint of the service, on either
  graph. For each gate the run has decided, the trail holds exactly one decision on it, with the
  status that is recorded under that gate, and none on a gate not decided; no other event
  carries a decision. And both only grow: whatever a further slice does, with any decision,
  any failure and any graph, an event in the trail stays where it is and a gate's record is never replaced.
\<close>

theorem audit_trail_records_every_gate:
  assumes "runner_history tw" "fst tw rid = Some th" "resume_run e x rid g d tw = (r, tw')"
  shows "trail_agrees (gate_field th) (thread_trail th) (thread_gates th) \<and>
    (\<exists>th'. fst tw' rid = Some th' \<and> prefix (thread_trail th) (thread_trail th') \<and> thread_gates th \<subseteq>\<^sub>m thread_gates th')"
proof -
  obtain ts w where tw: "tw = (ts, w)" by fastforce
  have "audited th'" if "ts rid' = Some th'" for rid' th'
    using runner_history_audited [OF assms(1)] that tw by simp
  then obtain th' where "fst tw' rid = Some th'" "continues th th'"
    using resume_run_audited [of ts e x rid g d w r tw'] assms(2,3) tw by auto
  then show ?thesis using runner_history_audited [OF assms(1,2)] by (simp add: audited_def continues_def)
qed

lemma demo_resumed_history: "runner_history (snd demo_resumed)"
  using runner_history.resumed [OF demo_started_history] unfolding demo_resumed_def by (metis prod.collapse)

lemma demo_resumed_gate:
  "case fst (snd demo_resumed) ''r1'' of None \<Rightarrow> False
   | Some th \<Rightarrow> map_option gr_status (thread_gates th ClarificationApproval) = Some Approved"
  by code_simp

lemma audit_trail_records_every_gate_witness:
  "\<exists>th th'. fst (snd demo_resumed) ''r1'' = Some th \<and> prefix (thread_trail th) (thread_trail th') \<and>
     decisions_on (gate_field th) ClarificationApproval (thread_trail th) = [Some ''approved'']"
proof -
  obtain th where th: "fst (snd demo_resumed) ''r1'' = Some th" "map_option gr_status (thread_gates th ClarificationApproval) = Some Approved"
    using demo_resumed_gate by (auto split: option.splits)
  obtain r tw' where "resume_run demo_env demo_slice ''r1'' SdlcTopology demo_decision (snd demo_resumed) = (r, tw')"
    by (rule prod.exhaust)
  from audit_trail_records_every_gate [OF demo_resumed_history th(1) this] obtain th' where
    "trail_agrees (gate_field th) (thread_trail th) (thread_gates th)" "prefix (thread_trail th) (thread_trail th')"
    by blast
  with th show ?thesis unfolding trail_agrees_def by (intro exI [of _ th] exI [of _ th']) auto
qed

end
