(* ===== verification/Routing.thy ===== *)
theory Routing
  imports Runner
begin

text \<open>
  \<open>agentic_control_plane/run_routing.py\<close>: which graph a run is started on, from the clone,
  and which graph it is resumed on, from its checkpoint; and the start-up sweep of
  \<open>main.py\<close>, which asks each run's own graph whether it can continue.
\<close>

section \<open>The host of the runs\<close>

text \<open>
  \<open>ho_sdlc rid\<close> is what the SDLC graph of a run is bound to; \<open>ho_spec rid\<close> is a specialist
  graph's binding but for the fields the route decides.
\<close>

record 'w host =
  ho_ws :: "'w ws_env"
  ho_sdlc :: "string \<Rightarrow> 'w env"
  ho_spec :: "string \<Rightarrow> 'w spec_env"
  ho_output_root :: "string option"

definition specialist_output_root :: "'w host \<Rightarrow> path" where
  "specialist_output_root h = path_parts (get_or ''/specialist-output'' (ho_output_root h))"

definition output_path_for :: "'w host \<Rightarrow> string \<Rightarrow> path" where
  "output_path_for h rid = join_path (specialist_output_root h) rid"

fun is_specialist_run :: "run_values \<Rightarrow> bool" where
  "is_specialist_run (SdlcValues s) = False"
| "is_specialist_run (SpecValues s) = True"

definition workspace_remote :: "'w host \<Rightarrow> string \<Rightarrow> ('w, node_error, string option) io" where
  "workspace_remote h rid = git_remote_url (we_git (ho_ws h) (workspace_for (ho_ws h) rid))"

definition route_for_workspace ::
  "'w host \<Rightarrow> (node_error, RoutingTable) result \<Rightarrow> string \<Rightarrow> ('w, node_error, Resolution) io" where
  "route_for_workspace h table rid w =
     (case table of
        Inl r \<Rightarrow> (Inl r, w)
      | Inr t \<Rightarrow>
          (case workspace_remote h rid w of
             (Inl r, w') \<Rightarrow> (Inl r, w')
           | (Inr url, w') \<Rightarrow> (resolve_target t (repository_name url), w')))"

definition specialist_graph :: "'w host \<Rightarrow> string \<Rightarrow> Resolution \<Rightarrow> ExternalSpecialist \<Rightarrow> 'w graph" where
  "specialist_graph h rid rs sp = SpecTopology ((ho_spec h rid)\<lparr>sg_specialist := sp,
     sg_tenant_repo := workspace_for (ho_ws h) rid, sg_output_repo := output_path_for h rid,
     sg_output_repository := rs_output_repository rs, sg_output_branch := rs_output_branch rs\<rparr>)"

section \<open>Starting\<close>

definition read_scenario :: "string \<Rightarrow> ScenarioType option" where
  "read_scenario s =
     (if s = ''greenfield'' then Some Greenfield else if s = ''brownfield'' then Some Brownfield
      else if s = ''ambiguous'' then Some Ambiguous else None)"

text \<open>
  The initial checkpoint and the graph. The SDLC state is built without a run id and draws
  a fresh one of its own; the specialist's carries the run's.
\<close>

definition plan_for_trigger ::
  "'w host \<Rightarrow> 'w slice_in \<Rightarrow> string \<Rightarrow> string \<Rightarrow> string \<Rightarrow> OrchestratorMode \<Rightarrow> ('w, node_error, thread \<times> 'w graph) io" where
  "plan_for_trigger h x rid scenario requirement m =
     bind_io (route_for_workspace h (sl_table x) rid) (\<lambda>rs.
       case rs_specialist rs of
         Builtin _ \<Rightarrow>
           (case read_scenario scenario of
              None \<Rightarrow> raise_io (ValidationError ''GraphState'')
            | Some sc \<Rightarrow>
                ret_io (SdlcThread (new_graph_state (sl_fresh_id x) sc requirement m (sl_now x)) [NClarifier] (sl_now x), SdlcTopology))
       | External sp \<Rightarrow>
           bind_io (workspace_remote h rid) (\<lambda>url.
             ret_io (SpecThread (new_specialist_state rid (rs_name rs) (rs_scenario rs) (get_or [] (repository_name url)) (sl_now x))
                 (Some PDesign) (sl_now x), specialist_graph h rid rs sp)))"

section \<open>Resuming\<close>

datatype routing_error = RoutingChangedError string | RoutingRaises node_error

definition routing_changed_text :: "string \<Rightarrow> string \<Rightarrow> string" where
  "routing_changed_text rid n = ''run '' @ rid @ '' was started as a specialist run, and its target now routes to '' @ quoted n @
     ''. Restore the routing table it was started under, or abandon the run - resuming it would generate from a design this specialist did not write.''"

text \<open>The channel values of a checkpoint; one that cannot be read counts as none.\<close>

definition stored_channel_values :: "'w slice_in \<Rightarrow> threads \<Rightarrow> string \<Rightarrow> run_values option" where
  "stored_channel_values x ts rid = (if sl_saver_readable x then map_option thread_values (ts rid) else None)"

definition graph_factory_for_existing_run ::
  "'w host \<Rightarrow> 'w slice_in \<Rightarrow> string \<Rightarrow> threads \<Rightarrow> ('w, routing_error, 'w graph) io" where
  "graph_factory_for_existing_run h x rid ts w =
     (case stored_channel_values x ts rid of
        None \<Rightarrow> (Inr SdlcTopology, w)
      | Some v \<Rightarrow>
          if \<not> is_specialist_run v then (Inr SdlcTopology, w)
          else case route_for_workspace h (sl_table x) rid w of
            (Inl r, w') \<Rightarrow> (Inl (RoutingRaises r), w')
          | (Inr rs, w') \<Rightarrow>
              (case rs_specialist rs of
                 Builtin _ \<Rightarrow> (Inl (RoutingChangedError (routing_changed_text rid (rs_name rs))), w')
               | External sp \<Rightarrow> (Inr (specialist_graph h rid rs sp), w')))"

section \<open>The sweep at start-up\<close>

text \<open>Reading a remote is taken to leave the world as it is for the next question.\<close>

definition resumable_here :: "'w host \<Rightarrow> 'w slice_in \<Rightarrow> threads \<Rightarrow> 'w \<Rightarrow> string \<Rightarrow> (unit, bool) result" where
  "resumable_here h x ts w rid =
     (case fst (graph_factory_for_existing_run h x rid ts w) of
        Inl _ \<Rightarrow> Inl ()
      | Inr g \<Rightarrow> Inr (is_resumable g ts rid))"

definition reconcile_workspaces ::
  "'w host \<Rightarrow> 'w slice_in \<Rightarrow> threads \<Rightarrow> 'w \<Rightarrow> root_dir option \<Rightarrow> string list \<times> root_dir option" where
  "reconcile_workspaces h x ts w = reconcile (resumable_here h x ts w)"

section \<open>Facts\<close>

lemma plan_for_trigger_starts:
  assumes "plan_for_trigger h x rid sc req m w = (Inr (th, g), w')"
  shows "start_thread th \<and> reads_thread g th"
  using assms unfolding plan_for_trigger_def
  by (auto simp: specialist_graph_def ret_io_def raise_io_def elim!: bind_io_InrE split: Specialist.splits option.splits)

lemma factory_reads:
  assumes "fst (graph_factory_for_existing_run h x rid ts w) = Inr g" "ts rid = Some th" "sl_saver_readable x"
  shows "reads_thread g th"
  using assms
  by (cases th) (auto simp: graph_factory_for_existing_run_def stored_channel_values_def specialist_graph_def
      split: prod.splits sum.splits Specialist.splits)

lemma factory_unknown: "ts rid = None \<Longrightarrow> graph_factory_for_existing_run h x rid ts w = (Inr SdlcTopology, w)"
  by (simp add: graph_factory_for_existing_run_def stored_channel_values_def)

section \<open>A host\<close>

text \<open>Every process succeeds; the clone's remote is \<open>c0ffee\<close>, routed to an external specialist or to nobody.\<close>

definition demo_ws :: "fs ws_env" where
  "demo_ws = \<lparr>we_pat = \<lparr>pe_file = None, pe_var = []\<rparr>, we_root = [''ws''], we_exists = (\<lambda>_ _. False),
     we_rmtree = (\<lambda>_ w. w), we_mkdirs = (\<lambda>_ w. w), we_run = (\<lambda>_ _ w. (Exited 0 [] [], w)),
     we_git = (\<lambda>_. e_git demo_env), we_committer = (''cp'', ''cp@x'')\<rparr>"

definition demo_spec :: ExternalSpecialist where
  "demo_spec = \<lparr>es_command = ''port'', es_distribution = None, es_phases = [(DESIGN_PHASE, demo_phase), (GENERATE_PHASE, demo_phase)]\<rparr>"

definition demo_host :: "fs host" where
  "demo_host = \<lparr>ho_ws = demo_ws, ho_sdlc = (\<lambda>_. demo_env),
     ho_spec = (\<lambda>_. \<lparr>sg_specialist = demo_spec, sg_tenant_repo = [], sg_output_repo = [], sg_output_repository = None,
       sg_output_branch = [], sg_run = (\<lambda>_ _ _ w. (Exited 0 demo_answer [], w)), sg_ws = demo_ws,
       sg_is_file = (\<lambda>_ _. True), sg_walk = (\<lambda>_ _. None),
       sg_publish = \<lparr>pb_mode = Some ''branch'', pb_pat = \<lparr>pe_file = None, pe_var = []\<rparr>,
         pb_run = (\<lambda>_ w. (Exited 0 [] [], w)), pb_post = (\<lambda>_ _ _ w. (HttpFailed [], w)), pb_float = id\<rparr>,
       sg_float = id\<rparr>),
     ho_output_root = Some ''/out''\<rparr>"

definition demo_table :: RoutingTable where
  "demo_table = \<lparr>tb_version = 1, tb_specialists = [(DEFAULT_SPECIALIST, Builtin default_builtin), (''port'', External demo_spec)],
     tb_routes = [\<lparr>rt_scenario = ''modernise'', rt_repository = ''c0ffee'', rt_specialist = ''port'',
       rt_output_repository = Some ''https://h/o/new'', rt_output_branch = ''main''\<rparr>]\<rparr>"

definition demo_routed :: "fs slice_in" where
  "demo_routed = demo_slice\<lparr>sl_table := Inr demo_table\<rparr>"

definition demo_plan :: "(node_error, thread \<times> fs graph) result \<times> fs" where
  "demo_plan = plan_for_trigger demo_host demo_routed ''r1'' ''brownfield'' ''port it'' Replay demo_fs"

lemma demo_plan_specialist:
  "case fst demo_plan of Inr (SpecThread s n t, SpecTopology e) \<Rightarrow> sr_specialist s = ''port'' \<and> n = Some PDesign | _ \<Rightarrow> False"
  by code_simp

section \<open>Properties\<close>

text \<open>
  C25: a run is resumed on the graph it was started on. If the routing table is the one the
  run was planned under and its clone still has the same remote, then - in whatever process,
  from any checkpoint that graph has written - the graph rebuilt for the resume is the very
  graph of the start: the same topology, specialist, workspace, output directory, output
  repository and branch.
\<close>

theorem resumed_on_its_own_graph:
  assumes "plan_for_trigger h x rid sc req m w = (Inr (th0, g), w1)"
    and "ts rid = Some th" "reads_thread g th" "sl_saver_readable x'"
    and "sl_table x' = sl_table x" "fst (workspace_remote h rid w2) = fst (workspace_remote h rid w)"
  shows "fst (graph_factory_for_existing_run h x' rid ts w2) = Inr g"
proof -
  obtain rs w0 where r: "route_for_workspace h (sl_table x) rid w = (Inr rs, w0)"
    using assms(1) unfolding plan_for_trigger_def by (elim bind_io_InrE)
  then obtain t url where t: "sl_table x = Inr t" "fst (workspace_remote h rid w) = Inr url" "resolve_target t (repository_name url) = Inr rs"
    by (auto simp: route_for_workspace_def split: sum.splits prod.splits)
  obtain w3 where r2: "route_for_workspace h (sl_table x') rid w2 = (Inr rs, w3)"
    using t assms(5,6) by (cases "workspace_remote h rid w2") (auto simp: route_for_workspace_def)
  show ?thesis
  proof (cases "rs_specialist rs")
    case (Builtin b)
    then have "g = SdlcTopology"
      using assms(1) r by (auto simp: plan_for_trigger_def bind_io_def ret_io_def raise_io_def split: option.splits)
    with assms(2-4) show ?thesis
      by (cases th) (auto simp: graph_factory_for_existing_run_def stored_channel_values_def)
  next
    case (External sp)
    then have g: "g = specialist_graph h rid rs sp"
      using assms(1) r by (auto simp: plan_for_trigger_def bind_io_def ret_io_def split: sum.splits prod.splits)
    with assms(2-4) r2 External show ?thesis
      by (cases th) (auto simp: graph_factory_for_existing_run_def stored_channel_values_def specialist_graph_def)
  qed
qed

lemma resumed_on_its_own_graph_witness:
  "\<exists>th g. fst demo_plan = Inr (th, g) \<and>
     fst (graph_factory_for_existing_run demo_host demo_routed ''r1'' [''r1'' \<mapsto> th] demo_fs) = Inr g \<and> g \<noteq> SdlcTopology"
proof -
  obtain s n t e where p: "fst demo_plan = Inr (SpecThread s n t, SpecTopology e)"
    using demo_plan_specialist by (auto split: sum.splits prod.splits thread.splits graph.splits)
  then have "plan_for_trigger demo_host demo_routed ''r1'' ''brownfield'' ''port it'' Replay demo_fs =
      (Inr (SpecThread s n t, SpecTopology e), snd demo_plan)"
    by (simp add: demo_plan_def prod_eq_iff)
  from resumed_on_its_own_graph [OF this, of "[''r1'' \<mapsto> SpecThread s n t]" "SpecThread s n t" demo_routed demo_fs] p
  show ?thesis by (simp add: demo_routed_def demo_slice_def)
qed



text \<open>
  A checkpoint that cannot be read for a moment costs a specialist run its decision.
  While routing a decision the unreadable checkpoint counts as none and the SDLC graph is
  chosen; asked with it, the parked run has nothing left to do, and the decision is
  answered as already terminal although the run still waits for it.
\<close>

theorem unreadable_checkpoint_drops_decision:
  assumes "\<not> sl_saver_readable x" "ts rid = Some (SpecThread s (Some n) t)"
  shows "graph_factory_for_existing_run h x rid ts w = (Inr SdlcTopology, w) \<and>
    resume_run e x rid SdlcTopology d (ts, w) = (Inl RunAlreadyTerminalError, ts, w)"
  using assms by (simp add: graph_factory_for_existing_run_def stored_channel_values_def resume_run_def snapshot_for_def Let_def)

lemma unreadable_checkpoint_drops_decision_witness:
  "\<exists>ts. is_resumable (SpecTopology (ho_spec demo_host ''r1'')) ts ''r1'' \<and>
     resume_run demo_env (demo_slice\<lparr>sl_saver_readable := False\<rparr>) ''r1'' SdlcTopology demo_decision (ts, demo_fs) =
       (Inl RunAlreadyTerminalError, ts, demo_fs)"
proof -
  define ts :: threads where "ts = [''r1'' \<mapsto> SpecThread (new_specialist_state ''r1'' ''port'' ''modernise'' ''c0ffee'' 0) (Some PDesignReview) 0]"
  have "resume_run demo_env (demo_slice\<lparr>sl_saver_readable := False\<rparr>) ''r1'' SdlcTopology demo_decision (ts, demo_fs) =
      (Inl RunAlreadyTerminalError, ts, demo_fs)"
    by (rule unreadable_checkpoint_drops_decision [THEN conjunct2]) (simp_all add: ts_def)
  moreover have "is_resumable (SpecTopology (ho_spec demo_host ''r1'')) ts ''r1''"
    by (simp add: is_resumable_def snapshot_for_def ts_def)
  ultimately show ?thesis by blast
qed

end
