(* ===== verification/Telemetry.thy ===== *)
theory Telemetry
  imports Invocation "HOL-Library.Sublist"
begin

text \<open>
  \<open>agentic_control_plane/telemetry.py\<close>: the hash-chained audit log. The file is its text, or
  absent; the digest is a function \<open>h\<close> from texts to texts (SHA-256 in hexadecimal), of which
  only the length of its results is used, and an event's JSON form is an argument, pydantic's.
\<close>

section \<open>Lines of a file\<close>

text \<open>Iterating over a text file: LF, CR and CR LF end a line; a text ending in one has no further line.\<close>

definition skip_lf :: "string \<Rightarrow> string" where
  "skip_lf s = (if startswith s [CHR 0x0A] then tl s else s)"

lemma length_skip_lf [termination_simp]: "length (skip_lf s) \<le> length s"
  by (simp add: skip_lf_def)

lemma skip_lf_shorter [termination_simp]: "length (skip_lf s) < Suc (length s)"
  using length_skip_lf [of s] by simp

fun file_lines_acc :: "string \<Rightarrow> string \<Rightarrow> string list" where
  "file_lines_acc acc [] = (if acc = [] then [] else [rev acc])"
| "file_lines_acc acc (c # s) =
     (if c = CHR 0x0A then rev acc # file_lines_acc [] s
      else if c = CHR 0x0D then rev acc # file_lines_acc [] (skip_lf s)
      else file_lines_acc (c # acc) s)"

definition file_lines :: "string \<Rightarrow> string list" where
  "file_lines s = file_lines_acc [] s"

section \<open>The console trace\<close>

fun event_type_text :: "EventType \<Rightarrow> string" where
  "event_type_text NodeStart = ''node_start''"
| "event_type_text NodeEnd = ''node_end''"
| "event_type_text GateDecision = ''gate_decision''"
| "event_type_text EvRetry = ''retry''"
| "event_type_text EvFallback = ''fallback''"
| "event_type_text EvRollback = ''rollback''"
| "event_type_text EvSafeStop = ''safe_stop''"
| "event_type_text EvGuardrailViolation = ''guardrail_violation''"

definition ljust :: "nat \<Rightarrow> string \<Rightarrow> string" where
  "ljust n s = s @ replicate (n - length s) CHR '' ''"

text \<open>\<open>hms\<close> formats a time of day, \<open>rounded\<close> a latency without decimals.\<close>

definition render_console_line :: "(time \<Rightarrow> string) \<Rightarrow> (int \<Rightarrow> string) \<Rightarrow> AuditEvent \<Rightarrow> string" where
  "render_console_line hms rounded ev' =
     ''['' @ hms (ae_timestamp ev') @ ''] '' @ ljust 24 (ae_node ev') @ '' '' @ ljust 18 (event_type_text (ae_event_type ev')) @
     '' '' @ ae_detail ev' @
     (case ae_decision ev' of None \<Rightarrow> [] | Some d \<Rightarrow> if d = [] then [] else '' | decision='' @ d) @
     (case ae_latency_ms ev' of None \<Rightarrow> [] | Some l \<Rightarrow> '' | '' @ rounded l @ ''ms'')"

definition render_console_trace :: "(time \<Rightarrow> string) \<Rightarrow> (int \<Rightarrow> string) \<Rightarrow> AuditEvent list \<Rightarrow> string" where
  "render_console_trace hms rounded evs = join newline (map (render_console_line hms rounded) evs)"

section \<open>Records\<close>

definition GENESIS_HASH :: string where
  "GENESIS_HASH = replicate 64 CHR ''0''"

definition canonical :: "json \<Rightarrow> string" where
  "canonical j = dumps (sort_json j)"

definition record_digest :: "(string \<Rightarrow> string) \<Rightarrow> string \<Rightarrow> string \<Rightarrow> json \<Rightarrow> string" where
  "record_digest h seq prev event = h (seq @ newline @ prev @ newline @ canonical event)"

definition record_json :: "int \<Rightarrow> string \<Rightarrow> string \<Rightarrow> json \<Rightarrow> json" where
  "record_json seq prev digest event =
     JObj [(''seq'', JInt seq), (''prev_hash'', JStr prev), (''hash'', JStr digest), (''event'', event)]"

definition record_line :: "int \<Rightarrow> string \<Rightarrow> string \<Rightarrow> json \<Rightarrow> string" where
  "record_line seq prev digest event = canonical (record_json seq prev digest event)"

section \<open>Verification\<close>

record ChainVerification =
  cv_ok :: bool
  cv_records_checked :: nat
  cv_broken_at_line :: "nat option"
  cv_reason :: string

definition intact :: "nat \<Rightarrow> ChainVerification" where
  "intact n = \<lparr>cv_ok = True, cv_records_checked = n, cv_broken_at_line = None, cv_reason = []\<rparr>"

definition broken :: "nat \<Rightarrow> nat \<Rightarrow> string \<Rightarrow> ChainVerification" where
  "broken n line r = \<lparr>cv_ok = False, cv_records_checked = n, cv_broken_at_line = Some line, cv_reason = r\<rparr>"

definition RECORD_FIELDS :: "string list" where
  "RECORD_FIELDS = [''event'', ''hash'', ''prev_hash'', ''seq'']"

text \<open>The checks of one record: what is wrong with it, or the digest the next one must name.\<close>

definition check_record :: "(string \<Rightarrow> string) \<Rightarrow> int \<Rightarrow> string \<Rightarrow> (string, json) dict \<Rightarrow> (string, string) result" where
  "check_record h seq prev d =
     (let missing = filter (\<lambda>f. dict_get d f = None) RECORD_FIELDS; get = (\<lambda>f. get_or JNull (dict_get d f)) in
      if missing \<noteq> [] then Inl (''record is missing '' @ list_repr missing)
      else if \<not> equals_int (get ''seq'') seq
        then Inl (''expected seq '' @ int_str seq @ '', found '' @ py_str (get ''seq'') @ '' - a record was removed or reordered'')
      else if get ''prev_hash'' \<noteq> JStr prev then Inl (''prev_hash does not match the previous record'' @ [CHR 0x27] @ ''s digest'')
      else let recomputed = record_digest h (py_str (get ''seq'')) prev (get ''event'') in
        if get ''hash'' \<noteq> JStr recomputed then Inl ''record contents do not match its own digest''
        else Inr recomputed)"

fun verify_lines ::
  "(string \<Rightarrow> string) \<Rightarrow> (string \<Rightarrow> string) \<Rightarrow> nat \<Rightarrow> nat \<Rightarrow> string \<Rightarrow> string list \<Rightarrow> (node_error, ChainVerification) result" where
  "verify_lines h fr line n prev [] = Inr (intact n)"
| "verify_lines h fr line n prev (l # ls) =
     (if strip l = [] then verify_lines h fr (Suc line) n prev ls
      else case loads fr (strip l) of
        None \<Rightarrow> Inr (broken n line ''not valid JSON'')
      | Some (JObj d) \<Rightarrow>
          (case check_record h (int n) prev d of
             Inl m \<Rightarrow> Inr (broken n line m)
           | Inr digest \<Rightarrow> verify_lines h fr (Suc line) (Suc n) digest ls)
      | Some _ \<Rightarrow> Inl (AttributeError ''keys''))"

definition verify_chain :: "(string \<Rightarrow> string) \<Rightarrow> (string \<Rightarrow> string) \<Rightarrow> string option \<Rightarrow> (node_error, ChainVerification) result" where
  "verify_chain h fr file = (case file of None \<Rightarrow> Inr (intact 0) | Some t \<Rightarrow> verify_lines h fr 1 0 GENESIS_HASH (file_lines t))"

section \<open>The sink\<close>

record sink =
  tk_seq :: int
  tk_prev :: string
  tk_counts :: "string \<rightharpoonup> nat"

text \<open>\<open>int(x)\<close> of a decoded value; \<open>num\<close> reads the texts of floats and strings.\<close>

definition int_of_json :: "(string \<Rightarrow> int option) \<Rightarrow> json \<Rightarrow> int option" where
  "int_of_json num j = (case j of JInt i \<Rightarrow> Some i | JBool b \<Rightarrow> Some (if b then 1 else 0)
     | JFloat t \<Rightarrow> num t | JStr t \<Rightarrow> num t | _ \<Rightarrow> None)"

definition last_text_line :: "string \<Rightarrow> string" where
  "last_text_line t = (case rev (filter (\<lambda>l. l \<noteq> []) (map strip (file_lines t))) of [] \<Rightarrow> [] | l # _ \<Rightarrow> l)"

definition resume_chain :: "(string \<Rightarrow> string) \<Rightarrow> (string \<Rightarrow> int option) \<Rightarrow> string option \<Rightarrow> int \<times> string" where
  "resume_chain fr num file =
     (case file of
        None \<Rightarrow> (0, GENESIS_HASH)
      | Some t \<Rightarrow>
          if last_text_line t = [] then (0, GENESIS_HASH)
          else case loads fr (last_text_line t) of
            Some (JObj d) \<Rightarrow>
              (case (dict_get d ''seq'', dict_get d ''hash'') of
                 (Some s, Some x) \<Rightarrow> (case int_of_json num s of Some i \<Rightarrow> (i + 1, py_str x) | None \<Rightarrow> (0, GENESIS_HASH))
               | _ \<Rightarrow> (0, GENESIS_HASH))
          | _ \<Rightarrow> (0, GENESIS_HASH))"

definition new_sink :: "(string \<Rightarrow> string) \<Rightarrow> (string \<Rightarrow> int option) \<Rightarrow> string option \<Rightarrow> sink" where
  "new_sink fr num file = (let (q, p) = resume_chain fr num file in \<lparr>tk_seq = q, tk_prev = p, tk_counts = Map.empty\<rparr>)"

definition forget_run :: "string \<Rightarrow> sink \<Rightarrow> sink" where
  "forget_run rid k = k\<lparr>tk_counts := (tk_counts k)(rid := None)\<rparr>"

text \<open>The loop over new events: each line is the chain's next record.\<close>

fun append_records :: "(string \<Rightarrow> string) \<Rightarrow> json list \<Rightarrow> int \<Rightarrow> string \<Rightarrow> string \<Rightarrow> int \<times> string \<times> string" where
  "append_records h [] q p t = (q, p, t)"
| "append_records h (j # js) q p t =
     (let d = record_digest h (int_str q) p j in append_records h js (q + 1) d (t @ record_line q p d j @ newline))"

definition flush_new_events ::
  "(string \<Rightarrow> string) \<Rightarrow> ('ev \<Rightarrow> json) \<Rightarrow> string \<Rightarrow> 'ev list \<Rightarrow> sink \<times> string option \<Rightarrow> 'ev list \<times> sink \<times> string option" where
  "flush_new_events h pj rid evs kf =
     (let (k, file) = kf; new = drop (get_or 0 (tk_counts k rid)) evs in
      if new = [] then ([], k, file)
      else let (q, p, t) = append_records h (map pj new) (tk_seq k) (tk_prev k) (get_or [] file) in
        (new, k\<lparr>tk_seq := q, tk_prev := p, tk_counts := (tk_counts k)(rid \<mapsto> length evs)\<rparr>, Some t))"

section \<open>Printed JSON is printable\<close>

definition plain :: "char \<Rightarrow> bool" where
  "plain c \<longleftrightarrow> 32 \<le> code c \<and> code c \<le> 126"

lemma plain_digit: "is_digit c \<Longrightarrow> plain c"
  by (auto simp: is_digit_def plain_def Let_def)

lemma plain_hex: "d < 16 \<Longrightarrow> plain (hex_digit d)"
  by (auto simp: hex_digit_def plain_def code_def)

lemma plain_esc: "c \<in> set (esc_char x) \<Longrightarrow> plain c"
proof -
  have "code x div 16 < 16" "code x mod 16 < 16" using code_less [of x] by auto
  moreover assume "c \<in> set (esc_char x)"
  ultimately show ?thesis
    by (auto simp: esc_char_def Let_def plain_hex split: if_splits) (auto simp: plain_def code_def)
qed

lemma plain_quote: "c \<in> set (quote s) \<Longrightarrow> plain c"
  by (auto simp: quote_def plain_esc) (auto simp: plain_def code_def)

lemma plain_int_str: "c \<in> set (int_str i) \<Longrightarrow> plain c"
  by (auto simp: int_str_def dest!: nat_str_digits plain_digit split: if_splits) (simp add: plain_def code_def)

lemma plain_digits: "c \<in> set (digits s) \<Longrightarrow> plain c"
  by (auto simp: digits_def dest!: set_takeWhileD plain_digit)

lemma plain_float: "float_text s \<Longrightarrow> c \<in> set s \<Longrightarrow> plain c"
proof -
  have marks: "plain CHR ''-''" "plain CHR ''+''" "plain CHR ''.''" "plain CHR ''e''" "plain CHR ''E''" "plain CHR ''0''"
    by (simp_all add: plain_def code_def)
  have i: "scan_int t = Some (ip, u) \<Longrightarrow> x \<in> set ip \<Longrightarrow> plain x" for t ip u x
    by (auto simp: scan_int_def marks plain_digits split: list.splits if_splits)
  have f: "scan_frac t = (fp, u) \<Longrightarrow> x \<in> set fp \<Longrightarrow> plain x" for t fp u x
    by (auto simp: scan_frac_def marks plain_digits split: list.splits if_splits)
  have e: "scan_exp t = (ep, u) \<Longrightarrow> x \<in> set ep \<Longrightarrow> plain x" for t ep u x
    by (auto simp: scan_exp_def marks plain_digits split: list.splits if_splits)
  assume s: "float_text s" "c \<in> set s"
  then obtain ip fe where n: "scan_number s = Some (ip, fe, [])" and ipfe: "ip @ fe = s"
    by (auto simp: float_text_def split: option.splits)
  obtain sg t where sg: "(case s of c # t \<Rightarrow> if c = CHR ''-'' then ([c], t) else ([], s) | [] \<Rightarrow> ([], s)) = (sg, t)"
    by fastforce
  then have sgp: "x \<in> set sg \<Longrightarrow> plain x" for x by (auto simp: marks split: list.splits if_splits)
  from n sg obtain ip' u fp v ep where parts: "scan_int t = Some (ip', u)" "scan_frac u = (fp, v)" "scan_exp v = (ep, [])"
      "ip = sg @ ip'" "fe = fp @ ep"
    by (auto simp: scan_number_def Let_def split: option.splits prod.splits)
  have "c \<in> set sg \<or> c \<in> set ip' \<or> c \<in> set fp \<or> c \<in> set ep"
    using s(2) ipfe parts(4,5) by auto
  then show ?thesis using sgp i [OF parts(1)] f [OF parts(2)] e [OF parts(3)] by blast
qed

lemma plain_join: "(\<And>y. y \<in> set xs \<Longrightarrow> \<forall>c \<in> set y. plain c) \<Longrightarrow> \<forall>c \<in> set sep. plain c \<Longrightarrow> c \<in> set (join sep xs) \<Longrightarrow> plain c"
  by (cases xs) (auto simp: join_def split: if_splits)

lemma plain_dumps: "wf_json fr j \<Longrightarrow> c \<in> set (dumps j) \<Longrightarrow> plain c"
proof (induction j arbitrary: c)
  case (JFloat s)
  then show ?case by (auto dest: plain_float)
next
  case (JArr xs)
  then have "\<forall>c \<in> set y. plain c" if "y \<in> set (map dumps xs)" for y
    using that by (auto simp: list_all_iff)
  then show ?case using JArr.prems(2) plain_join [of "map dumps xs" "'',''" c]
    by (auto simp: plain_def code_def)
next
  case (JObj kvs)
  have "\<forall>c \<in> set y. plain c" if "y \<in> set (map print_member kvs)" for y
  proof -
    from that obtain k v where kv: "(k, v) \<in> set kvs" "y = quote k @ '':'' @ dumps v" by auto
    have "\<forall>c \<in> set (dumps v). plain c"
      using JObj.IH [of "(k, v)" v] JObj.prems(1) kv(1) by (force simp: list_all_iff)
    then show ?thesis unfolding kv(2) by (auto dest: plain_quote) (simp add: plain_def code_def)
  qed
  then show ?case using JObj.prems(2) plain_join [of "map print_member kvs" "'',''" c]
    by (auto simp: plain_def code_def)
qed (auto dest: plain_quote plain_int_str simp: plain_def code_def split: if_splits)

section \<open>Chains\<close>

text \<open>The text of consecutive records, its lines, and the digest they end in.\<close>

fun last_digest :: "(string \<Rightarrow> string) \<Rightarrow> int \<Rightarrow> string \<Rightarrow> json list \<Rightarrow> string" where
  "last_digest h q p [] = p"
| "last_digest h q p (j # js) = last_digest h (q + 1) (record_digest h (int_str q) p j) js"

fun chain_lines :: "(string \<Rightarrow> string) \<Rightarrow> int \<Rightarrow> string \<Rightarrow> json list \<Rightarrow> string list" where
  "chain_lines h q p [] = []"
| "chain_lines h q p (j # js) =
     (let d = record_digest h (int_str q) p j in record_line q p d j # chain_lines h (q + 1) d js)"

definition chain_text :: "(string \<Rightarrow> string) \<Rightarrow> int \<Rightarrow> string \<Rightarrow> json list \<Rightarrow> string" where
  "chain_text h q p js = concat (map (\<lambda>l. l @ newline) (chain_lines h q p js))"

lemma chain_text_simps [simp]:
  "chain_text h q p [] = []"
  "chain_text h q p (j # js) = record_line q p (record_digest h (int_str q) p j) j @ newline @
     chain_text h (q + 1) (record_digest h (int_str q) p j) js"
  by (simp_all add: chain_text_def Let_def)

lemma append_records_chain:
  "append_records h js q p t = (q + int (length js), last_digest h q p js, t @ chain_text h q p js)"
  by (induction js arbitrary: q p t) (simp_all add: Let_def)

lemma chain_append:
  "last_digest h q p (js @ ks) = last_digest h (q + int (length js)) (last_digest h q p js) ks"
  "chain_lines h q p (js @ ks) = chain_lines h q p js @ chain_lines h (q + int (length js)) (last_digest h q p js) ks"
  by (induction js arbitrary: q p) (simp_all add: Let_def add.assoc)

lemma chain_text_append:
  "chain_text h q p (js @ ks) = chain_text h q p js @ chain_text h (q + int (length js)) (last_digest h q p js) ks"
  by (simp add: chain_text_def chain_append)

lemma file_lines_acc_plain:
  "(\<And>c. c \<in> set l \<Longrightarrow> plain c) \<Longrightarrow> file_lines_acc acc (l @ newline @ t) = (rev acc @ l) # file_lines t"
proof (induction l arbitrary: acc)
  case Nil
  then show ?case by (simp add: newline_def file_lines_def)
next
  case (Cons c l)
  have "plain c" using Cons.prems by simp
  then have "c \<noteq> CHR 0x0A" "c \<noteq> CHR 0x0D" by (auto simp: plain_def code_def)
  with Cons show ?case by simp
qed

lemma file_lines_plain:
  "(\<And>c. c \<in> set l \<Longrightarrow> plain c) \<Longrightarrow> file_lines (l @ newline @ t) = l # file_lines t"
  using file_lines_acc_plain [of l "[]" t] by (simp add: file_lines_def)

lemma sort_record_fields:
  "sort_key fst [(''seq'', a), (''prev_hash'', b), (''hash'', c), (''event'', d)] =
     [(''event'', d), (''hash'', c), (''prev_hash'', b), (''seq'', a)]"
  by (simp add: less_eq_char_def)

lemma sort_record_json:
  "sort_json (record_json q p d j) =
     JObj [(''event'', sort_json j), (''hash'', JStr d), (''prev_hash'', JStr p), (''seq'', JInt q)]"
  by (simp add: record_json_def sort_record_fields)

lemma sort_json_idem: "sort_json (sort_json j) = sort_json j"
proof (induction j)
  case (JObj kvs)
  define l where "l = map (\<lambda>kv. (fst kv, sort_json (snd kv))) kvs"
  have "map (\<lambda>kv. (fst kv, sort_json (snd kv))) (sort_key fst l) = sort_key fst l"
  proof (rule map_idI)
    fix kv assume "kv \<in> set (sort_key fst l)"
    then obtain k v where kv: "(k, v) \<in> set kvs" "kv = (k, sort_json v)" by (auto simp: l_def)
    show "(fst kv, sort_json (snd kv)) = kv" using JObj [of "(k, v)" v] kv by simp
  qed
  then show ?case unfolding sort_json.simps l_def [symmetric] by (simp add: sort_key_id_if_sorted)
qed simp_all

lemma wf_record: "wf_json fr j \<Longrightarrow> wf_json fr (sort_json (record_json q p d j))"
  by (rule wf_sort_json) (simp add: record_json_def)

lemma record_line_plain: "wf_json fr j \<Longrightarrow> c \<in> set (record_line q p d j) \<Longrightarrow> plain c"
  unfolding record_line_def canonical_def by (rule plain_dumps [OF wf_record])

lemma record_line_strip: "strip (record_line q p d j) = record_line q p d j" "record_line q p d j \<noteq> []"
proof -
  have "\<exists>m. record_line q p d j = ''{'' @ m @ ''}''"
    unfolding record_line_def canonical_def sort_record_json dumps.simps by blast
  then show "strip (record_line q p d j) = record_line q p d j" "record_line q p d j \<noteq> []"
    by (auto intro!: strip_eq_id simp: is_space_def code_def)
qed

lemma record_line_loads:
  "wf_json fr j \<Longrightarrow> loads fr (record_line q p d j) =
     Some (JObj [(''event'', sort_json j), (''hash'', JStr d), (''prev_hash'', JStr p), (''seq'', JInt q)])"
  unfolding record_line_def canonical_def
  using loads_dumps [OF wf_record] unfolding sort_record_json by blast

lemma check_own_record:
  "check_record h q p [(''event'', sort_json j), (''hash'', JStr (record_digest h (int_str q) p j)),
     (''prev_hash'', JStr p), (''seq'', JInt q)] = Inr (record_digest h (int_str q) p j)"
  by (simp add: check_record_def RECORD_FIELDS_def dict_get_def Let_def equals_int_def py_str_def
      record_digest_def canonical_def sort_json_idem)

lemma file_lines_chain:
  "(\<And>j. j \<in> set js \<Longrightarrow> wf_json fr j) \<Longrightarrow> file_lines (chain_text h q p js) = chain_lines h q p js"
proof (induction js arbitrary: q p)
  case Nil
  then show ?case by (simp add: file_lines_def)
next
  case (Cons j js)
  then show ?case
    using file_lines_plain [of "record_line q p (record_digest h (int_str q) p j) j"] record_line_plain [of fr j]
    by (simp add: Let_def)
qed

lemma verify_chain_lines:
  "(\<And>j. j \<in> set js \<Longrightarrow> wf_json fr j) \<Longrightarrow>
   verify_lines h fr line n p (chain_lines h (int n) p js) = Inr (intact (n + length js))"
proof (induction js arbitrary: line n p)
  case Nil
  then show ?case by simp
next
  case (Cons j js)
  define d where "d = record_digest h (int_str (int n)) p j"
  have "verify_lines h fr (Suc line) (Suc n) d (chain_lines h (int (Suc n)) d js) = Inr (intact (Suc n + length js))"
    using Cons.IH [of "Suc line" "Suc n" d] Cons.prems by simp
  then show ?case
    using Cons.prems record_line_loads [of fr j] check_own_record [of h "int n" p j]
    by (simp add: Let_def d_def record_line_strip add.commute)
qed

section \<open>A history of the sink\<close>

text \<open>
  What can happen to a sink: a flush of a run's events, the end of a run, a restart of the
  process, which builds a new sink on the file as it stands. \<open>run_tel\<close> collects the events
  written.
\<close>

datatype 'ev tel_op = Flush string "'ev list" | Forget string | Restart

fun tel_step ::
  "(string \<Rightarrow> string) \<Rightarrow> (string \<Rightarrow> string) \<Rightarrow> (string \<Rightarrow> int option) \<Rightarrow> ('ev \<Rightarrow> json) \<Rightarrow> 'ev tel_op \<Rightarrow>
   sink \<times> string option \<Rightarrow> 'ev list \<times> sink \<times> string option" where
  "tel_step h fr num pj (Flush rid evs) kf = flush_new_events h pj rid evs kf"
| "tel_step h fr num pj (Forget rid) (k, file) = ([], forget_run rid k, file)"
| "tel_step h fr num pj Restart (k, file) = ([], new_sink fr num file, file)"

fun run_tel ::
  "(string \<Rightarrow> string) \<Rightarrow> (string \<Rightarrow> string) \<Rightarrow> (string \<Rightarrow> int option) \<Rightarrow> ('ev \<Rightarrow> json) \<Rightarrow> 'ev tel_op list \<Rightarrow>
   sink \<times> string option \<Rightarrow> 'ev list \<times> sink \<times> string option" where
  "run_tel h fr num pj [] kf = ([], kf)"
| "run_tel h fr num pj (x # xs) kf =
     (let (evs, kf1) = tel_step h fr num pj x kf; (evs', kf2) = run_tel h fr num pj xs kf1 in (evs @ evs', kf2))"

definition synced :: "(string \<Rightarrow> string) \<Rightarrow> json list \<Rightarrow> sink \<times> string option \<Rightarrow> bool" where
  "synced h js kf \<longleftrightarrow> get_or [] (snd kf) = chain_text h 0 GENESIS_HASH js \<and>
     tk_seq (fst kf) = int (length js) \<and> tk_prev (fst kf) = last_digest h 0 GENESIS_HASH js"

lemma resume_synced:
  assumes "\<And>j. j \<in> set js \<Longrightarrow> wf_json fr j" "get_or [] fl = chain_text h 0 GENESIS_HASH js"
  shows "resume_chain fr num fl = (int (length js), last_digest h 0 GENESIS_HASH js)"
proof (cases js rule: rev_cases)
  case Nil
  then show ?thesis using assms(2) by (cases fl) (simp_all add: resume_chain_def last_text_line_def file_lines_def)
next
  case (snoc ks j)
  define q where "q = int (length ks)"
  define p where "p = last_digest h 0 GENESIS_HASH ks"
  define d where "d = record_digest h (int_str q) p j"
  have lines: "file_lines (get_or [] fl) = chain_lines h 0 GENESIS_HASH ks @ [record_line q p d j]"
    using file_lines_chain [of js fr h 0 GENESIS_HASH] assms
    by (simp add: snoc chain_append Let_def q_def p_def d_def)
  have last: "last_text_line (get_or [] fl) = record_line q p d j"
    unfolding last_text_line_def lines by (simp add: record_line_strip)
  obtain t where t: "fl = Some t"
    using last record_line_strip(2) [of q p d j] by (cases fl) (simp_all add: last_text_line_def file_lines_def)
  have wf: "wf_json fr j" using assms(1) snoc by simp
  have "resume_chain fr num fl = (q + 1, d)"
    using last record_line_strip(2) record_line_loads [OF wf, of q p d] t
    by (simp add: resume_chain_def dict_get_def int_of_json_def py_str_def)
  then show ?thesis by (simp add: snoc chain_append q_def p_def d_def)
qed

lemma tel_step_synced:
  assumes "synced h js kf" "\<And>j. j \<in> set js \<Longrightarrow> wf_json fr j" "tel_step h fr num pj x kf = (evs, kf')"
  shows "synced h (js @ map pj evs) kf'"
proof (cases x)
  case (Flush rid l)
  obtain k fl where kf: "kf = (k, fl)" by (cases kf)
  show ?thesis
  proof (cases "drop (get_or 0 (tk_counts k rid)) l = []")
    case True
    then show ?thesis using assms(1,3) Flush kf by (simp add: flush_new_events_def Let_def)
  next
    case False
    then show ?thesis using assms(1,3) Flush kf
      by (auto simp: flush_new_events_def Let_def append_records_chain synced_def chain_append chain_text_append)
  qed
next
  case (Forget rid)
  then show ?thesis using assms(1,3) by (cases kf) (auto simp: synced_def forget_run_def)
next
  case Restart
  obtain k fl where kf: "kf = (k, fl)" by (cases kf)
  have "resume_chain fr num fl = (int (length js), last_digest h 0 GENESIS_HASH js)"
    using assms(1,2) kf by (intro resume_synced) (auto simp: synced_def)
  then show ?thesis using assms(1,3) Restart kf by (auto simp: synced_def new_sink_def)
qed

lemma run_tel_synced:
  "synced h js kf \<Longrightarrow> (\<And>j. j \<in> set js \<Longrightarrow> wf_json fr j) \<Longrightarrow> (\<And>ev. wf_json fr (pj ev)) \<Longrightarrow>
   run_tel h fr num pj ops kf = (evs, kf') \<Longrightarrow> synced h (js @ map pj evs) kf'"
proof (induction ops arbitrary: js kf evs)
  case Nil
  then show ?case by simp
next
  case (Cons x xs)
  obtain e1 kf1 where 1: "tel_step h fr num pj x kf = (e1, kf1)" by (cases "tel_step h fr num pj x kf")
  obtain e2 where 2: "run_tel h fr num pj xs kf1 = (e2, kf')" "evs = e1 @ e2"
    using Cons.prems(4) 1 by (auto split: prod.splits)
  have "synced h (js @ map pj e1) kf1" using tel_step_synced [OF Cons.prems(1,2) 1] .
  moreover have "\<And>j. j \<in> set (js @ map pj e1) \<Longrightarrow> wf_json fr j" using Cons.prems(2,3) by auto
  ultimately have "synced h ((js @ map pj e1) @ map pj e2) kf'" using Cons.IH Cons.prems(3) 2(1) by blast
  then show ?case using 2(2) by simp
qed

lemma synced_start: "synced h [] (new_sink fr num None, None)"
  by (simp add: synced_def new_sink_def resume_chain_def)

section \<open>What a verified file says\<close>

text \<open>The records of a file that verifies: the text of each sequence number and the canonical event.\<close>

fun recorded :: "(string \<Rightarrow> string) \<Rightarrow> string list \<Rightarrow> (string \<times> string) list" where
  "recorded fr [] = []"
| "recorded fr (l # ls) =
     (case loads fr (strip l) of
        Some (JObj d) \<Rightarrow> (py_str (get_or JNull (dict_get d ''seq'')), canonical (get_or JNull (dict_get d ''event''))) # recorded fr ls
      | _ \<Rightarrow> recorded fr ls)"

fun digest_of :: "(string \<Rightarrow> string) \<Rightarrow> string \<Rightarrow> (string \<times> string) list \<Rightarrow> string" where
  "digest_of h p [] = p"
| "digest_of h p ((q, e) # rs) = digest_of h (h (q @ newline @ p @ newline @ e)) rs"

definition end_of_chain :: "(string \<Rightarrow> string) \<Rightarrow> (string \<Rightarrow> string) \<Rightarrow> string option \<Rightarrow> string" where
  "end_of_chain h fr fl = digest_of h GENESIS_HASH (recorded fr (file_lines (get_or [] fl)))"

lemma digest_of_append: "digest_of h p (rs @ rs') = digest_of h (digest_of h p rs) rs'"
  by (induction h p rs rule: digest_of.induct) simp_all

lemma check_record_ok:
  assumes "check_record h q p d = Inr x"
  shows "equals_int (get_or JNull (dict_get d ''seq'')) q \<and>
    x = h (py_str (get_or JNull (dict_get d ''seq'')) @ newline @ p @ newline @ canonical (get_or JNull (dict_get d ''event'')))"
  using assms by (auto simp: check_record_def Let_def record_digest_def split: if_splits)

lemma equals_int_text: "equals_int j n \<Longrightarrow> CHR 0x0A \<notin> set (py_str j)"
proof -
  have i: "CHR 0x0A \<notin> set (int_str n)" using plain_int_str [of "CHR 0x0A" n] by (auto simp: plain_def code_def)
  assume "equals_int j n"
  then show ?thesis using i by (cases j) (auto simp: equals_int_def py_str_def)
qed

lemma verified_records:
  "verify_lines h fr line n p ls = Inr (intact m) \<Longrightarrow>
   m = n + length (recorded fr ls) \<and> (\<forall>r \<in> set (recorded fr ls). CHR 0x0A \<notin> set (fst r))"
proof (induction h fr line n p ls rule: verify_lines.induct)
  case (1 h fr line n p)
  then show ?case by (simp add: intact_def)
next
  case (2 h fr line n p l ls)
  show ?case
  proof (cases "strip l = []")
    case True
    then show ?thesis using 2 by (simp add: loads_empty)
  next
    case False
    with 2(3) obtain d where d: "loads fr (strip l) = Some (JObj d)"
      by (auto simp: broken_def intact_def split: option.splits json.splits)
    then obtain x where x: "check_record h (int n) p d = Inr x"
      using 2(3) False by (auto simp: broken_def intact_def split: sum.splits)
    have "verify_lines h fr (Suc line) (Suc n) x ls = Inr (intact m)" using 2(3) False d x by simp
    with 2(2) [OF False d refl x] check_record_ok [OF x] d show ?thesis
      using equals_int_text by auto
  qed
qed

lemma split_at_newline:
  "CHR 0x0A \<notin> set a \<Longrightarrow> CHR 0x0A \<notin> set a' \<Longrightarrow> a @ newline @ x = a' @ newline @ x' \<Longrightarrow> a = a' \<and> x = x'"
proof (induction a arbitrary: a')
  case Nil
  then show ?case by (cases a') (auto simp: newline_def)
next
  case (Cons c a)
  then obtain b where "a' = c # b" by (cases a') (auto simp: newline_def)
  with Cons show ?case by auto
qed

text \<open>The texts that were hashed; where the digest function has no collision on them, the last digest fixes them all.\<close>

fun hashed :: "(string \<Rightarrow> string) \<Rightarrow> string \<Rightarrow> (string \<times> string) list \<Rightarrow> string list" where
  "hashed h p [] = []"
| "hashed h p ((q, e) # rs) =
     (let m = q @ newline @ p @ newline @ e in m # hashed h (h m) rs)"

lemma hashed_append: "hashed h p (rs @ rs') = hashed h p rs @ hashed h (digest_of h p rs) rs'"
  by (induction h p rs rule: digest_of.induct) (simp_all add: Let_def)

lemma same_end_same_records:
  assumes "\<And>x. length (h x) = 64" "length p = 64"
  shows "inj_on h (set (hashed h p rs) \<union> set (hashed h p rs')) \<Longrightarrow> length rs = length rs' \<Longrightarrow>
    (\<forall>r \<in> set rs. CHR 0x0A \<notin> set (fst r)) \<Longrightarrow> (\<forall>r \<in> set rs'. CHR 0x0A \<notin> set (fst r)) \<Longrightarrow>
    digest_of h p rs = digest_of h p rs' \<Longrightarrow> rs = rs'"
proof (induction rs arbitrary: rs' rule: rev_induct)
  case Nil
  then show ?case by simp
next
  case (snoc r rs)
  then obtain ss s where ss: "rs' = ss @ [s]" by (cases rs' rule: rev_cases) auto
  have len: "length (digest_of h p us) = 64" for us
    using assms(1,2) by (cases us rule: rev_cases) (auto simp: digest_of_append split: prod.splits)
  define m where "m = fst r @ newline @ digest_of h p rs @ newline @ snd r"
  define m' where "m' = fst s @ newline @ digest_of h p ss @ newline @ snd s"
  have hs: "hashed h p (rs @ [r]) = hashed h p rs @ [m]" "hashed h p rs' = hashed h p ss @ [m']"
    unfolding ss hashed_append m_def m'_def by (cases r, simp add: Let_def) (cases s, simp add: Let_def)
  have "h m = h m'"
    using snoc.prems(5) unfolding ss digest_of_append m_def m'_def by (cases r, cases s) simp
  then have "m = m'" by (rule inj_onD [OF snoc.prems(1)]) (simp_all add: hs)
  then have "fst r = fst s \<and> digest_of h p rs @ newline @ snd r = digest_of h p ss @ newline @ snd s"
    unfolding m_def m'_def using snoc.prems(3,4) ss by (intro split_at_newline) auto
  then have same: "fst r = fst s" "snd r = snd s" "digest_of h p rs = digest_of h p ss"
    using len by auto
  have "inj_on h (set (hashed h p rs) \<union> set (hashed h p ss))"
    using snoc.prems(1) unfolding hs by (rule inj_on_subset) auto
  then have "rs = ss" using snoc.IH [of ss] snoc.prems(2-4) ss same(3) by simp
  then show ?case using ss same by (simp add: prod_eq_iff)
qed

lemma recorded_chain:
  "(\<And>j. j \<in> set js \<Longrightarrow> wf_json fr j) \<Longrightarrow>
   map snd (recorded fr (chain_lines h q p js)) = map canonical js \<and>
   digest_of h p (recorded fr (chain_lines h q p js)) = last_digest h q p js"
proof (induction js arbitrary: q p)
  case Nil
  then show ?case by simp
next
  case (Cons j js)
  then show ?case
    using record_line_loads [of fr j q p "record_digest h (int_str q) p j"]
    by (simp add: Let_def record_line_strip dict_get_def py_str_def canonical_def sort_json_idem record_digest_def)
qed

section \<open>Cursors\<close>

fun run_flushes ::
  "(string \<Rightarrow> string) \<Rightarrow> ('ev \<Rightarrow> json) \<Rightarrow> (string \<times> 'ev list) list \<Rightarrow> sink \<times> string option \<Rightarrow>
   (string \<times> 'ev list) list \<times> sink \<times> string option" where
  "run_flushes h pj [] kf = ([], kf)"
| "run_flushes h pj ((rid, evs) # calls) kf =
     (let (new, kf1) = flush_new_events h pj rid evs kf; (out, kf2) = run_flushes h pj calls kf1 in ((rid, new) # out, kf2))"

definition lists_of :: "string \<Rightarrow> (string \<times> 'ev list) list \<Rightarrow> 'ev list list" where
  "lists_of rid calls = map snd (filter (\<lambda>c. fst c = rid) calls)"

lemma lists_of_simps [simp]:
  "lists_of rid [] = []"
  "lists_of rid (c # cs) = (if fst c = rid then snd c # lists_of rid cs else lists_of rid cs)"
  by (simp_all add: lists_of_def)

definition cursor_at :: "string \<Rightarrow> 'ev list \<Rightarrow> sink \<Rightarrow> bool" where
  "cursor_at rid done_evs k \<longleftrightarrow> get_or 0 (tk_counts k rid) = length done_evs"

lemma flush_cursor:
  assumes "flush_new_events h pj rid evs (k, fl) = (new, k', fl')" "cursor_at rid p k" "prefix p evs"
  shows "new = drop (length p) evs \<and> cursor_at rid evs k'"
  using assms by (auto simp: flush_new_events_def Let_def cursor_at_def prefix_def split: if_splits prod.splits)

lemma flush_other_cursor:
  "flush_new_events h pj rid' evs (k, fl) = (new, k', fl') \<Longrightarrow> rid' \<noteq> rid \<Longrightarrow> cursor_at rid p k' = cursor_at rid p k"
  by (auto simp: flush_new_events_def Let_def cursor_at_def split: if_splits prod.splits)

lemma run_flushes_written:
  "cursor_at rid p k \<Longrightarrow> sorted_wrt prefix (p # lists_of rid calls) \<Longrightarrow>
   concat (lists_of rid (fst (run_flushes h pj calls (k, fl)))) = drop (length p) (last (p # lists_of rid calls))"
proof (induction calls arbitrary: p k fl)
  case Nil
  then show ?case by simp
next
  case (Cons c calls)
  obtain rid' evs where c: "c = (rid', evs)" by (cases c)
  obtain new k' fl' where f: "flush_new_events h pj rid' evs (k, fl) = (new, k', fl')"
    by (cases "flush_new_events h pj rid' evs (k, fl)") auto
  show ?case
  proof (cases "rid' = rid")
    case True
    have pe: "prefix p evs" using Cons.prems(2) c True by simp
    have new: "new = drop (length p) evs" "cursor_at rid evs k'" using flush_cursor f Cons.prems(1) pe True by metis+
    have "prefix evs (last (evs # lists_of rid calls))" using Cons.prems(2) c True by auto
    then obtain rest where rest: "last (evs # lists_of rid calls) = evs @ rest" by (auto simp: prefix_def)
    have "concat (lists_of rid (fst (run_flushes h pj calls (k', fl')))) = rest"
      using Cons.IH [OF new(2)] Cons.prems(2) c True rest by simp
    then show ?thesis using f c True new(1) rest pe by (auto simp: Let_def prefix_def split: prod.splits)
  next
    case False
    then show ?thesis
      using Cons.IH [of p k' fl'] Cons.prems f c flush_other_cursor [OF f False, of p]
      by (auto simp: Let_def split: prod.splits)
  qed
qed

section \<open>Properties\<close>

text \<open>
  C20: the audit log always verifies. After any history of flushes of any runs, of runs
  ending and of restarts of the process, on a log that started absent, the chain of the
  file verifies from end to end and counts exactly the events written; and a sink built on
  it now would go on where the present one is. The digest function may be any; the JSON
  of an event must be JSON.
\<close>

theorem audit_log_always_verifies:
  assumes "\<And>ev. wf_json fr (pj ev)"
    and "run_tel h fr num pj ops (new_sink fr num None, None) = (written, k, fl)"
  shows "verify_chain h fr fl = Inr (intact (length written)) \<and>
    resume_chain fr num fl = (tk_seq k, tk_prev k)"
proof -
  have s: "synced h (map pj written) (k, fl)"
    using run_tel_synced [OF synced_start _ assms] by simp
  have wf: "j \<in> set (map pj written) \<Longrightarrow> wf_json fr j" for j using assms(1) by auto
  have "verify_lines h fr 1 0 GENESIS_HASH (file_lines (get_or [] fl)) = Inr (intact (length written))"
    using s wf file_lines_chain [of "map pj written" fr h 0 GENESIS_HASH]
      verify_chain_lines [of "map pj written" fr h 1 0 GENESIS_HASH]
    by (simp add: synced_def)
  then have "verify_chain h fr fl = Inr (intact (length written))"
    by (cases fl) (simp_all add: verify_chain_def file_lines_def)
  moreover have "resume_chain fr num fl = (tk_seq k, tk_prev k)"
    using s wf resume_synced [of "map pj written" fr fl h num] by (simp add: synced_def)
  ultimately show ?thesis by simp
qed

lemma audit_log_always_verifies_witness:
  "\<exists>written k fl. run_tel id id (\<lambda>_. None) JStr [Flush ''r1'' [''a''], Restart, Flush ''r2'' [''b'']]
      (new_sink id (\<lambda>_. None) None, None) = (written, k, fl) \<and>
    verify_chain id id fl = Inr (intact (length written))"
proof -
  obtain written k fl where r: "run_tel id id (\<lambda>_. None) JStr [Flush ''r1'' [''a''], Restart, Flush ''r2'' [''b'']]
      (new_sink id (\<lambda>_. None) None, None) = (written, k, fl)"
    by (metis prod_cases3)
  have "wf_json id (JStr ev)" for ev by simp
  from audit_log_always_verifies [OF this r] r show ?thesis by blast
qed

text \<open>
  C21: the log is tamper-evident up to the two limits it documents. Take a log the sink
  wrote, and any other file that verifies with as many records (so nothing was cut off the
  tail) and ends in the digest the sink holds (so the chain was not rebuilt). As long as
  the digest function has no collision among the texts hashed for the two files, the other
  file records the very events that were written, in their order.
\<close>

theorem tampering_is_detected:
  assumes "\<And>ev. wf_json fr (pj ev)" "\<And>x. length (h x) = 64"
    and run: "run_tel h fr num pj ops (new_sink fr num None, None) = (written, k, fl)"
    and other: "verify_chain h fr (Some t) = Inr (intact (length written))" "end_of_chain h fr (Some t) = tk_prev k"
    and inj: "inj_on h (set (hashed h GENESIS_HASH (recorded fr (file_lines (get_or [] fl)))) \<union>
      set (hashed h GENESIS_HASH (recorded fr (file_lines t))))"
  shows "map snd (recorded fr (file_lines t)) = map (canonical \<circ> pj) written"
proof -
  define js where "js = map pj written"
  have wf: "j \<in> set js \<Longrightarrow> wf_json fr j" for j using assms(1) by (auto simp: js_def)
  have s: "synced h js (k, fl)" using run_tel_synced [OF synced_start _ assms(1) run] by (simp add: js_def)
  then have lines: "file_lines (get_or [] fl) = chain_lines h 0 GENESIS_HASH js"
    using file_lines_chain [of js fr h 0 GENESIS_HASH] wf by (simp add: synced_def)
  define rs where "rs = recorded fr (file_lines (get_or [] fl))"
  have ours: "map snd rs = map canonical js" "digest_of h GENESIS_HASH rs = tk_prev k"
    using recorded_chain [of js fr h 0 GENESIS_HASH] wf s lines by (simp_all add: rs_def synced_def)
  have "\<forall>r \<in> set rs. CHR 0x0A \<notin> set (fst r)"
    using verified_records [OF verify_chain_lines [of js fr h 1 0 GENESIS_HASH]] wf lines by (simp add: rs_def)
  moreover have v: "verify_lines h fr 1 0 GENESIS_HASH (file_lines t) = Inr (intact (length written))"
    using other(1) by (simp add: verify_chain_def)
  moreover have "length rs = length written" using arg_cong [OF ours(1), of length] by (simp add: js_def)
  ultimately have "rs = recorded fr (file_lines t)"
    using same_end_same_records [of h GENESIS_HASH rs "recorded fr (file_lines t)"] assms(2)
      verified_records [OF v] inj ours(2) other(2) by (simp add: rs_def end_of_chain_def GENESIS_HASH_def)
  then show ?thesis using ours(1) by (simp add: js_def)
qed

definition toy_digest :: "string \<Rightarrow> string" where
  "toy_digest x = take 64 (rev x @ replicate 64 CHR ''0'')"

definition toy_run :: "string list \<times> sink \<times> string option" where
  "toy_run = run_tel toy_digest id (\<lambda>_. None) JStr [Flush ''r1'' [''a''], Flush ''r2'' [''b'']]
     (new_sink id (\<lambda>_. None) None, None)"

lemma tampering_is_detected_witness:
  "map snd (recorded id (file_lines (get_or [] (snd (snd toy_run))))) = map (canonical \<circ> JStr) (fst toy_run)"
proof (rule tampering_is_detected)
  show "wf_json id (JStr ev)" for ev by simp
  show "length (toy_digest x) = 64" for x by (simp add: toy_digest_def)
  show "run_tel toy_digest id (\<lambda>_. None) JStr [Flush ''r1'' [''a''], Flush ''r2'' [''b'']]
     (new_sink id (\<lambda>_. None) None, None) = (fst toy_run, fst (snd toy_run), snd (snd toy_run))"
    by (simp add: toy_run_def)
  show "verify_chain toy_digest id (Some (get_or [] (snd (snd toy_run)))) = Inr (intact (length (fst toy_run)))"
    by code_simp
  show "end_of_chain toy_digest id (Some (get_or [] (snd (snd toy_run)))) = tk_prev (fst (snd toy_run))"
    by code_simp
  show "inj_on toy_digest (set (hashed toy_digest GENESIS_HASH (recorded id (file_lines (get_or [] (snd (snd toy_run)))))) \<union>
     set (hashed toy_digest GENESIS_HASH (recorded id (file_lines (get_or [] (snd (snd toy_run)))))))"
    by code_simp
qed

text \<open>
  C22: the cursors of the runs do not disturb each other. Let any number of runs flush their
  growing event lists through one sink, in any interleaving, each list of a run extending
  its previous one. Then what the flushes of a run wrote, put together, is exactly the
  run's last list: every event once, none lost, none twice, whatever the other runs do.
\<close>

theorem each_event_written_once:
  assumes "sorted_wrt prefix (lists_of rid calls)"
  shows "concat (lists_of rid (fst (run_flushes h pj calls (new_sink fr num fl, fl)))) = last ([] # lists_of rid calls)"
proof -
  have c: "cursor_at rid [] (new_sink fr num fl)" by (simp add: cursor_at_def new_sink_def split: prod.splits)
  have p: "sorted_wrt prefix ([] # lists_of rid calls)" using assms by simp
  show ?thesis unfolding run_flushes_written [OF c p] by simp
qed

lemma each_event_written_once_witness:
  "concat (lists_of ''r1'' (fst (run_flushes toy_digest JStr
     [(''r1'', [''a'']), (''r2'', [''x'']), (''r1'', [''a'', ''b'']), (''r1'', [''a'', ''b''])]
     (new_sink id (\<lambda>_. None) None, None)))) = [''a'', ''b'']"
  using each_event_written_once [of "''r1''" "[(''r1'', [''a'']), (''r2'', [''x'']), (''r1'', [''a'', ''b'']), (''r1'', [''a'', ''b''])]"
      toy_digest JStr id "\<lambda>_. None" None] by (simp add: lists_of_def)

text \<open>
  The cursors do not survive a restart. A run that flushed its events and is parked,
  then continued by a new process, has all its earlier events written a second time: the
  sink of the new process goes on with the chain and knows no cursor.
\<close>

theorem restart_writes_parked_events_again:
  assumes "written = fst (flush_new_events h pj rid evs (new_sink fr num None, None))"
    and "fl = snd (snd (flush_new_events h pj rid evs (new_sink fr num None, None)))"
  shows "written = evs \<and> fst (flush_new_events h pj rid (evs @ later) (new_sink fr num fl, fl)) = evs @ later"
proof -
  have "tk_counts (new_sink fr num f) = Map.empty" for f by (simp add: new_sink_def split: prod.splits)
  then show ?thesis using assms(1) by (auto simp: flush_new_events_def Let_def split: prod.splits)
qed

lemma restart_writes_parked_events_again_witness:
  "\<exists>fl. fst (flush_new_events toy_digest JStr ''r1'' [''a'', ''b''] (new_sink id (\<lambda>_. None) fl, fl)) = [''a'', ''b'']"
  using restart_writes_parked_events_again [OF refl refl, of toy_digest JStr "''r1''" "[''a'']" id "\<lambda>_. None" "[''b'']"]
  by auto

end
