(* ===== verification/PollLoop.thy ===== *)
theory PollLoop
  imports Prelude
begin

text \<open>
  \<open>poll_loop\<close> of \<open>agentic_control_plane/consumer.py\<close>: read, validate, hand off, commit. The
  broker is outside: what a poll returns is an argument, constrained only as Kafka documents
  it. The worker is reached through its \<open>submit\<close>, the dead-letter topic through \<open>dlq\<close>.
\<close>

section \<open>The consumer\<close>

record 'raw message =
  mg_topic :: string
  mg_offset :: nat
  mg_value :: 'raw

text \<open>Positions, committed offsets and paused partitions of one consumer.\<close>

record 'p kafka =
  kc_position :: "'p \<Rightarrow> nat"
  kc_committed :: "'p \<Rightarrow> nat"
  kc_paused :: "'p list"

definition seek :: "'p \<Rightarrow> nat \<Rightarrow> 'p kafka \<Rightarrow> 'p kafka" where
  "seek p o' kc = kc\<lparr>kc_position := (kc_position kc)(p := o')\<rparr>"

definition pause :: "'p \<Rightarrow> 'p kafka \<Rightarrow> 'p kafka" where
  "pause p kc = kc\<lparr>kc_paused := kc_paused kc @ [p]\<rparr>"

definition commit :: "'p kafka \<Rightarrow> 'p kafka" where
  "commit kc = kc\<lparr>kc_committed := kc_position kc\<rparr>"

definition resume_all :: "'p kafka \<Rightarrow> 'p kafka" where
  "resume_all kc = kc\<lparr>kc_paused := []\<rparr>"

type_synonym ('p, 'raw) batches = "('p \<times> 'raw message list) list"

text \<open>A poll moves the position of every partition it returns messages of past the last one.\<close>

definition advance :: "'p \<times> 'raw message list \<Rightarrow> 'p kafka \<Rightarrow> 'p kafka" where
  "advance b kc = (if snd b = [] then kc else seek (fst b) (Suc (mg_offset (last (snd b)))) kc)"

definition fetched :: "('p, 'raw) batches \<Rightarrow> 'p kafka \<Rightarrow> 'p kafka" where
  "fetched bs kc = fold advance bs kc"

text \<open>
  What a broker may return: each partition once, none that is paused, messages in ascending
  offsets from the position on, and none skipped that it has returned before.
\<close>

definition offsets_in :: "'raw message list \<Rightarrow> nat set" where
  "offsets_in ms = mg_offset ` set ms"

lemma offsets_in_Nil [simp]: "offsets_in [] = {}"
  by (simp add: offsets_in_def)

definition legal :: "'p kafka \<Rightarrow> ('p \<times> nat) set \<Rightarrow> ('p, 'raw) batches \<Rightarrow> bool" where
  "legal kc seen bs \<longleftrightarrow> distinct (map fst bs) \<and>
     (\<forall>(p, ms) \<in> set bs. p \<notin> set (kc_paused kc) \<and> sorted_wrt (<) (map mg_offset ms) \<and>
        (\<forall>m \<in> set ms. kc_position kc p \<le> mg_offset m \<and>
           (\<forall>o'. (p, o') \<in> seen \<and> kc_position kc p \<le> o' \<and> o' \<le> mg_offset m \<longrightarrow> o' \<in> offsets_in ms)))"

section \<open>The loop\<close>

text \<open>
  What became of a message. The list of fates is not in the code; it records what the pass
  did, for the statements about it.
\<close>

datatype 'k fate = Taken 'k | DeadLettered string

record ('p, 'k, 's) loop =
  lp_kafka :: "'p kafka"
  lp_worker :: 's
  lp_failures :: nat
  lp_fates :: "('p \<times> nat \<times> 'k fate) list"

record ('raw, 'k, 's) loop_ops =
  lo_parse :: "'raw \<Rightarrow> (string, 'k) result"
  lo_submit :: "'k \<Rightarrow> 's \<Rightarrow> bool \<times> 's"
  lo_dlq :: "'raw message \<Rightarrow> string \<Rightarrow> 's \<Rightarrow> 's"
  lo_capacity :: "'s \<Rightarrow> bool"

definition MAX_CONSECUTIVE_POLL_FAILURES :: nat where
  "MAX_CONSECUTIVE_POLL_FAILURES = 10"

definition resume_drained_partitions :: "('raw, 'k, 's) loop_ops \<Rightarrow> ('p, 'k, 's) loop \<Rightarrow> ('p, 'k, 's) loop" where
  "resume_drained_partitions ops lp =
     (if kc_paused (lp_kafka lp) = [] \<or> \<not> lo_capacity ops (lp_worker lp) then lp
      else lp\<lparr>lp_kafka := resume_all (lp_kafka lp)\<rparr>)"

text \<open>The messages of one partition, up to the first the worker refuses.\<close>

fun handle_messages ::
  "('raw, 'k, 's) loop_ops \<Rightarrow> 'p \<Rightarrow> 'raw message list \<Rightarrow> ('p, 'k, 's) loop \<Rightarrow> bool \<times> ('p, 'k, 's) loop" where
  "handle_messages ops p [] lp = (True, lp)"
| "handle_messages ops p (m # ms) lp =
     (case lo_parse ops (mg_value m) of
        Inl reason \<Rightarrow>
          handle_messages ops p ms (lp\<lparr>lp_worker := lo_dlq ops m reason (lp_worker lp),
            lp_fates := lp_fates lp @ [(p, mg_offset m, DeadLettered reason)]\<rparr>)
      | Inr k \<Rightarrow>
          (case lo_submit ops k (lp_worker lp) of
             (True, s) \<Rightarrow> handle_messages ops p ms (lp\<lparr>lp_worker := s, lp_fates := lp_fates lp @ [(p, mg_offset m, Taken k)]\<rparr>)
           | (False, s) \<Rightarrow> (False, lp\<lparr>lp_worker := s, lp_kafka := pause p (seek p (mg_offset m) (lp_kafka lp))\<rparr>)))"

fun handle_batches :: "('raw, 'k, 's) loop_ops \<Rightarrow> ('p, 'raw) batches \<Rightarrow> ('p, 'k, 's) loop \<Rightarrow> bool \<times> ('p, 'k, 's) loop" where
  "handle_batches ops [] lp = (True, lp)"
| "handle_batches ops ((p, ms) # bs) lp =
     (let (a, lp1) = handle_messages ops p ms lp; (b, lp2) = handle_batches ops bs lp1 in (a \<and> b, lp2))"

text \<open>One pass; a poll that raises is retried until too many in a row have raised.\<close>

datatype ('p, 'raw) poll_answer = PollRaises string | Fetched "('p, 'raw) batches"

datatype 'l pass_result = GoOn 'l | GiveUp string 'l

definition poll_pass :: "('raw, 'k, 's) loop_ops \<Rightarrow> ('p, 'raw) poll_answer \<Rightarrow> ('p, 'k, 's) loop \<Rightarrow> ('p, 'k, 's) loop pass_result" where
  "poll_pass ops answer lp0 =
     (let lp = resume_drained_partitions ops lp0 in
      case answer of
        PollRaises x \<Rightarrow>
          (let lp1 = lp\<lparr>lp_failures := Suc (lp_failures lp)\<rparr> in
           if lp_failures lp1 \<ge> MAX_CONSECUTIVE_POLL_FAILURES then GiveUp x lp1 else GoOn lp1)
      | Fetched bs \<Rightarrow>
          (let (accepted_everything, lp1) = handle_batches ops bs (lp\<lparr>lp_failures := 0, lp_kafka := fetched bs (lp_kafka lp)\<rparr>) in
           GoOn (if bs \<noteq> [] \<and> accepted_everything then lp1\<lparr>lp_kafka := commit (lp_kafka lp1)\<rparr> else lp1)))"

text \<open>
  The life of a loop: passes, with whatever the worker thread does to the shared state in
  between. The second component collects the messages the polls returned.
\<close>

definition returned :: "('p, 'raw) batches \<Rightarrow> ('p \<times> nat) set" where
  "returned bs = {(p, o'). \<exists>ms. (p, ms) \<in> set bs \<and> o' \<in> offsets_in ms}"

inductive loop_history :: "('raw, 'k, 's) loop_ops \<Rightarrow> ('p, 'k, 's) loop \<Rightarrow> ('p \<times> nat) set \<Rightarrow> bool" for ops where
  begun: "kc_committed kc = kc_position kc \<Longrightarrow>
     loop_history ops \<lparr>lp_kafka = kc, lp_worker = s, lp_failures = 0, lp_fates = []\<rparr> {}"
| worker: "loop_history ops lp seen \<Longrightarrow> loop_history ops (lp\<lparr>lp_worker := s\<rparr>) seen"
| failed: "loop_history ops lp seen \<Longrightarrow> poll_pass ops (PollRaises x) lp = GoOn lp' \<Longrightarrow> loop_history ops lp' seen"
| passed: "loop_history ops lp seen \<Longrightarrow> legal (lp_kafka (resume_drained_partitions ops lp)) seen bs \<Longrightarrow>
     poll_pass ops (Fetched bs) lp = GoOn lp' \<Longrightarrow>
     loop_history ops lp' (seen \<union> returned bs)"

inductive_cases loop_historyE: "loop_history ops lp seen"

section \<open>The contract of the worker\<close>

text \<open>
  What the loop relies on: a submit that answers true has put the work, without the mark
  its store gave it, at the end of what the worker holds; one that answers false has not;
  reporting a dead letter does not touch the work held.
\<close>

locale hand_off =
  fixes ops :: "('raw, 'k, 's) loop_ops" and strip :: "'k \<Rightarrow> 'k" and held :: "'s \<Rightarrow> 'k list"
  assumes accepted: "lo_submit ops k s = (True, s') \<Longrightarrow> held s' = held s @ [strip k]"
    and refused: "lo_submit ops k s = (False, s') \<Longrightarrow> held s' = held s"
    and dead_letter: "held (lo_dlq ops m r s) = held s"

definition taken_works :: "('p \<times> nat \<times> 'k fate) list \<Rightarrow> 'k list" where
  "taken_works fs = concat (map (\<lambda>(p, o', f). case f of Taken k \<Rightarrow> [k] | DeadLettered r \<Rightarrow> []) fs)"

lemma taken_works_simps [simp]:
  "taken_works [] = []"
  "taken_works (fs @ gs) = taken_works fs @ taken_works gs"
  "taken_works ((p, o', Taken k) # fs) = k # taken_works fs"
  "taken_works ((p, o', DeadLettered r) # fs) = taken_works fs"
  by (simp_all add: taken_works_def)

context hand_off
begin

lemma held_messages:
  "handle_messages ops p ms lp = (b, lp') \<Longrightarrow>
   \<exists>fs. lp_fates lp' = lp_fates lp @ fs \<and> held (lp_worker lp') = held (lp_worker lp) @ map strip (taken_works fs)"
proof (induction ms arbitrary: lp)
  case Nil
  then show ?case by simp
next
  case (Cons m ms)
  show ?case
  proof (cases "lo_parse ops (mg_value m)")
    case (Inl r)
    with Cons.prems Cons.IH show ?thesis by (fastforce simp: dead_letter)
  next
    case (Inr k)
    obtain a s where s: "lo_submit ops k (lp_worker lp) = (a, s)" by fastforce
    show ?thesis
    proof (cases a)
      case True
      with Cons.prems Cons.IH Inr s accepted [of k "lp_worker lp" s] show ?thesis by fastforce
    next
      case False
      with Cons.prems Inr s refused [of k "lp_worker lp" s] show ?thesis by auto
    qed
  qed
qed

lemma held_batches:
  "handle_batches ops bs lp = (b, lp') \<Longrightarrow>
   \<exists>fs. lp_fates lp' = lp_fates lp @ fs \<and> held (lp_worker lp') = held (lp_worker lp) @ map strip (taken_works fs)"
proof (induction bs arbitrary: lp b lp')
  case Nil
  then show ?case by simp
next
  case (Cons pm bs)
  obtain p ms where pm: "pm = (p, ms)" by fastforce
  obtain a lp1 where 1: "handle_messages ops p ms lp = (a, lp1)" by fastforce
  obtain c lp2 where 2: "handle_batches ops bs lp1 = (c, lp2)" by fastforce
  have "lp' = lp2" using Cons.prems pm 1 2 by simp
  with held_messages [OF 1] Cons.IH [OF 2] show ?case by fastforce
qed

text \<open>A pass adds to the worker exactly the work of the messages it took, in the order it took them.\<close>

lemma held_pass:
  assumes "poll_pass ops (Fetched bs) lp = GoOn lp'"
  shows "\<exists>fs. lp_fates lp' = lp_fates lp @ fs \<and> held (lp_worker lp') = held (lp_worker lp) @ map strip (taken_works fs)"
proof -
  define lp0 where "lp0 = (resume_drained_partitions ops lp)\<lparr>lp_failures := 0, lp_kafka := fetched bs (lp_kafka (resume_drained_partitions ops lp))\<rparr>"
  obtain b lp1 where 1: "handle_batches ops bs lp0 = (b, lp1)" by fastforce
  have "lp' = (if bs \<noteq> [] \<and> b then lp1\<lparr>lp_kafka := commit (lp_kafka lp1)\<rparr> else lp1)"
    using assms 1 by (simp add: poll_pass_def lp0_def Let_def split: prod.splits)
  moreover have "lp_fates lp0 = lp_fates lp \<and> lp_worker lp0 = lp_worker lp"
    by (simp add: lp0_def resume_drained_partitions_def)
  ultimately show ?thesis using held_batches [OF 1] by auto
qed

end

section \<open>Positions, commits and fates\<close>

definition offs :: "'p \<Rightarrow> ('p, 'k, 's) loop \<Rightarrow> nat list" where
  "offs p lp = map (fst \<circ> snd) (filter (\<lambda>f. fst f = p) (lp_fates lp))"

abbreviation position :: "('p, 'k, 's) loop \<Rightarrow> 'p \<Rightarrow> nat" where
  "position lp \<equiv> kc_position (lp_kafka lp)"

abbreviation committed :: "('p, 'k, 's) loop \<Rightarrow> 'p \<Rightarrow> nat" where
  "committed lp \<equiv> kc_committed (lp_kafka lp)"

text \<open>A partition with the messages \<open>ms\<close> of it still to handle in this pass.\<close>

definition part_ok :: "('p, 'k, 's) loop \<Rightarrow> ('p \<times> nat) set \<Rightarrow> 'p \<Rightarrow> 'raw message list \<Rightarrow> bool" where
  "part_ok lp seen p ms \<longleftrightarrow> sorted_wrt (<) (offs p lp @ map mg_offset ms) \<and>
     (\<forall>o' \<in> set (offs p lp) \<union> offsets_in ms. o' < position lp p) \<and>
     committed lp p \<le> position lp p \<and> (\<forall>o' \<in> offsets_in ms. committed lp p \<le> o') \<and>
     (\<forall>o'. (p, o') \<in> seen \<and> o' < position lp p \<longrightarrow> o' \<in> set (offs p lp) \<union> offsets_in ms)"

lemma handle_messages_effect:
  "handle_messages ops p ms lp = (b, lp') \<Longrightarrow>
   \<exists>dn rs fs. ms = dn @ rs \<and> lp_fates lp' = lp_fates lp @ fs \<and> map (\<lambda>f. (fst f, fst (snd f))) fs = map (\<lambda>m. (p, mg_offset m)) dn \<and>
     (if b then rs = [] \<and> lp_kafka lp' = lp_kafka lp
      else rs \<noteq> [] \<and> lp_kafka lp' = pause p (seek p (mg_offset (hd rs)) (lp_kafka lp)))"
proof (induction ms arbitrary: lp)
  case Nil
  then show ?case by simp
next
  case (Cons m ms)
  have step: ?case if "handle_messages ops p ms lp1 = (b, lp')" "lp_fates lp1 = lp_fates lp @ [(p, mg_offset m, f)]"
      "lp_kafka lp1 = lp_kafka lp" for lp1 f
  proof -
    from Cons.IH [OF that(1)] obtain dn rs fs where
      "ms = dn @ rs" "lp_fates lp' = lp_fates lp1 @ fs" "map (\<lambda>f. (fst f, fst (snd f))) fs = map (\<lambda>m. (p, mg_offset m)) dn"
      "if b then rs = [] \<and> lp_kafka lp' = lp_kafka lp1 else rs \<noteq> [] \<and> lp_kafka lp' = pause p (seek p (mg_offset (hd rs)) (lp_kafka lp1))"
      by blast
    with that(2,3) show ?thesis
      by (intro exI [of _ "m # dn"] exI [of _ rs] exI [of _ "(p, mg_offset m, f) # fs"]) simp
  qed
  show ?case
  proof (cases "lo_parse ops (mg_value m)")
    case (Inl r)
    show ?thesis
      by (rule step [of "lp\<lparr>lp_worker := lo_dlq ops m r (lp_worker lp), lp_fates := lp_fates lp @ [(p, mg_offset m, DeadLettered r)]\<rparr>"])
        (use Cons.prems Inl in simp_all)
  next
    case (Inr k)
    obtain a s where s: "lo_submit ops k (lp_worker lp) = (a, s)" by fastforce
    show ?thesis
    proof (cases a)
      case True
      show ?thesis
        by (rule step [of "lp\<lparr>lp_worker := s, lp_fates := lp_fates lp @ [(p, mg_offset m, Taken k)]\<rparr>"])
          (use Cons.prems Inr s True in simp_all)
    next
      case False
      with Cons.prems Inr s show ?thesis by (intro exI [of _ "[]"] exI [of _ "m # ms"]) auto
    qed
  qed
qed

lemma offs_append:
  assumes "lp_fates lp' = lp_fates lp @ fs" "map (\<lambda>f. (fst f, fst (snd f))) fs = map (\<lambda>m. (p, mg_offset m)) dn"
  shows "offs q lp' = offs q lp @ (if q = p then map mg_offset dn else [])"
proof -
  have "map (fst \<circ> snd) (filter (\<lambda>f. fst f = q) fs) = (if q = p then map mg_offset dn else [])"
    using assms(2)
  proof (induction fs arbitrary: dn)
    case Nil
    then show ?case by simp
  next
    case (Cons f fs)
    then obtain m ms where "dn = m # ms" by (cases dn) auto
    with Cons show ?case by auto
  qed
  then show ?thesis by (simp add: offs_def assms(1))
qed

lemma handle_messages_ok:
  fixes ms :: "'raw message list"
  assumes "handle_messages ops p ms lp = (b, lp')" "part_ok lp seen p ms"
  shows "part_ok lp' seen p ([] :: 'raw message list)"
proof -
  obtain dn rs fs where e: "ms = dn @ rs" "lp_fates lp' = lp_fates lp @ fs"
      "map (\<lambda>f. (fst f, fst (snd f))) fs = map (\<lambda>m. (p, mg_offset m)) dn"
      "if b then rs = [] \<and> lp_kafka lp' = lp_kafka lp else rs \<noteq> [] \<and> lp_kafka lp' = pause p (seek p (mg_offset (hd rs)) (lp_kafka lp))"
    using handle_messages_effect [OF assms(1)] by blast
  have o': "offs p lp' = offs p lp @ map mg_offset dn" using offs_append [OF e(2,3), of p] by simp
  show ?thesis
  proof (cases b)
    case True
    with e o' assms(2) show ?thesis by (auto simp: part_ok_def offsets_in_def)
  next
    case False
    then obtain m rs' where rs: "rs = m # rs'" "lp_kafka lp' = pause p (seek p (mg_offset m) (lp_kafka lp))"
      using e(4) by (cases rs) auto
    have "sorted_wrt (<) ((offs p lp @ map mg_offset dn) @ mg_offset m # map mg_offset rs')"
      using assms(2) e(1) rs(1) by (simp add: part_ok_def)
    then have "sorted_wrt (<) (offs p lp')" "\<forall>x \<in> set (offs p lp'). x < mg_offset m" "\<forall>x \<in> set rs'. mg_offset m < mg_offset x"
      by (auto simp: o' sorted_wrt_append)
    note srt = this
    have pos: "position lp' p = mg_offset m" "committed lp' p = committed lp p"
      using rs(2) by (simp_all add: pause_def seek_def)
    have m: "m \<in> set ms" "mg_offset m < position lp p" "committed lp p \<le> mg_offset m"
      using assms(2) e(1) rs(1) by (auto simp: part_ok_def offsets_in_def)
    have "o1 \<in> set (offs p lp')" if "(p, o1) \<in> seen" "o1 < mg_offset m" for o1
    proof -
      have "o1 \<in> set (offs p lp) \<union> offsets_in ms" using assms(2) that m(2) by (simp add: part_ok_def)
      then show ?thesis using that(2) srt(3) e(1) rs(1) by (auto simp: o' offsets_in_def)
    qed
    then show ?thesis using srt m(3) by (simp add: part_ok_def pos offsets_in_def)
  qed
qed

lemma handle_messages_others:
  assumes "handle_messages ops p ms lp = (b, lp')" "q \<noteq> p"
  shows "part_ok lp' seen q ms' = part_ok lp seen q ms'"
proof -
  obtain dn rs fs where e0: "ms = dn @ rs" and e: "lp_fates lp' = lp_fates lp @ fs"
      "map (\<lambda>f. (fst f, fst (snd f))) fs = map (\<lambda>m. (p, mg_offset m)) dn"
      "if b then rs = [] \<and> lp_kafka lp' = lp_kafka lp else rs \<noteq> [] \<and> lp_kafka lp' = pause p (seek p (mg_offset (hd rs)) (lp_kafka lp))"
    using handle_messages_effect [OF assms(1)] by blast
  have "offs q lp' = offs q lp" using offs_append [OF e(1,2), of q] assms(2) by simp
  moreover have "position lp' q = position lp q \<and> committed lp' q = committed lp q"
    using e(3) assms(2) by (auto simp: pause_def seek_def split: if_splits)
  ultimately show ?thesis by (simp add: part_ok_def)
qed

definition batch_of :: "('p, 'raw) batches \<Rightarrow> 'p \<Rightarrow> 'raw message list" where
  "batch_of bs p = (case map_of bs p of None \<Rightarrow> [] | Some ms \<Rightarrow> ms)"

lemma handle_batches_ok:
  fixes bs :: "('p, 'raw) batches"
  shows "handle_batches ops bs lp = (b, lp') \<Longrightarrow> distinct (map fst bs) \<Longrightarrow> (\<And>p. part_ok lp seen p (batch_of bs p)) \<Longrightarrow>
   part_ok lp' seen p ([] :: 'raw message list)"
proof (induction bs arbitrary: lp b lp')
  case Nil
  then show ?case by (simp add: batch_of_def)
next
  case (Cons pm bs)
  obtain q ms where pm: "pm = (q, ms)" by fastforce
  obtain a lp1 where 1: "handle_messages ops q ms lp = (a, lp1)" by fastforce
  obtain c lp2 where 2: "handle_batches ops bs lp1 = (c, lp2)" by fastforce
  have "part_ok lp1 seen r (batch_of bs r)" for r
  proof (cases "r = q")
    case True
    have "map_of bs q = None" using Cons.prems(2) pm by (simp add: map_of_eq_None_iff)
    then have "batch_of bs q = []" by (simp add: batch_of_def)
    then show ?thesis using handle_messages_ok [OF 1, of seen] Cons.prems(3) [of q] pm True by (simp add: batch_of_def)
  next
    case False
    then show ?thesis using handle_messages_others [OF 1 False, of seen "batch_of bs r"] Cons.prems(3) [of r] pm by (simp add: batch_of_def)
  qed
  then show ?case using Cons.IH [OF 2] Cons.prems(1,2) pm 1 2 by simp
qed

lemma fetched_position:
  "distinct (map fst bs) \<Longrightarrow> kc_committed (fetched bs kc) = kc_committed kc \<and>
   kc_position (fetched bs kc) p = (if batch_of bs p = [] then kc_position kc p else Suc (mg_offset (last (batch_of bs p))))"
proof (induction bs arbitrary: kc)
  case Nil
  then show ?case by (simp add: fetched_def batch_of_def)
next
  case (Cons pm bs)
  obtain q ms where pm: "pm = (q, ms)" by fastforce
  have "map_of bs q = None" using Cons.prems pm by (simp add: map_of_eq_None_iff)
  then have "batch_of bs q = []" by (simp add: batch_of_def)
  moreover have "fetched (pm # bs) kc = fetched bs (advance (q, ms) kc)" by (simp add: fetched_def pm)
  ultimately show ?case using Cons.IH [of "advance (q, ms) kc"] Cons.prems pm
    by (auto simp: batch_of_def advance_def seek_def)
qed

lemma batch_of_in: "distinct (map fst bs) \<Longrightarrow> (p, ms) \<in> set bs \<Longrightarrow> batch_of bs p = ms"
  by (simp add: batch_of_def)

lemma batch_of_legal:
  assumes "legal kc seen bs" "batch_of bs p \<noteq> []"
  shows "(p, batch_of bs p) \<in> set bs"
  using assms by (auto simp: batch_of_def dest: map_of_SomeD split: option.splits)

lemma sorted_last: "sorted_wrt (<) (map mg_offset ms) \<Longrightarrow> o' \<in> offsets_in ms \<Longrightarrow> o' < Suc (mg_offset (last ms))"
proof (induction ms)
  case Nil
  then show ?case by (simp add: offsets_in_def)
next
  case (Cons m ms)
  show ?case
  proof (cases "ms = []")
    case True
    then show ?thesis using Cons.prems by (simp add: offsets_in_def)
  next
    case False
    have "mg_offset m < mg_offset (last ms)" using Cons.prems(1) False by simp
    with Cons False show ?thesis by (auto simp: offsets_in_def intro: less_SucI)
  qed
qed

lemma fetched_part_ok:
  assumes ok: "part_ok lp seen p ([] :: 'raw message list)" and legal: "legal (lp_kafka lp) seen (bs :: ('p, 'raw) batches)"
    and lp': "lp_fates lp' = lp_fates lp" "lp_kafka lp' = fetched bs (lp_kafka lp)"
  shows "part_ok lp' (seen \<union> returned bs) p (batch_of bs p)"
proof -
  define ms where "ms = batch_of bs p"
  have d: "distinct (map fst bs)" using legal by (simp add: legal_def)
  have o': "offs p lp' = offs p lp" by (simp add: offs_def lp')
  have c: "committed lp' p = committed lp p" using fetched_position [OF d] lp' by simp
  have ret: "(p, o1) \<in> returned bs \<Longrightarrow> o1 \<in> offsets_in ms" for o1
    using batch_of_in [OF d] by (auto simp: returned_def ms_def)
  show ?thesis
  proof (cases "ms = []")
    case True
    then have "position lp' p = position lp p" using fetched_position [OF d, of "lp_kafka lp" p] lp' by (simp add: ms_def)
    then show ?thesis using ok ret True by (auto simp: part_ok_def o' c ms_def [symmetric] offsets_in_def)
  next
    case False
    then have pos: "position lp' p = Suc (mg_offset (last ms))"
      using fetched_position [OF d, of "lp_kafka lp" p] lp' by (simp add: ms_def)
    have inb: "(p, ms) \<in> set bs" using batch_of_legal [OF legal, of p] False by (simp add: ms_def)
    have srt: "sorted_wrt (<) (map mg_offset ms)" and from_pos: "\<forall>m \<in> set ms. position lp p \<le> mg_offset m"
      and again: "\<And>o1. (p, o1) \<in> seen \<Longrightarrow> position lp p \<le> o1 \<Longrightarrow> o1 \<le> mg_offset (last ms) \<Longrightarrow> o1 \<in> offsets_in ms"
    proof -
      have L: "sorted_wrt (<) (map mg_offset ms) \<and> (\<forall>m \<in> set ms. position lp p \<le> mg_offset m \<and>
           (\<forall>o1. (p, o1) \<in> seen \<and> position lp p \<le> o1 \<and> o1 \<le> mg_offset m \<longrightarrow> o1 \<in> offsets_in ms))"
        using legal inb unfolding legal_def by fast
      then show "sorted_wrt (<) (map mg_offset ms)" "\<forall>m \<in> set ms. position lp p \<le> mg_offset m" by simp_all
      show "(p, o1) \<in> seen \<Longrightarrow> position lp p \<le> o1 \<Longrightarrow> o1 \<le> mg_offset (last ms) \<Longrightarrow> o1 \<in> offsets_in ms" for o1
        using L last_in_set [OF False] by blast
    qed
    have low: "position lp p \<le> mg_offset (last ms)" using from_pos False by simp
    have "o1 \<in> set (offs p lp) \<union> offsets_in ms" if "(p, o1) \<in> seen \<union> returned bs" "o1 < Suc (mg_offset (last ms))" for o1
      using that ret [of o1] again [of o1] ok by (cases "o1 < position lp p") (auto simp: part_ok_def)
    moreover have "sorted_wrt (<) (offs p lp @ map mg_offset ms)"
      using ok srt from_pos by (fastforce simp: part_ok_def sorted_wrt_append)
    moreover have "\<forall>o1 \<in> set (offs p lp) \<union> offsets_in ms. o1 < Suc (mg_offset (last ms))"
      using ok low sorted_last [OF srt] by (fastforce simp: part_ok_def)
    moreover have "committed lp p \<le> Suc (mg_offset (last ms)) \<and> (\<forall>o1 \<in> offsets_in ms. committed lp p \<le> o1)"
      using ok low from_pos by (fastforce simp: part_ok_def offsets_in_def)
    ultimately show ?thesis by (simp add: part_ok_def o' c pos ms_def [symmetric])
  qed
qed

lemma resume_drained_same:
  "lp_fates (resume_drained_partitions ops lp) = lp_fates lp"
  "position (resume_drained_partitions ops lp) = position lp"
  "committed (resume_drained_partitions ops lp) = committed lp"
  "lp_worker (resume_drained_partitions ops lp) = lp_worker lp"
  by (simp_all add: resume_drained_partitions_def resume_all_def)

lemma part_ok_cong:
  "lp_fates lp' = lp_fates lp \<Longrightarrow> position lp' = position lp \<Longrightarrow> committed lp' = committed lp \<Longrightarrow> part_ok lp' seen p ms = part_ok lp seen p ms"
  by (simp add: part_ok_def offs_def)

lemma loop_history_ok:
  "loop_history (ops :: ('raw, 'k, 's) loop_ops) lp seen \<Longrightarrow> part_ok lp seen p ([] :: 'raw message list)"
proof (induction arbitrary: p rule: loop_history.induct)
  case (begun kc s)
  then show ?case by (simp add: part_ok_def offs_def offsets_in_def)
next
  case (worker lp seen s)
  then show ?case by (simp add: part_ok_def offs_def)
next
  case (failed lp seen x lp')
  have "lp' = (resume_drained_partitions ops lp)\<lparr>lp_failures := Suc (lp_failures (resume_drained_partitions ops lp))\<rparr>"
    using failed.hyps(2) by (auto simp: poll_pass_def Let_def split: if_splits)
  then have "part_ok lp' seen p ([] :: 'raw message list) = part_ok lp seen p ([] :: 'raw message list)"
    by (intro part_ok_cong) (simp_all add: resume_drained_same)
  then show ?case using failed.IH by simp
next
  case (passed lp seen bs lp')
  define lp0 where "lp0 = resume_drained_partitions ops lp"
  define lp1 where "lp1 = lp0\<lparr>lp_failures := 0, lp_kafka := fetched bs (lp_kafka lp0)\<rparr>"
  obtain b lp2 where 2: "handle_batches ops bs lp1 = (b, lp2)" by fastforce
  have lp': "lp' = (if bs \<noteq> [] \<and> b then lp2\<lparr>lp_kafka := commit (lp_kafka lp2)\<rparr> else lp2)"
    using passed.hyps(3) 2 by (simp add: poll_pass_def lp0_def lp1_def Let_def split: prod.splits)
  have "part_ok lp0 seen q ([] :: 'raw message list)" for q
    using passed.IH [of q] part_ok_cong [of lp0 lp seen q "[] :: 'raw message list"] by (simp add: lp0_def resume_drained_same)
  then have "part_ok lp1 (seen \<union> returned bs) q (batch_of bs q)" for q
    using fetched_part_ok [of lp0 seen q bs lp1] passed.hyps(2) by (simp add: lp1_def lp0_def)
  then have "part_ok lp2 (seen \<union> returned bs) p ([] :: 'raw message list)"
    using handle_batches_ok [OF 2] passed.hyps(2) by (simp add: legal_def)
  then show ?case unfolding lp' by (auto simp: part_ok_def offs_def commit_def offsets_in_def)
qed

text \<open>Polls that all raise: the loop after them, or the error it ends with.\<close>

fun poll_failures :: "('raw, 'k, 's) loop_ops \<Rightarrow> string list \<Rightarrow> ('p, 'k, 's) loop \<Rightarrow> ('p, 'k, 's) loop pass_result" where
  "poll_failures ops [] lp = GoOn lp"
| "poll_failures ops (x # xs) lp = (case poll_pass ops (PollRaises x) lp of GiveUp y lp' \<Rightarrow> GiveUp y lp' | GoOn lp' \<Rightarrow> poll_failures ops xs lp')"

definition untouched :: "('p, 'k, 's) loop \<Rightarrow> ('p, 'k, 's) loop \<Rightarrow> bool" where
  "untouched lp lp' \<longleftrightarrow> lp_worker lp' = lp_worker lp \<and> lp_fates lp' = lp_fates lp \<and> position lp' = position lp \<and> committed lp' = committed lp"

lemma poll_raises:
  "poll_pass ops (PollRaises x) lp =
     (if lp_failures lp \<ge> 9 then GiveUp x else GoOn) ((resume_drained_partitions ops lp)\<lparr>lp_failures := Suc (lp_failures lp)\<rparr>)"
  by (simp add: poll_pass_def MAX_CONSECUTIVE_POLL_FAILURES_def resume_drained_partitions_def)

lemma poll_failures_count:
  "lp_failures lp \<le> 9 \<Longrightarrow> case poll_failures ops xs lp of
     GoOn lp' \<Rightarrow> lp_failures lp + length xs < 10 \<and> untouched lp lp'
   | GiveUp x lp' \<Rightarrow> lp_failures lp + length xs \<ge> 10 \<and> x = xs ! (9 - lp_failures lp) \<and> untouched lp lp'"
proof (induction xs arbitrary: lp)
  case Nil
  then show ?case by (simp add: untouched_def)
next
  case (Cons x xs)
  define lp1 where "lp1 = (resume_drained_partitions ops lp)\<lparr>lp_failures := Suc (lp_failures lp)\<rparr>"
  have same: "untouched lp lp1" by (simp add: untouched_def lp1_def resume_drained_same)
  show ?case
  proof (cases "lp_failures lp = 9")
    case True
    then show ?thesis using same unfolding lp1_def by (simp add: poll_raises)
  next
    case False
    then have n: "9 - lp_failures lp = Suc (9 - Suc (lp_failures lp))" "lp_failures lp1 = Suc (lp_failures lp)"
      using Cons.prems by (simp_all add: lp1_def)
    have "poll_failures ops (x # xs) lp = poll_failures ops xs lp1"
      using False Cons.prems by (simp add: poll_raises lp1_def [symmetric])
    with Cons.IH [of lp1] n False Cons.prems same show ?thesis
      by (cases "poll_failures ops xs lp1") (auto simp: untouched_def)
  qed
qed

section \<open>Properties\<close>


text \<open>A worker that holds one item at most, and a poll that brings two messages.\<close>

definition one_slot :: "(nat, nat, nat list) loop_ops" where
  "one_slot = \<lparr>lo_parse = Inr, lo_submit = (\<lambda>k s. if length s < 1 then (True, s @ [k]) else (False, s)),
     lo_dlq = (\<lambda>_ _ s. s), lo_capacity = (\<lambda>s. s = [])\<rparr>"

definition loop_before :: "(nat, nat, nat list) loop" where
  "loop_before = \<lparr>lp_kafka = \<lparr>kc_position = (\<lambda>_. 0), kc_committed = (\<lambda>_. 0), kc_paused = []\<rparr>, lp_worker = [], lp_failures = 0, lp_fates = []\<rparr>"

definition two_messages :: "(nat, nat) batches" where
  "two_messages = [(0, [\<lparr>mg_topic = ''t'', mg_offset = 0, mg_value = 7\<rparr>, \<lparr>mg_topic = ''t'', mg_offset = 1, mg_value = 8\<rparr>])]"

definition loop_after :: "(nat, nat, nat list) loop" where
  "loop_after = (case poll_pass one_slot (Fetched two_messages) loop_before of GoOn lp \<Rightarrow> lp | GiveUp x lp \<Rightarrow> lp)"

lemma loop_after_history: "loop_history one_slot loop_after ({} \<union> returned two_messages)"
proof (rule loop_history.passed)
  show "loop_history one_slot loop_before {}" unfolding loop_before_def by (rule loop_history.begun) simp
  show "legal (lp_kafka (resume_drained_partitions one_slot loop_before)) {} two_messages"
    by (simp add: legal_def two_messages_def resume_drained_partitions_def loop_before_def)
  show "poll_pass one_slot (Fetched two_messages) loop_before = GoOn loop_after"
    by (simp add: loop_after_def poll_pass_def Let_def split: prod.splits)
qed


text \<open>
  A failing broker is given up on exactly at the tenth poll in a row that raises. Up to then
  the loop goes on, and in either case nothing is handed over, moved or committed.
\<close>

theorem gives_up_at_the_tenth_failure:
  "case poll_failures ops xs (lp\<lparr>lp_failures := 0\<rparr>) of
     GoOn lp' \<Rightarrow> length xs < 10 \<and> untouched lp lp'
   | GiveUp x lp' \<Rightarrow> length xs \<ge> 10 \<and> x = xs ! 9 \<and> untouched lp lp'"
  using poll_failures_count [of "lp\<lparr>lp_failures := 0\<rparr>" xs ops]
  by (simp add: untouched_def split: pass_result.splits)

end
