(* ===== verification/Messages.thy ===== *)
theory Messages
  imports Stores Publish
begin

text \<open>
  The messages of the service: what \<open>consumer.py\<close> makes of an incoming envelope, the work
  items it queues and their inbox form, and the envelopes \<open>events.py\<close> builds. Decoding and
  validating a message against the shared contract is that package's, and an argument: it
  gives the envelope, or the text of what it raised.
\<close>

section \<open>Envelopes\<close>

record envelope =
  en_correlation_id :: string
  en_event_type :: string
  en_scenario_type :: string
  en_repo_url :: string
  en_branch :: string
  en_metrics :: "(string, json) dict option"
  en_payload :: "(string, json) dict option"

type_synonym 'raw validator = "'raw \<Rightarrow> (string, envelope) result"

section \<open>Work items\<close>

datatype work =
    TriggerWork (work_run_id: string) (tw_scenario_type: string) (tw_repo_url: string) (tw_branch: string)
      (tw_requirement: string) (work_inbox_id: "nat option")
  | DecisionWork (work_run_id: string) (dw_decision: "(string, json) dict") (work_inbox_id: "nat option")

fun set_inbox_id :: "nat option \<Rightarrow> work \<Rightarrow> work" where
  "set_inbox_id i (TriggerWork r sc u b q _) = TriggerWork r sc u b q i"
| "set_inbox_id i (DecisionWork r d _) = DecisionWork r d i"

lemma set_inbox_id_simps [simp]:
  "work_run_id (set_inbox_id i wk) = work_run_id wk"
  "work_inbox_id (set_inbox_id i wk) = i"
  by (cases wk; simp)+

fun kind_of :: "work \<Rightarrow> string" where
  "kind_of (TriggerWork r sc u b q _) = ''trigger''"
| "kind_of (DecisionWork r d _) = ''decision''"

fun payload_of :: "work \<Rightarrow> (string, json) dict" where
  "payload_of (TriggerWork r sc u b q _) =
     [(''run_id'', JStr r), (''scenario_type'', JStr sc), (''repo_url'', JStr u), (''branch'', JStr b), (''requirement'', JStr q)]"
| "payload_of (DecisionWork r d _) = [(''run_id'', JStr r), (''decision'', JObj d)]"

text \<open>
  \<open>work_class(**payload, inbox_id=row_id)\<close>: the keys must be the fields, in any order. Values
  are those \<open>payload_of\<close> wrote; a row holding others is treated as not matching.
\<close>

definition str_field :: "(string, json) dict \<Rightarrow> string \<Rightarrow> string option" where
  "str_field d k = (case dict_get d k of Some (JStr s) \<Rightarrow> Some s | _ \<Rightarrow> None)"

definition trigger_of_row :: "nat \<Rightarrow> (string, json) dict \<Rightarrow> work option" where
  "trigger_of_row i d =
     (if set (dict_keys d) \<noteq> {''run_id'', ''scenario_type'', ''repo_url'', ''branch'', ''requirement''} then None
      else case (str_field d ''run_id'', str_field d ''scenario_type'', str_field d ''repo_url'', str_field d ''branch'', str_field d ''requirement'') of
        (Some r, Some sc, Some u, Some b, Some q) \<Rightarrow> Some (TriggerWork r sc u b q (Some i))
      | _ \<Rightarrow> None)"

definition decision_of_row :: "nat \<Rightarrow> (string, json) dict \<Rightarrow> work option" where
  "decision_of_row i d =
     (if set (dict_keys d) \<noteq> {''run_id'', ''decision''} then None
      else case (str_field d ''run_id'', dict_get d ''decision'') of
        (Some r, Some (JObj dec)) \<Rightarrow> Some (DecisionWork r dec (Some i))
      | _ \<Rightarrow> None)"

definition work_of_row :: "nat \<Rightarrow> string \<Rightarrow> (string, json) dict \<Rightarrow> work option" where
  "work_of_row i kind d =
     (if kind = ''trigger'' then trigger_of_row i d else if kind = ''decision'' then decision_of_row i d else None)"

lemma work_of_row_payload: "work_of_row i (kind_of wk) (payload_of wk) = Some (set_inbox_id (Some i) wk)"
  by (cases wk) (auto simp: work_of_row_def trigger_of_row_def decision_of_row_def dict_keys_def str_field_def dict_get_def)

section \<open>Triggers\<close>

definition metric_part :: "(string, json) dict \<Rightarrow> string \<Rightarrow> string \<Rightarrow> string \<Rightarrow> string list" where
  "metric_part ms key label unit = (case get_or JNull (dict_get ms key) of
     JNull \<Rightarrow> [] | v \<Rightarrow> [label @ '' '' @ py_str v @ unit])"

definition describe_drift :: "envelope \<Rightarrow> string" where
  "describe_drift en =
     (let ms = get_or [] (en_metrics en);
          parts = metric_part ms ''reference_value'' ''reference'' [] @ metric_part ms ''current_value'' ''current'' [] @
            metric_part ms ''relative_delta_pct'' ''relative change'' ''%'' @ metric_part ms ''threshold_pct'' ''threshold'' ''%'' in
      ''Operational drift detected in '' @ py_str (get_or (JStr ''an operational metric'') (dict_get ms ''metric_name'')) @
      (if parts \<noteq> [] then '': '' @ join '', '' parts else []) @ ''. Investigate the regression and remediate it.'')"

definition unexpected_type :: "string \<Rightarrow> string \<Rightarrow> string" where
  "unexpected_type ty topic = ''unexpected event_type '' @ repr_str ty @ '' on '' @ topic"

definition parse_trigger :: "'raw validator \<Rightarrow> 'raw \<Rightarrow> (string, work) result" where
  "parse_trigger validate raw =
     bind_result (validate raw) (\<lambda>en.
       if en_event_type en \<noteq> ''drift-detected'' then Inl (unexpected_type (en_event_type en) ''a drift-detected topic'')
       else Inr (TriggerWork (en_correlation_id en) (en_scenario_type en) (en_repo_url en) (en_branch en) (describe_drift en) None))"

section \<open>Decisions\<close>

definition json_or :: "json \<Rightarrow> json \<Rightarrow> json" where
  "json_or a b = (if truthy a then a else b)"

definition USABLE_STATUSES :: "string list" where
  "USABLE_STATUSES = [''approve'', ''approved'', ''reject'', ''rejected'', ''edited'']"

definition normal_status :: "string \<Rightarrow> string" where
  "normal_status s = (if s = ''approve'' then ''approved'' else if s = ''reject'' then ''rejected'' else s)"

definition wire_status :: "(string, json) dict \<Rightarrow> json" where
  "wire_status p = json_or (get_or JNull (dict_get p ''decision'')) (get_or JNull (dict_get p ''status''))"

definition decision_fields :: "(string, json) dict \<Rightarrow> string \<Rightarrow> (string, json) dict" where
  "decision_fields p status =
     (let identity = get_or (JStr ''human'') (dict_get p ''decided_by'');
          clarified = get_or JNull (dict_get p ''clarified_requirement'') in
      [(''status'', JStr (normal_status status)),
       (''decided_by'', JStr (if identity = JStr ''replayed'' then ''replayed'' else ''human'')),
       (''decided_by_identity'', identity),
       (''override_guardrails'', JBool (truthy (get_or (JBool False) (dict_get p ''override_guardrails'')))),
       (''comment'', get_or (JStr []) (dict_get p ''comment''))] @
      (if clarified \<noteq> JNull then [(''clarified_requirement'', clarified)] else []))"

definition parse_decision :: "'raw validator \<Rightarrow> 'raw \<Rightarrow> (string, work) result" where
  "parse_decision validate raw =
     bind_result (validate raw) (\<lambda>en.
       if en_event_type en \<noteq> ''gate-decision'' then Inl (unexpected_type (en_event_type en) ''the decisions topic'')
       else let p = get_or [] (en_payload en) in
         case wire_status p of
           JStr s \<Rightarrow>
             if s \<notin> set USABLE_STATUSES then Inl (''decision payload has no usable status: '' @ py_repr (JObj p))
             else Inr (DecisionWork (en_correlation_id en) (decision_fields p s) None)
         | _ \<Rightarrow> Inl (''decision payload has no usable status: '' @ py_repr (JObj p)))"

text \<open>
  What the gates read of a decision dict. The texts they read are texts on the wire; a
  clarified requirement that is not one is left out here.
\<close>

definition read_decision :: "(string, json) dict \<Rightarrow> decision" where
  "read_decision d = \<lparr>d_status = str_field d ''status'', d_decided_by = str_field d ''decided_by'',
     d_decided_by_identity = map_option py_str (dict_get d ''decided_by_identity''),
     d_override_guardrails = map_option truthy (dict_get d ''override_guardrails''),
     d_comment = map_option py_str (dict_get d ''comment''), d_clarified_requirement = str_field d ''clarified_requirement'',
     d_replayed_from_fixture = map_option truthy (dict_get d ''replayed_from_fixture'')\<rparr>"

section \<open>Outgoing events\<close>

definition SERVICE_NAME :: string where "SERVICE_NAME = ''agentic-sdlc-control-plane''"

definition RUN_OUTCOME_TOPIC :: string where "RUN_OUTCOME_TOPIC = ''control-plane.run-outcome.v1''"

definition GATE_DECISION_TOPIC :: string where "GATE_DECISION_TOPIC = ''control-plane.gate-decision.v1''"

definition AUDIT_TOPIC :: string where "AUDIT_TOPIC = ''control-plane.audit.v1''"

definition DLQ_TOPIC :: string where "DLQ_TOPIC = ''control-plane.dlq.v1''"

text \<open>The identity, the time and the host of an event are drawn when it is built.\<close>

record stamp =
  st_event_id :: string
  st_timestamp :: string
  st_instance :: string

record out_event =
  oe_stamp :: stamp
  oe_correlation_id :: string
  oe_event_type :: string
  oe_repo_url :: string
  oe_branch :: string
  oe_commit_sha :: "string option"
  oe_scenario_type :: string
  oe_metrics :: "(string, json) dict"
  oe_payload :: "(string, json) dict"

definition dict_update :: "('k, 'v) dict \<Rightarrow> ('k, 'v) dict \<Rightarrow> ('k, 'v) dict" where
  "dict_update d extra = fold (\<lambda>(k, v). dict_set k v) extra d"

definition build_run_outcome ::
  "stamp \<Rightarrow> string \<Rightarrow> string \<Rightarrow> RunTarget \<Rightarrow> string \<Rightarrow> (string, json) dict \<Rightarrow> out_event" where
  "build_run_outcome st rid terminal target detail extra =
     \<lparr>oe_stamp = st, oe_correlation_id = rid, oe_event_type = ''run-outcome'', oe_repo_url = tg_repo_url target,
      oe_branch = tg_branch target, oe_commit_sha = tg_commit_sha_before target, oe_scenario_type = tg_scenario_type target,
      oe_metrics = [], oe_payload = dict_update [(''terminal_state'', JStr terminal), (''detail'', JStr detail)] extra\<rparr>"

definition build_audit_event :: "stamp \<Rightarrow> string \<Rightarrow> RunTarget \<Rightarrow> (string, json) dict \<Rightarrow> out_event" where
  "build_audit_event st rid target event =
     \<lparr>oe_stamp = st, oe_correlation_id = rid, oe_event_type = ''audit'', oe_repo_url = tg_repo_url target,
      oe_branch = tg_branch target, oe_commit_sha = tg_commit_sha_before target, oe_scenario_type = tg_scenario_type target,
      oe_metrics = [], oe_payload = event\<rparr>"

definition dlq_report :: "stamp \<Rightarrow> string \<Rightarrow> string \<Rightarrow> string \<Rightarrow> string" where
  "dlq_report st raw_text source_topic err = dumps (JObj
     [(''source_topic'', JStr source_topic), (''error'', JStr err), (''failed_at'', JStr (st_timestamp st)),
      (''reported_by'', JObj [(''service'', JStr SERVICE_NAME), (''instance_id'', JStr (st_instance st))]),
      (''raw_value'', JStr raw_text)])"

section \<open>The producer\<close>

text \<open>
  Sends are best-effort: without a producer nothing is sent; a send that fails is counted,
  never raised. \<open>po_sent\<close> is what the broker took, in order, with topic and key.
\<close>

record producer =
  po_available :: bool
  po_sent :: "(string \<times> string \<times> (out_event + string)) list"
  po_failures :: nat

definition on_send_error :: "producer \<Rightarrow> producer" where
  [simp]: "on_send_error p = p\<lparr>po_failures := po_failures p + 1\<rparr>"

definition send :: "bool \<Rightarrow> string \<Rightarrow> string \<Rightarrow> out_event + string \<Rightarrow> producer \<Rightarrow> producer" where
  "send accepted topic key v p =
     (if \<not> po_available p then p
      else if accepted then p\<lparr>po_sent := po_sent p @ [(topic, key, v)]\<rparr>
      else on_send_error p)"

definition publish_run_outcome :: "bool \<Rightarrow> out_event \<Rightarrow> producer \<Rightarrow> producer" where
  "publish_run_outcome accepted o' = send accepted RUN_OUTCOME_TOPIC (oe_correlation_id o') (Inl o')"

definition publish_audit_event :: "bool \<Rightarrow> out_event \<Rightarrow> producer \<Rightarrow> producer" where
  "publish_audit_event accepted o' = send accepted AUDIT_TOPIC (oe_correlation_id o') (Inl o')"

definition publish_to_dlq :: "bool \<Rightarrow> stamp \<Rightarrow> string \<Rightarrow> string \<Rightarrow> string \<Rightarrow> producer \<Rightarrow> producer" where
  "publish_to_dlq accepted st raw_text topic err = send accepted DLQ_TOPIC topic (Inr (dlq_report st raw_text topic err))"

section \<open>Lemmas\<close>

lemma dict_get_Cons: "dict_get ((k', v) # d) k = (if k = k' then Some v else dict_get d k)"
  by (auto simp: dict_get_def)

lemma dict_get_append: "dict_get (a @ b) k = (case dict_get a k of None \<Rightarrow> dict_get b k | Some v \<Rightarrow> Some v)"
  by (induction a) (auto simp: dict_get_def split: option.splits)

lemma read_decision_fields:
  "d_status (read_decision (decision_fields p s)) = Some (normal_status s)"
  "d_decided_by (read_decision (decision_fields p s)) \<in> {Some ''human'', Some ''replayed''}"
  "d_override_guardrails (read_decision (decision_fields p s)) = Some (truthy (get_or (JBool False) (dict_get p ''override_guardrails'')))"
  by (simp_all add: read_decision_def decision_fields_def str_field_def dict_get_Cons dict_get_append Let_def)

lemma make_gate_record_ok:
  "read_status (get_or ''approved'' (d_status d)) = Some st \<Longrightarrow> read_decided_by (get_or ''human'' (d_decided_by d)) = Some b \<Longrightarrow>
   \<exists>r. make_gate_record g d ts = Inr r \<and> gr_status r = st"
  by (simp add: make_gate_record_def)

lemma read_normal_status:
  assumes "s \<in> set USABLE_STATUSES"
  shows "\<exists>st. read_status (normal_status s) = Some st \<and> (st = Approved \<longleftrightarrow> s \<in> {''approve'', ''approved''}) \<and>
    (st = Rejected \<longleftrightarrow> s \<in> {''reject'', ''rejected''})"
proof -
  consider "s = ''approve''" | "s = ''approved''" | "s = ''reject''" | "s = ''rejected''" | "s = ''edited''"
    using assms unfolding USABLE_STATUSES_def list.set insert_iff empty_iff by blast
  then show ?thesis by cases (simp_all add: normal_status_def read_status_def)
qed

section \<open>Properties\<close>



end
