(* ===== verification/Worker.thy ===== *)
theory Worker
  imports Routing Telemetry PollLoop Messages
begin

text \<open>
  The worker of \<open>agentic_control_plane/consumer.py\<close>: accepting work durably, executing it one
  item at a time, delivering and reporting how a run ended. It owns the checkpointer, the
  delivery targets, the inbox, the audit log and the producer; the world is the file system
  and the processes behind them.
\<close>

section \<open>State\<close>

record ('w, 't) worker =
  wk_threads :: threads
  wk_world :: 'w
  wk_targets :: 't
  wk_inbox :: "inbox option"
  wk_queue :: "work list"
  wk_sink :: "sink option"
  wk_log :: "string option"
  wk_producer :: producer

text \<open>
  What the worker is configured with. Stamps and the broker's answers are per send; \<open>wx_flush_fails\<close>
  says that the audit file cannot be written, and \<open>wx_root\<close> lists the workspaces root.
\<close>

record ('w, 't) worker_env =
  wx_host :: "'w host"
  wx_ops :: "'t target_ops"
  wx_mode :: "string option"
  wx_publish :: "string \<Rightarrow> 'w publish_env"
  wx_digest :: "string \<Rightarrow> string"
  wx_event_json :: "AuditEvent \<Rightarrow> (string, json) dict"
  wx_stamp :: "nat \<Rightarrow> stamp"
  wx_accepted :: "nat \<Rightarrow> bool"
  wx_flush_fails :: bool
  wx_root :: "'w \<Rightarrow> root_dir option"
  wx_ttl :: "(node_error, rat) result"

definition WORK_QUEUE_MAXSIZE :: nat where "WORK_QUEUE_MAXSIZE = 32"

definition WORK_QUEUE_RESUME_THRESHOLD :: nat where "WORK_QUEUE_RESUME_THRESHOLD = WORK_QUEUE_MAXSIZE div 2"

definition has_capacity :: "('w, 't) worker \<Rightarrow> bool" where
  "has_capacity k = (length (wk_queue k) \<le> WORK_QUEUE_RESUME_THRESHOLD)"

definition is_live_mode :: "string option \<Rightarrow> bool" where
  "is_live_mode v = (lower (get_or ''replay'' v) = ''live'')"

section \<open>Accepting work\<close>

definition put_nowait :: "work \<Rightarrow> ('w, 't) worker \<Rightarrow> bool \<times> ('w, 't) worker" where
  "put_nowait wk k =
     (if length (wk_queue k) \<ge> WORK_QUEUE_MAXSIZE then (False, k) else (True, k\<lparr>wk_queue := wk_queue k @ [wk]\<rparr>))"

definition forget_work :: "work \<Rightarrow> ('w, 't) worker \<Rightarrow> ('w, 't) worker" where
  "forget_work wk k = (case (wk_inbox k, work_inbox_id wk) of
     (Some db, Some i) \<Rightarrow> k\<lparr>wk_inbox := Some (inbox_discard i db)\<rparr>
   | _ \<Rightarrow> k)"

definition enqueue_or_forget :: "work \<Rightarrow> ('w, 't) worker \<Rightarrow> bool \<times> ('w, 't) worker" where
  "enqueue_or_forget wk k =
     (case put_nowait wk k of (True, k') \<Rightarrow> (True, k') | (False, k') \<Rightarrow> (False, forget_work wk k'))"

definition submit :: "work \<Rightarrow> ('w, 't) worker \<Rightarrow> bool \<times> ('w, 't) worker" where
  "submit wk k =
     (case wk_inbox k of
        None \<Rightarrow> enqueue_or_forget wk k
      | Some db \<Rightarrow>
          (case inbox_record (kind_of wk) (work_run_id wk) (payload_of wk) db of
             (Inl m, db') \<Rightarrow> (False, k\<lparr>wk_inbox := Some db'\<rparr>)
           | (Inr i, db') \<Rightarrow> enqueue_or_forget (set_inbox_id (Some i) wk) (k\<lparr>wk_inbox := Some db'\<rparr>)))"

text \<open>
  The loop over the rows left by the previous process: a row that is not work is dropped, a
  full queue ends the loop and leaves the rest in the table. The count is what it restored.
\<close>

fun restore_rows ::
  "(nat \<times> string \<times> (string, json) dict) list \<Rightarrow> nat \<Rightarrow> ('w, 't) worker \<Rightarrow> (string, nat) result \<times> ('w, 't) worker" where
  "restore_rows [] n k = (Inr n, k)"
| "restore_rows ((i, kind, payload) # rows) n k =
     (case work_of_row i kind payload of
        None \<Rightarrow> restore_rows rows n (k\<lparr>wk_inbox := map_option (inbox_discard i) (wk_inbox k)\<rparr>)
      | Some wk \<Rightarrow>
          (case put_nowait wk k of
             (True, k') \<Rightarrow> restore_rows rows (Suc n) k'
           | (False, k') \<Rightarrow>
               (case wk_inbox k' of
                  None \<Rightarrow> (Inr n, k')
                | Some db \<Rightarrow> (case inbox_depth db of
                    (Inl m, db') \<Rightarrow> (Inl m, k'\<lparr>wk_inbox := Some db'\<rparr>)
                  | (Inr d, db') \<Rightarrow> (Inr n, k'\<lparr>wk_inbox := Some db'\<rparr>)))))"

definition restore_pending :: "('w, 't) worker \<Rightarrow> (string, nat) result \<times> ('w, 't) worker" where
  "restore_pending k = (case wk_inbox k of
     None \<Rightarrow> (Inr 0, k)
   | Some db \<Rightarrow>
       (case inbox_pending db of
          (Inl m, db') \<Rightarrow> (Inl m, k\<lparr>wk_inbox := Some db'\<rparr>)
        | (Inr rows, db') \<Rightarrow> restore_rows rows 0 (k\<lparr>wk_inbox := Some db'\<rparr>)))"

section \<open>Reporting\<close>

definition sends :: "('w, 't) worker \<Rightarrow> nat" where
  "sends k = length (po_sent (wk_producer k)) + po_failures (wk_producer k)"

definition unknown_target :: RunTarget where
  "unknown_target = \<lparr>tg_repo_url = ''unknown'', tg_branch = ''unknown'', tg_scenario_type = ''brownfield'', tg_commit_sha_before = None\<rparr>"

definition publish_outcome ::
  "('w, 't) worker_env \<Rightarrow> string \<Rightarrow> string \<Rightarrow> string \<Rightarrow> (string, json) dict \<Rightarrow> ('w, 't) worker \<Rightarrow> ('w, 't) worker" where
  "publish_outcome X rid terminal detail extra k =
     (let (t, ts) = op_get (wx_ops X) rid (wk_targets k); target = get_or unknown_target t;
          o' = build_run_outcome (wx_stamp X (sends k)) rid terminal target detail extra in
      k\<lparr>wk_producer := publish_run_outcome (wx_accepted X (sends k)) o' (wk_producer k),
        wk_targets := op_forget (wx_ops X) rid ts,
        wk_sink := map_option (forget_run rid) (wk_sink k)\<rparr>)"

definition clean :: "('w, 't) worker_env \<Rightarrow> string \<Rightarrow> ('w, 't) worker \<Rightarrow> ('w, 't) worker" where
  "clean X rid k = k\<lparr>wk_world := cleanup (ho_ws (wx_host X)) rid (wk_world k)\<rparr>"

fun exception_name :: "node_error \<Rightarrow> string" where
  "exception_name (ValidationError m) = ''ValidationError''"
| "exception_name (ValueError m) = ''ValueError''"
| "exception_name (GitOperationError m) = ''GitOperationError''"
| "exception_name (FileNotFoundError m) = ''FileNotFoundError''"
| "exception_name (KeyError m) = ''KeyError''"
| "exception_name (OsError m) = ''OSError''"
| "exception_name (RuntimeError m) = ''RuntimeError''"
| "exception_name (TimeoutExpired m) = ''TimeoutExpired''"
| "exception_name (AttributeError m) = ''AttributeError''"
| "exception_name (TypeError m) = ''TypeError''"

definition fail_run :: "('w, 't) worker_env \<Rightarrow> string \<Rightarrow> node_error \<Rightarrow> ('w, 't) worker \<Rightarrow> ('w, 't) worker" where
  "fail_run X rid r k = clean X rid (publish_outcome X rid ''failed'' (exception_name r @ '': '' @ err_text r) [] k)"

fun values_events :: "run_values \<Rightarrow> AuditEvent list" where
  "values_events (SdlcValues s) = events s"
| "values_events (SpecValues s) = sr_events s"

fun values_commit :: "run_values \<Rightarrow> string option" where
  "values_commit (SdlcValues s) = commit_sha_after s"
| "values_commit (SpecValues s) = sr_commit_sha_after s"

fun send_audit :: "('w, 't) worker_env \<Rightarrow> string \<Rightarrow> RunTarget \<Rightarrow> AuditEvent list \<Rightarrow> ('w, 't) worker \<Rightarrow> ('w, 't) worker" where
  "send_audit X rid t [] k = k"
| "send_audit X rid t (e # es) k = send_audit X rid t es
     (k\<lparr>wk_producer := publish_audit_event (wx_accepted X (sends k))
          (build_audit_event (wx_stamp X (sends k)) rid t (wx_event_json X e)) (wk_producer k)\<rparr>)"

definition publish_audit :: "('w, 't) worker_env \<Rightarrow> string \<Rightarrow> AuditEvent list \<Rightarrow> ('w, 't) worker \<Rightarrow> ('w, 't) worker" where
  "publish_audit X rid new_events k =
     (let (t, ts) = op_get (wx_ops X) rid (wk_targets k); k' = k\<lparr>wk_targets := ts\<rparr> in
      case t of None \<Rightarrow> k' | Some target \<Rightarrow> send_audit X rid target new_events k')"

definition record_audit :: "('w, 't) worker_env \<Rightarrow> RunResult \<Rightarrow> ('w, 't) worker \<Rightarrow> ('w, 't) worker" where
  "record_audit X res k =
     (case wk_sink k of
        None \<Rightarrow> k
      | Some sk \<Rightarrow>
          if values_events (rr_values res) = [] \<or> wx_flush_fails X then k
          else let (new_events, sk', log') = flush_new_events (wx_digest X) (JObj \<circ> wx_event_json X) (rr_run_id res)
                 (values_events (rr_values res)) (sk, wk_log k) in
            publish_audit X (rr_run_id res) new_events (k\<lparr>wk_sink := Some sk', wk_log := log'\<rparr>))"

text \<open>
  What the outcome says of the delivery. Only a push that cannot be started raises, and it
  is not caught here.
\<close>

definition commit_fields :: "run_values \<Rightarrow> (string, json) dict" where
  "commit_fields v = (case values_commit v of None \<Rightarrow> [] | Some sha \<Rightarrow> if sha = [] then [] else [(''commit_sha_after'', JStr sha)])"

fun specialist_delivery :: "string option \<Rightarrow> run_values \<Rightarrow> (string, json) dict" where
  "specialist_delivery var (SpecValues s) =
     [(''publish_mode'', JStr (mode_text (publish_mode var))), (''published'', JBool (sr_published s))] @
     (if sr_publish_branch s \<noteq> [] then [(''branch'', JStr (sr_publish_branch s))] else [])"
| "specialist_delivery var (SdlcValues s) = []"

fun requirement_of :: "run_values \<Rightarrow> string" where
  "requirement_of (SdlcValues s) = requirement_clarified s"
| "requirement_of (SpecValues s) = []"

definition deliver_if_completed ::
  "('w, 't) worker_env \<Rightarrow> string \<Rightarrow> RunResult \<Rightarrow> (('w, 't) worker, node_error, (string, json) dict) io" where
  "deliver_if_completed X rid res k =
     (let v = rr_values res; payload = commit_fields v in
      if rr_terminal_state res \<noteq> Some ''completed'' then (Inr payload, k)
      else if is_specialist_run v then (Inr (dict_update payload (specialist_delivery (pb_mode (wx_publish X rid)) v)), k)
      else let (t, ts) = op_get (wx_ops X) rid (wk_targets k); k1 = k\<lparr>wk_targets := ts\<rparr> in
        case t of
          None \<Rightarrow> (Inr payload, k1)
        | Some target \<Rightarrow>
            (case publish_change (wx_publish X rid) rid (tg_repo_url target) (tg_branch target) (requirement_of v) (wk_world k1) of
               (Inl r, w) \<Rightarrow> (Inl r, k1\<lparr>wk_world := w\<rparr>)
             | (Inr r, w) \<Rightarrow> (Inr (dict_update payload (as_payload r)), k1\<lparr>wk_world := w\<rparr>)))"

definition after_slice :: "('w, 't) worker_env \<Rightarrow> string \<Rightarrow> RunResult \<Rightarrow> (('w, 't) worker, node_error, unit) io" where
  "after_slice X rid res k =
     (let k1 = record_audit X res k in
      if rr_parked res then (Inr (), k1)
      else case deliver_if_completed X rid res k1 of
        (Inl r, k2) \<Rightarrow> (Inl r, k2)
      | (Inr delivery, k2) \<Rightarrow>
          (Inr (), clean X rid (publish_outcome X rid (or_else (get_or [] (rr_terminal_state res)) ''failed'') (rr_detail res) delivery k2)))"

section \<open>Executing work\<close>

definition record_target :: "('w, 't) worker_env \<Rightarrow> string \<Rightarrow> RunTarget \<Rightarrow> ('w, 't) worker \<Rightarrow> ('w, 't) worker" where
  "record_target X rid t k = k\<lparr>wk_targets := snd (op_record (wx_ops X) rid t (wk_targets k))\<rparr>"

definition sdlc_env :: "('w, 't) worker_env \<Rightarrow> string \<Rightarrow> 'w env" where
  "sdlc_env X rid = ho_sdlc (wx_host X) rid"

definition execute_start ::
  "('w, 't) worker_env \<Rightarrow> 'w slice_in \<Rightarrow> string \<Rightarrow> thread \<Rightarrow> 'w graph \<Rightarrow> (('w, 't) worker, node_error, unit) io" where
  "execute_start X x rid th g k =
     (case start_run (sdlc_env X rid) x rid g th (wk_threads k, wk_world k) of
        (Inl r, ts, w) \<Rightarrow> (Inr (), fail_run X rid r (k\<lparr>wk_threads := ts, wk_world := w\<rparr>))
      | (Inr res, ts, w) \<Rightarrow> after_slice X rid res (k\<lparr>wk_threads := ts, wk_world := w\<rparr>))"

definition route_and_start ::
  "('w, 't) worker_env \<Rightarrow> 'w slice_in \<Rightarrow> string \<Rightarrow> string \<Rightarrow> string \<Rightarrow> (('w, 't) worker, node_error, unit) io" where
  "route_and_start X x rid scenario requirement k =
     (case plan_for_trigger (wx_host X) x rid scenario requirement (if is_live_mode (wx_mode X) then Live else Replay) (wk_world k) of
        (Inl r, w) \<Rightarrow> (Inr (), publish_outcome X rid ''routing_failed'' (err_text r) [] (k\<lparr>wk_world := w\<rparr>))
      | (Inr (th, g), w) \<Rightarrow> execute_start X x rid th g (k\<lparr>wk_world := w\<rparr>))"

definition handle_trigger ::
  "('w, 't) worker_env \<Rightarrow> 'w slice_in \<Rightarrow> string \<Rightarrow> string \<Rightarrow> string \<Rightarrow> string \<Rightarrow> string \<Rightarrow> (('w, 't) worker, node_error, unit) io" where
  "handle_trigger X x rid scenario url branch requirement k =
     (if already_known (SdlcTopology :: 'w graph) (wk_threads k) rid then (Inr (), k)
      else let target = \<lparr>tg_repo_url = url, tg_branch = branch, tg_scenario_type = scenario, tg_commit_sha_before = None\<rparr> in
        case op_record (wx_ops X) rid target (wk_targets k) of
          (Inl m, ts) \<Rightarrow>
            (Inr (), publish_outcome X rid ''failed'' (''could not record the run'' @ [CHR 0x27] @ ''s delivery target: '' @ m) []
               (k\<lparr>wk_targets := ts\<rparr>))
        | (Inr _, ts) \<Rightarrow>
            (case clone_for_run (ho_ws (wx_host X)) rid url branch (wk_world k) of
               (Inl (CloneError m), w) \<Rightarrow> (Inr (), publish_outcome X rid ''clone_failed'' m [] (k\<lparr>wk_targets := ts, wk_world := w\<rparr>))
             | (Inl (OtherError r), w) \<Rightarrow> (Inl r, k\<lparr>wk_targets := ts, wk_world := w\<rparr>)
             | (Inr (p, sha), w) \<Rightarrow>
                 route_and_start X x rid scenario requirement
                   (record_target X rid (target\<lparr>tg_commit_sha_before := sha\<rparr>) (k\<lparr>wk_targets := ts, wk_world := w\<rparr>))))"

definition handle_decision ::
  "('w, 't) worker_env \<Rightarrow> 'w slice_in \<Rightarrow> string \<Rightarrow> (string, json) dict \<Rightarrow> (('w, 't) worker, node_error, unit) io" where
  "handle_decision X x rid d k =
     (case graph_factory_for_existing_run (wx_host X) x rid (wk_threads k) (wk_world k) of
        (Inl (RoutingChangedError m), w) \<Rightarrow> (Inr (), publish_outcome X rid ''routing_changed'' m [] (k\<lparr>wk_world := w\<rparr>))
      | (Inl (RoutingRaises r), w) \<Rightarrow> (Inr (), fail_run X rid r (k\<lparr>wk_world := w\<rparr>))
      | (Inr g, w) \<Rightarrow>
          (case resume_run (sdlc_env X rid) x rid g (read_decision d) (wk_threads k, w) of
             (Inl UnknownRunError, ts, w') \<Rightarrow> (Inr (), k\<lparr>wk_threads := ts, wk_world := w'\<rparr>)
           | (Inl RunAlreadyTerminalError, ts, w') \<Rightarrow> (Inr (), k\<lparr>wk_threads := ts, wk_world := w'\<rparr>)
           | (Inl (RunRaises r), ts, w') \<Rightarrow> (Inr (), fail_run X rid r (k\<lparr>wk_threads := ts, wk_world := w'\<rparr>))
           | (Inr res, ts, w') \<Rightarrow> after_slice X rid res (k\<lparr>wk_threads := ts, wk_world := w'\<rparr>)))"

fun handle_work :: "('w, 't) worker_env \<Rightarrow> 'w slice_in \<Rightarrow> work \<Rightarrow> (('w, 't) worker, node_error, unit) io" where
  "handle_work X x (TriggerWork r sc u b q i) = handle_trigger X x r sc u b q"
| "handle_work X x (DecisionWork r d i) = handle_decision X x r d"

text \<open>One pass of \<open>run_forever\<close>: whatever an item raises is logged, and the item is forgotten.\<close>

definition work_once :: "('w, 't) worker_env \<Rightarrow> 'w slice_in \<Rightarrow> ('w, 't) worker \<Rightarrow> ('w, 't) worker" where
  "work_once X x k = (case wk_queue k of
     [] \<Rightarrow> k
   | wk # rest \<Rightarrow> forget_work wk (snd (handle_work X x wk (k\<lparr>wk_queue := rest\<rparr>))))"

fun expire_runs :: "('w, 't) worker_env \<Rightarrow> string list \<Rightarrow> ('w, 't) worker \<Rightarrow> ('w, 't) worker" where
  "expire_runs X [] k = k"
| "expire_runs X (rid # rids) k =
     expire_runs X rids (clean X rid (publish_outcome X rid ''stale'' ''parked past the TTL with no decision'' [] k))"

definition sweep_stale_runs :: "('w, 't) worker_env \<Rightarrow> time \<Rightarrow> (('w, 't) worker, node_error, string list) io" where
  "sweep_stale_runs X now k = (case wx_ttl X of
     Inl r \<Rightarrow> (Inl r, k)
   | Inr hrs \<Rightarrow>
       (let stale = find_stale_runs (existing_run_ids (wx_root X (wk_world k))) (wk_threads k) now hrs in
        (Inr stale, expire_runs X stale k)))"

section \<open>The worker behind the poll loops\<close>

definition worker_dlq :: "('w, 't) worker_env \<Rightarrow> ('raw \<Rightarrow> string) \<Rightarrow> 'raw message \<Rightarrow> string \<Rightarrow> ('w, 't) worker \<Rightarrow> ('w, 't) worker" where
  "worker_dlq X text m reason k = k\<lparr>wk_producer :=
     publish_to_dlq (wx_accepted X (sends k)) (wx_stamp X (sends k)) (text (mg_value m)) (mg_topic m) reason (wk_producer k)\<rparr>"

definition trigger_loop :: "('w, 't) worker_env \<Rightarrow> ('raw \<Rightarrow> string) \<Rightarrow> 'raw validator \<Rightarrow> ('raw, work, ('w, 't) worker) loop_ops" where
  "trigger_loop X text validate = \<lparr>lo_parse = parse_trigger validate, lo_submit = submit, lo_dlq = worker_dlq X text, lo_capacity = has_capacity\<rparr>"

definition decision_loop :: "('w, 't) worker_env \<Rightarrow> ('raw \<Rightarrow> string) \<Rightarrow> 'raw validator \<Rightarrow> ('raw, work, ('w, 't) worker) loop_ops" where
  "decision_loop X text validate = \<lparr>lo_parse = parse_decision validate, lo_submit = submit, lo_dlq = worker_dlq X text, lo_capacity = has_capacity\<rparr>"

definition held_work :: "('w, 't) worker \<Rightarrow> work list" where
  "held_work k = map (set_inbox_id None) (wk_queue k)"

lemma set_inbox_id_twice [simp]: "set_inbox_id i (set_inbox_id j wk) = set_inbox_id i wk"
  by (cases wk) simp_all

lemma submit_held:
  "submit wk k = (True, k') \<Longrightarrow> held_work k' = held_work k @ [set_inbox_id None wk]"
  "submit wk k = (False, k') \<Longrightarrow> held_work k' = held_work k"
  by (auto simp: submit_def enqueue_or_forget_def put_nowait_def forget_work_def held_work_def
      split: option.splits prod.splits sum.splits if_splits)

lemma worker_dlq_held: "held_work (worker_dlq X text m r k) = held_work k"
  by (simp add: worker_dlq_def held_work_def)

interpretation triggers: hand_off "trigger_loop X text validate" "set_inbox_id None" held_work
  by unfold_locales (auto simp: trigger_loop_def submit_held worker_dlq_held)

interpretation decisions: hand_off "decision_loop X text validate" "set_inbox_id None" held_work
  by unfold_locales (auto simp: decision_loop_def submit_held worker_dlq_held)

end
