(* ===== verification/WorkerRuns.thy ===== *)
theory WorkerRuns
  imports Worker
begin

text \<open>
  What holds of a worker through its life: the work it accepted stays in the inbox until it
  is done, the checkpoints stay those of governed runs, and what it reports as completed is.
\<close>

section \<open>What the steps leave alone\<close>

text \<open>The queue and the inbox are touched by accepting and forgetting work only.\<close>

definition hands :: "('w, 't) worker \<Rightarrow> work list \<times> inbox option" where
  "hands k = (wk_queue k, wk_inbox k)"

lemma hands_reports [simp]:
  "hands (publish_outcome X rid t d e k) = hands k"
  "hands (clean X rid k) = hands k"
  "hands (fail_run X rid r k) = hands k"
  "hands (record_target X rid tg k) = hands k"
  by (simp_all add: hands_def publish_outcome_def clean_def fail_run_def record_target_def Let_def split: prod.splits)

lemma hands_upds [simp]:
  "hands (k\<lparr>wk_threads := a\<rparr>) = hands k" "hands (k\<lparr>wk_world := w\<rparr>) = hands k" "hands (k\<lparr>wk_targets := t\<rparr>) = hands k"
  "hands (k\<lparr>wk_sink := s\<rparr>) = hands k" "hands (k\<lparr>wk_log := l\<rparr>) = hands k" "hands (k\<lparr>wk_producer := p\<rparr>) = hands k"
  by (simp_all add: hands_def)

lemma hands_send_audit [simp]: "hands (send_audit X rid t es k) = hands k"
  by (induction es arbitrary: k) simp_all

lemma hands_record_audit [simp]: "hands (record_audit X res k) = hands k"
  by (simp add: record_audit_def publish_audit_def Let_def split: option.splits prod.splits)

lemma hands_deliver: "hands (snd (deliver_if_completed X rid res k)) = hands k"
  by (simp add: deliver_if_completed_def Let_def split: option.splits prod.splits sum.splits)

lemma hands_after_slice: "hands (snd (after_slice X rid res k)) = hands k"
  using hands_deliver [of X rid res "record_audit X res k"]
  by (auto simp: after_slice_def Let_def split: prod.splits sum.splits)

lemma hands_trigger: "hands (snd (handle_trigger X x rid sc u b q k)) = hands k"
  by (auto simp: handle_trigger_def route_and_start_def execute_start_def hands_after_slice Let_def
      split: prod.splits sum.splits ws_error.splits)

lemma hands_decision: "hands (snd (handle_decision X x rid d k)) = hands k"
  by (auto simp: handle_decision_def hands_after_slice split: prod.splits sum.splits routing_error.splits resume_error.splits)

lemma hands_work: "hands (snd (handle_work X x wk k)) = hands k"
  by (cases wk) (simp_all add: hands_trigger hands_decision)

lemma hands_expire: "hands (expire_runs X rids k) = hands k"
  by (induction rids arbitrary: k) simp_all

lemma hands_sweep: "hands (snd (sweep_stale_runs X now k)) = hands k"
  by (auto simp: sweep_stale_runs_def hands_expire Let_def split: sum.splits)

section \<open>Queue and inbox\<close>

definition row_of :: "nat \<Rightarrow> work \<Rightarrow> inbox_row" where
  "row_of i wk = \<lparr>ir_id = i, ir_kind = kind_of wk, ir_run_id = work_run_id wk, ir_payload = payload_of wk\<rparr>"

lemma row_of_set_id [simp]: "row_of i (set_inbox_id j wk) = row_of i wk"
  by (cases wk) (simp_all add: row_of_def)

abbreviation rows :: "inbox \<Rightarrow> inbox_row list" where
  "rows db \<equiv> it_rows (pg_rows db)"

definition work_rows :: "inbox \<Rightarrow> bool" where
  "work_rows db \<longleftrightarrow> inbox_ok db \<and> (\<forall>row \<in> set (rows db). \<exists>wk. row = row_of (ir_id row) wk)"

text \<open>Every item taken on, those in hand and those queued, holds a row of its own.\<close>

definition all_recorded :: "work list \<Rightarrow> inbox option \<Rightarrow> bool" where
  "all_recorded wks box \<longleftrightarrow> (\<forall>db. box = Some db \<longrightarrow> work_rows db \<and> distinct (map work_inbox_id wks) \<and>
     (\<forall>wk \<in> set wks. \<exists>i. work_inbox_id wk = Some i \<and> row_of i wk \<in> set (rows db)))"

lemma all_recordedD:
  "all_recorded wks (Some db) \<Longrightarrow> wk \<in> set wks \<Longrightarrow> \<exists>i. work_inbox_id wk = Some i \<and> row_of i wk \<in> set (rows db)"
  by (simp add: all_recorded_def)

definition queue_durable :: "work list \<Rightarrow> work list \<times> inbox option \<Rightarrow> bool" where
  "queue_durable hs h \<longleftrightarrow> length (fst h) \<le> WORK_QUEUE_MAXSIZE \<and> all_recorded (hs @ fst h) (snd h)"

lemma ir_id_row_of [simp]: "ir_id (row_of i wk) = i"
  by (simp add: row_of_def)

lemma inbox_record_rows:
  assumes "inbox_record (kind_of wk) (work_run_id wk) (payload_of wk) db = (res, db')"
  shows "(\<exists>m. res = Inl m) \<and> rows db' = rows db \<or>
    (res = Inr (it_next (pg_rows db)) \<and> rows db' = rows db @ [row_of (it_next (pg_rows db)) wk])"
  using assms by (auto simp: inbox_record_def row_of_def Let_def split: prod.splits option.splits)

lemma inbox_discard_rows:
  "rows (inbox_discard i db) = rows db \<or> rows (inbox_discard i db) = filter (\<lambda>row. ir_id row \<noteq> i) (rows db)"
  "it_next (pg_rows (inbox_discard i db)) = it_next (pg_rows db)"
  by (auto simp: inbox_discard_def split: prod.splits option.splits)

lemma work_rows_discard: "work_rows db \<Longrightarrow> work_rows (inbox_discard i db)"
  using inbox_discard_ok [of db i] inbox_discard_rows(1) [of i db] by (auto simp: work_rows_def)

lemma work_rows_record:
  assumes "work_rows db" "inbox_record (kind_of wk) (work_run_id wk) (payload_of wk) db = (res, db')"
  shows "work_rows db'"
proof -
  have "inbox_ok db'" using inbox_record_ok [of db "kind_of wk" "work_run_id wk" "payload_of wk"] assms by (simp add: work_rows_def)
  moreover have "\<exists>wk'. row = row_of (ir_id row) wk'" if "row \<in> set (rows db')" for row
  proof (cases "row \<in> set (rows db)")
    case True
    then show ?thesis using assms(1) by (simp add: work_rows_def)
  next
    case False
    then have "row = row_of (it_next (pg_rows db)) wk" using inbox_record_rows [OF assms(2)] that by auto
    then have "row = row_of (ir_id row) wk" by (simp only: ir_id_row_of)
    then show ?thesis by (rule exI)
  qed
  ultimately show ?thesis by (simp add: work_rows_def)
qed

lemma all_recorded_discard:
  assumes "all_recorded wks (Some db)" "\<forall>wk \<in> set wks. work_inbox_id wk \<noteq> Some i"
  shows "all_recorded wks (Some (inbox_discard i db))"
proof -
  have "row_of j wk \<in> set (rows (inbox_discard i db))" if "wk \<in> set wks" "work_inbox_id wk = Some j" "row_of j wk \<in> set (rows db)" for wk j
    using that assms(2) inbox_discard_rows(1) [of i db] by (auto simp: row_of_def)
  then show ?thesis using assms(1) work_rows_discard by (fastforce simp: all_recorded_def)
qed

lemma all_recorded_mset: "mset wks = mset wks' \<Longrightarrow> all_recorded wks box = all_recorded wks' box"
proof -
  assume m: "mset wks = mset wks'"
  then have "distinct (map work_inbox_id wks) = distinct (map work_inbox_id wks')"
    by (intro mset_eq_imp_distinct_iff) (simp add: mset_map)
  then show ?thesis using mset_eq_setD [OF m] by (simp add: all_recorded_def)
qed

lemma queue_durable_mset: "mset hs = mset hs' \<Longrightarrow> queue_durable hs h = queue_durable hs' h"
  using all_recorded_mset [of "hs @ fst h" "hs' @ fst h"] by (simp add: queue_durable_def)

lemma durable_items:
  assumes "queue_durable hs (hands k)" "wk_inbox k = Some db"
  shows "length (wk_queue k) \<le> 32 \<and> distinct (map work_inbox_id (hs @ wk_queue k)) \<and>
    (\<forall>wk \<in> set (hs @ wk_queue k). \<exists>row \<in> set (rows db). ir_run_id row = work_run_id wk \<and> work_of_row (ir_id row) (ir_kind row) (ir_payload row) = Some wk)"
proof -
  have d: "length (wk_queue k) \<le> WORK_QUEUE_MAXSIZE" "all_recorded (hs @ wk_queue k) (Some db)"
    using assms by (simp_all add: queue_durable_def hands_def)
  have "\<exists>row \<in> set (rows db). ir_run_id row = work_run_id wk \<and> work_of_row (ir_id row) (ir_kind row) (ir_payload row) = Some wk"
    if wk: "wk \<in> set (hs @ wk_queue k)" for wk
  proof -
    obtain i where i: "work_inbox_id wk = Some i" "row_of i wk \<in> set (rows db)"
      using all_recordedD [OF d(2) wk] by blast
    have "work_of_row i (kind_of wk) (payload_of wk) = Some wk"
      using work_of_row_payload [of i wk] i(1) by (cases wk) simp_all
    with i(2) show ?thesis by (intro bexI [of _ "row_of i wk"]) (simp_all add: row_of_def)
  qed
  then show ?thesis using d by (simp add: WORK_QUEUE_MAXSIZE_def all_recorded_def)
qed

text \<open>A new row makes its item one more that is recorded; a refused one changes nothing.\<close>

lemma all_recorded_record:
  assumes "all_recorded wks (Some db)" "inbox_record (kind_of wk) (work_run_id wk) (payload_of wk) db = (res, db')"
  shows "case res of Inl m \<Rightarrow> all_recorded wks (Some db') | Inr i \<Rightarrow> all_recorded (set_inbox_id (Some i) wk # wks) (Some db')"
proof -
  have wr: "work_rows db'" using work_rows_record [OF _ assms(2)] assms(1) by (simp add: all_recorded_def)
  have sub: "set (rows db) \<subseteq> set (rows db')" using inbox_record_rows [OF assms(2)] by auto
  have q': "all_recorded wks (Some db')" using assms(1) wr sub by (fastforce simp: all_recorded_def)
  show ?thesis
  proof (cases res)
    case (Inl m)
    then show ?thesis using q' by simp
  next
    case (Inr i)
    then have i: "i = it_next (pg_rows db)" "row_of i wk \<in> set (rows db')"
      using inbox_record_rows [OF assms(2)] by auto
    have new: "work_inbox_id wk' \<noteq> Some i" if "wk' \<in> set wks" for wk'
    proof
      assume "work_inbox_id wk' = Some i"
      then have "row_of i wk' \<in> set (rows db)" using assms(1) that by (fastforce simp: all_recorded_def)
      moreover have "\<forall>row \<in> set (rows db). ir_id row < it_next (pg_rows db)"
        using assms(1) by (simp add: all_recorded_def work_rows_def inbox_ok_def)
      ultimately show False using i(1) by fastforce
    qed
    have "Some i \<notin> work_inbox_id ` set wks"
    proof
      assume "Some i \<in> work_inbox_id ` set wks"
      then obtain wk' where "wk' \<in> set wks" "work_inbox_id wk' = Some i" by (elim imageE) simp
      then show False using new by blast
    qed
    then show ?thesis using q' i(2) Inr by (simp add: all_recorded_def)
  qed
qed

text \<open>Forgetting an item takes it out of what is recorded, whatever the database answers.\<close>

lemma forget_durable:
  assumes "queue_durable (wk # hs) (hands k)"
  shows "queue_durable hs (hands (forget_work wk k))"
proof (cases "wk_inbox k")
  case None
  then show ?thesis using assms by (simp add: forget_work_def hands_def queue_durable_def all_recorded_def)
next
  case (Some db)
  then have all: "all_recorded (wk # hs @ wk_queue k) (Some db)" using assms by (simp add: queue_durable_def hands_def)
  obtain i where i: "work_inbox_id wk = Some i" using all_recordedD [OF all, of wk] by auto
  have others: "work_inbox_id wk' \<noteq> Some i" if "wk' \<in> set (hs @ wk_queue k)" for wk'
  proof -
    have "work_inbox_id wk \<notin> work_inbox_id ` set (hs @ wk_queue k)" using all by (simp add: all_recorded_def image_Un)
    then show ?thesis using i that by (metis imageI)
  qed
  have "hands (forget_work wk k) = (wk_queue k, Some (inbox_discard i db))"
    using i Some by (simp add: forget_work_def hands_def)
  moreover have "all_recorded (hs @ wk_queue k) (Some db)" using all by (simp add: all_recorded_def)
  ultimately show ?thesis using all_recorded_discard [of "hs @ wk_queue k" db i] assms others by (simp add: queue_durable_def hands_def)
qed

lemma enqueue_durable:
  assumes "queue_durable (wk # hs) (hands k)" "enqueue_or_forget wk k = (b, k')"
  shows "queue_durable hs (hands k')"
proof (cases "length (wk_queue k) \<ge> WORK_QUEUE_MAXSIZE")
  case True
  then have "k' = forget_work wk k" using assms(2) by (simp add: enqueue_or_forget_def put_nowait_def)
  then show ?thesis using forget_durable [OF assms(1)] by simp
next
  case False
  then have "hands k' = (wk_queue k @ [wk], wk_inbox k)"
    using assms(2) by (auto simp: enqueue_or_forget_def put_nowait_def hands_def)
  then show ?thesis using assms(1) False all_recorded_mset [of "wk # hs @ wk_queue k" "hs @ wk_queue k @ [wk]"]
    by (simp add: queue_durable_def hands_def)
qed

lemma queue_durable_no_inbox: "queue_durable hs (q, None) \<longleftrightarrow> length q \<le> WORK_QUEUE_MAXSIZE"
  by (simp add: queue_durable_def all_recorded_def)

lemma submit_durable:
  assumes "queue_durable hs (hands k)" "submit wk k = (b, k')"
  shows "queue_durable hs (hands k')"
proof (cases "wk_inbox k")
  case None
  then show ?thesis using assms
    by (intro enqueue_durable [of wk hs k b k']) (simp_all add: submit_def hands_def queue_durable_no_inbox)
next
  case (Some db)
  obtain res db' where r: "inbox_record (kind_of wk) (work_run_id wk) (payload_of wk) db = (res, db')" by fastforce
  have q: "length (wk_queue k) \<le> WORK_QUEUE_MAXSIZE" "all_recorded (hs @ wk_queue k) (Some db)"
    using assms(1) Some by (simp_all add: queue_durable_def hands_def)
  note rec = all_recorded_record [OF q(2) r]
  show ?thesis
  proof (cases res)
    case (Inl m)
    then show ?thesis using assms(2) Some r rec q(1) by (auto simp: submit_def hands_def queue_durable_def)
  next
    case (Inr i)
    show ?thesis
      by (rule enqueue_durable [of "set_inbox_id (Some i) wk" hs "k\<lparr>wk_inbox := Some db'\<rparr>" b])
        (use assms(2) Some r Inr rec q(1) in \<open>auto simp: submit_def hands_def queue_durable_def\<close>)
  qed
qed

text \<open>Restoring puts the works of the rows back, as many as fit, and leaves the table as it is.\<close>

definition work_in :: "inbox_row \<Rightarrow> work" where
  "work_in row = (case work_of_row (ir_id row) (ir_kind row) (ir_payload row) of Some wk \<Rightarrow> wk | None \<Rightarrow> DecisionWork [] [] None)"

lemma work_in_row_of: "work_in (row_of i wk) = set_inbox_id (Some i) wk"
  by (simp add: work_in_def row_of_def work_of_row_payload)

lemma restore_rows_work:
  assumes "\<forall>row \<in> set rs. \<exists>wk. row = row_of (ir_id row) wk"
  shows "restore_rows (map (\<lambda>row. (ir_id row, ir_kind row, ir_payload row)) rs) n k = (res, k') \<Longrightarrow>
    length (wk_queue k) \<le> WORK_QUEUE_MAXSIZE \<Longrightarrow>
    wk_queue k' = wk_queue k @ take (WORK_QUEUE_MAXSIZE - length (wk_queue k)) (map work_in rs) \<and>
    (\<forall>db. wk_inbox k = Some db \<longrightarrow> (\<exists>db'. wk_inbox k' = Some db' \<and> pg_rows db' = pg_rows db)) \<and>
    (wk_inbox k = None \<longrightarrow> wk_inbox k' = None)"
  using assms
proof (induction rs arbitrary: n k)
  case Nil
  then show ?case by simp
next
  case (Cons row rs)
  from Cons.prems(3) have "\<exists>wk. row = row_of (ir_id row) wk" by simp
  then obtain wk where wk: "row = row_of (ir_id row) wk" by blast
  have w: "work_of_row (ir_id row) (ir_kind row) (ir_payload row) = Some (work_in row)"
    using work_of_row_payload [of "ir_id row" wk] wk work_in_row_of [of "ir_id row" wk] by (metis inbox_row.select_convs(2,4) row_of_def)
  show ?case
  proof (cases "length (wk_queue k) \<ge> WORK_QUEUE_MAXSIZE")
    case True
    then show ?thesis using Cons.prems(1,2) w
      by (auto simp: put_nowait_def inbox_depth_def split: option.splits prod.splits)
  next
    case False
    define k1 where "k1 = k\<lparr>wk_queue := wk_queue k @ [work_in row]\<rparr>"
    have "restore_rows (map (\<lambda>row. (ir_id row, ir_kind row, ir_payload row)) rs) (Suc n) k1 = (res, k')"
      using Cons.prems(1) w False by (simp add: put_nowait_def k1_def)
    from Cons.IH [OF this] Cons.prems(3) False
    have "wk_queue k' = wk_queue k1 @ take (WORK_QUEUE_MAXSIZE - length (wk_queue k1)) (map work_in rs) \<and>
      (\<forall>db. wk_inbox k1 = Some db \<longrightarrow> (\<exists>db'. wk_inbox k' = Some db' \<and> pg_rows db' = pg_rows db)) \<and>
      (wk_inbox k1 = None \<longrightarrow> wk_inbox k' = None)"
      by (simp add: k1_def)
    moreover have "WORK_QUEUE_MAXSIZE - length (wk_queue k) = Suc (WORK_QUEUE_MAXSIZE - length (wk_queue k1))"
      using False by (simp add: k1_def)
    ultimately show ?thesis by (simp add: k1_def)
  qed
qed

lemma sorted_rows: "inbox_ok db \<Longrightarrow> sort_key ir_id (rows db) = rows db"
proof -
  assume "inbox_ok db"
  then have "sorted_wrt (<) (map ir_id (rows db))" by (simp add: inbox_ok_def)
  then have "sorted (map ir_id (rows db))" by (simp add: strict_sorted_iff)
  then show ?thesis by (simp add: sort_key_id_if_sorted)
qed

lemma restore_pending_queue:
  assumes "wk_queue k = []" "wk_inbox k = Some db" "work_rows db" "restore_pending k = (res, k')"
  shows "(\<exists>db'. wk_inbox k' = Some db' \<and> pg_rows db' = pg_rows db) \<and>
    (wk_queue k' = [] \<and> fst (next_answer db) \<noteq> None \<or> wk_queue k' = take WORK_QUEUE_MAXSIZE (map work_in (rows db)))"
proof -
  obtain a db1 where a: "next_answer db = (a, db1)" by fastforce
  then have same: "pg_rows db1 = pg_rows db" by simp
  show ?thesis
  proof (cases a)
    case (Some m)
    then show ?thesis using assms a same by (auto simp: restore_pending_def inbox_pending_def)
  next
    case None
    then have "restore_rows (map (\<lambda>row. (ir_id row, ir_kind row, ir_payload row)) (rows db)) 0 (k\<lparr>wk_inbox := Some db1\<rparr>) = (res, k')"
      using assms a same sorted_rows [of db] by (simp add: restore_pending_def inbox_pending_def work_rows_def)
    from restore_rows_work [OF _ this] show ?thesis using assms(1,3) same by (auto simp: work_rows_def)
  qed
qed

lemma restored_durable:
  assumes "wk_queue k = []" "all_recorded wks (wk_inbox k)" "restore_pending k = (res, k')"
  shows "queue_durable [] (hands k')"
proof (cases "wk_inbox k")
  case None
  then show ?thesis using assms by (auto simp: restore_pending_def queue_durable_def all_recorded_def hands_def)
next
  case (Some db)
  have wr: "work_rows db" using assms(2) Some by (simp add: all_recorded_def)
  obtain db' where db': "wk_inbox k' = Some db'" "pg_rows db' = pg_rows db"
      "wk_queue k' = [] \<or> wk_queue k' = take WORK_QUEUE_MAXSIZE (map work_in (rows db))"
    using restore_pending_queue [OF assms(1) Some wr assms(3)] by blast
  have each: "work_inbox_id (work_in row) = Some (ir_id row) \<and> row_of (ir_id row) (work_in row) = row" if "row \<in> set (rows db)" for row
  proof -
    obtain wk where wk: "row = row_of (ir_id row) wk" using wr \<open>row \<in> set (rows db)\<close> by (auto simp: work_rows_def)
    have "work_in row = set_inbox_id (Some (ir_id row)) wk" using work_in_row_of [of "ir_id row" wk] wk by simp
    then show ?thesis using wk by simp
  qed
  have "distinct (map ir_id (rows db))" using wr by (auto simp: work_rows_def inbox_ok_def strict_sorted_iff)
  moreover have "map work_inbox_id (map work_in (rows db)) = map Some (map ir_id (rows db))" using each by simp
  ultimately have "distinct (map work_inbox_id (map work_in (rows db)))" by (simp add: distinct_map del: map_map)
  then have "distinct (map work_inbox_id (wk_queue k'))" using db'(3) by (auto simp: take_map [symmetric] distinct_take simp del: map_map)
  moreover have "\<forall>wk \<in> set (wk_queue k'). \<exists>i. work_inbox_id wk = Some i \<and> row_of i wk \<in> set (rows db)"
    using db'(3) each by (auto dest!: in_set_takeD)
  moreover have "work_rows db'" using wr db'(2) by (simp add: work_rows_def inbox_ok_def)
  moreover have "length (wk_queue k') \<le> WORK_QUEUE_MAXSIZE" using db'(3) by auto
  ultimately show ?thesis using db' by (simp add: queue_durable_def all_recorded_def hands_def)
qed

section \<open>Checkpoints and outcomes\<close>

text \<open>The outcomes on the topic that say a run completed.\<close>

fun completed_outcome :: "string \<Rightarrow> string \<times> string \<times> (out_event + string) \<Rightarrow> bool" where
  "completed_outcome rid (topic, key, Inl o') \<longleftrightarrow> topic = RUN_OUTCOME_TOPIC \<and> oe_correlation_id o' = rid \<and>
     dict_get (oe_payload o') ''terminal_state'' = Some (JStr ''completed'')"
| "completed_outcome rid (topic, key, Inr t) \<longleftrightarrow> False"

definition completed_outcomes :: "string \<Rightarrow> ('w, 't) worker \<Rightarrow> (string \<times> string \<times> (out_event + string)) list" where
  "completed_outcomes rid k = filter (completed_outcome rid) (po_sent (wk_producer k))"

text \<open>A step that leaves checkpoints alone and reports no completion.\<close>

definition quiet :: "('w, 't) worker \<Rightarrow> ('w, 't) worker \<Rightarrow> bool" where
  "quiet k k' \<longleftrightarrow> wk_threads k' = wk_threads k \<and> (\<forall>rid. completed_outcomes rid k' = completed_outcomes rid k)"

text \<open>A step that may, besides, report one completion of \<open>rid\<close>.\<close>

definition reports :: "string \<Rightarrow> bool \<Rightarrow> ('w, 't) worker \<Rightarrow> ('w, 't) worker \<Rightarrow> bool" where
  "reports rid b k k' \<longleftrightarrow> wk_threads k' = wk_threads k \<and> (\<forall>r. r \<noteq> rid \<or> \<not> b \<longrightarrow> completed_outcomes r k' = completed_outcomes r k) \<and>
     (\<exists>xs. completed_outcomes rid k' = completed_outcomes rid k @ xs \<and> length xs \<le> 1)"

lemma quiet_refl [simp]: "quiet k k"
  by (simp add: quiet_def)

lemma quiet_trans: "quiet k1 k2 \<Longrightarrow> quiet k2 k3 \<Longrightarrow> quiet k1 k3"
  by (simp add: quiet_def)

lemma quiet_same: "wk_threads k' = wk_threads k \<Longrightarrow> po_sent (wk_producer k') = po_sent (wk_producer k) \<Longrightarrow> quiet k k'"
  by (simp add: quiet_def completed_outcomes_def)

lemma quiet_reports: "quiet k k' \<Longrightarrow> reports rid b k k'"
  by (auto simp: quiet_def reports_def)

lemma reports_trans: "quiet k1 k2 \<Longrightarrow> reports rid b k2 k3 \<Longrightarrow> reports rid b k1 k3"
  by (simp add: quiet_def reports_def)

lemma reports_trans': "reports rid b k1 k2 \<Longrightarrow> quiet k2 k3 \<Longrightarrow> reports rid b k1 k3"
  by (simp add: quiet_def reports_def)

lemma dict_get_update: "k \<notin> fst ` set extra \<Longrightarrow> dict_get (dict_update d extra) k = dict_get d k"
  unfolding dict_update_def by (induction extra arbitrary: d) auto

lemma keys_dict_update: "set (dict_keys (dict_update d e)) = set (dict_keys d) \<union> set (dict_keys e)"
proof (induction e arbitrary: d)
  case Nil
  then show ?case by (simp add: dict_update_def dict_keys_def)
next
  case (Cons kv e)
  obtain k v where kv: "kv = (k, v)" by fastforce
  have "dict_update d (kv # e) = dict_update (dict_set k v d) e" by (simp add: dict_update_def kv)
  then show ?case using Cons [of "dict_set k v d"] by (auto simp: kv dict_keys_def [of "(k, v) # e"] dict_keys_def [of e])
qed

lemma topics [simp]: "AUDIT_TOPIC \<noteq> RUN_OUTCOME_TOPIC" "DLQ_TOPIC \<noteq> RUN_OUTCOME_TOPIC"
  by (simp_all add: AUDIT_TOPIC_def DLQ_TOPIC_def RUN_OUTCOME_TOPIC_def)

definition plain_extra :: "(string, json) dict \<Rightarrow> bool" where
  "plain_extra extra \<longleftrightarrow> ''terminal_state'' \<notin> fst ` set extra"

lemma publish_outcome_reports:
  assumes "plain_extra extra"
  shows "reports rid (t = ''completed'') k (publish_outcome X rid t d extra k)"
proof -
  have "dict_get (dict_update [(''terminal_state'', JStr t), (''detail'', JStr d)] extra) ''terminal_state'' = Some (JStr t)"
    using assms by (simp add: dict_get_update plain_extra_def dict_get_Cons)
  then show ?thesis
    by (auto simp: reports_def publish_outcome_def publish_run_outcome_def send_def build_run_outcome_def completed_outcomes_def
        Let_def split: prod.splits)
qed

lemma publish_outcome_quiet: "plain_extra extra \<Longrightarrow> t \<noteq> ''completed'' \<Longrightarrow> quiet k (publish_outcome X rid t d extra k)"
  using publish_outcome_reports [of extra rid t k X d] by (auto simp: reports_def quiet_def)

lemma plain_extra_Nil [simp]: "plain_extra []"
  by (simp add: plain_extra_def)

lemma clean_quiet: "quiet k (clean X rid k)"
  by (rule quiet_same) (simp_all add: clean_def)

lemma fail_run_quiet: "quiet k (fail_run X rid r k)"
  unfolding fail_run_def by (rule quiet_trans [OF publish_outcome_quiet clean_quiet]) simp_all

lemma send_audit_quiet: "quiet k (send_audit X rid t es k)"
proof (induction es arbitrary: k)
  case Nil
  then show ?case by simp
next
  case (Cons e es)
  have "quiet k (k\<lparr>wk_producer := publish_audit_event a o' (wk_producer k)\<rparr>)" for a o'
    by (simp add: quiet_def completed_outcomes_def publish_audit_event_def send_def)
  then show ?case using Cons quiet_trans by (simp, blast)
qed

lemma record_audit_quiet: "quiet k (record_audit X res k)"
proof -
  have "quiet k (send_audit X rid t es (k\<lparr>wk_sink := a, wk_log := b, wk_targets := c\<rparr>))" for rid t es a b c
    by (rule quiet_trans [OF quiet_same send_audit_quiet]) simp_all
  then show ?thesis
    by (auto simp: record_audit_def publish_audit_def Let_def intro: quiet_same split: option.splits prod.splits)
qed

lemma deliver_quiet:
  assumes "deliver_if_completed X rid res k = (r, k')"
  shows "quiet k k' \<and> (case r of Inl _ \<Rightarrow> True | Inr d \<Rightarrow> plain_extra d)"
proof -
  have "plain_extra (commit_fields v)" for v
    by (cases "values_commit v") (auto simp: plain_extra_def commit_fields_def)
  moreover have "plain_extra (dict_update d e)" if "plain_extra d" "plain_extra e" for d e
    using that keys_dict_update [of d e] by (simp add: plain_extra_def dict_keys_def)
  moreover have "plain_extra (as_payload pr)" for pr
    by (auto simp: plain_extra_def as_payload_def split: option.splits if_splits)
  moreover have "plain_extra (specialist_delivery var v)" for var v
    by (cases v) (auto simp: plain_extra_def)
  ultimately show ?thesis using assms
    by (auto simp: deliver_if_completed_def Let_def intro: quiet_same split: if_splits option.splits prod.splits sum.splits)
qed

lemma after_slice_reports:
  assumes "after_slice X rid res k = (r, k')" "rr_parked res \<longleftrightarrow> rr_terminal_state res = None"
  shows "reports rid (rr_terminal_state res = Some ''completed'') k k'"
proof (cases "rr_parked res")
  case True
  then have "k' = record_audit X res k" using assms(1) by (simp add: after_slice_def)
  then show ?thesis using quiet_reports [OF record_audit_quiet [of k X res]] by simp
next
  case False
  then obtain t where t: "rr_terminal_state res = Some t" using assms(2) by (cases "rr_terminal_state res") auto
  obtain dr k2 where d: "deliver_if_completed X rid res (record_audit X res k) = (dr, k2)" by fastforce
  have q: "quiet k k2" using quiet_trans [OF record_audit_quiet conjunct1 [OF deliver_quiet [OF d]]] .
  show ?thesis
  proof (cases dr)
    case (Inl e)
    then show ?thesis using assms(1) False d q quiet_reports by (simp add: after_slice_def)
  next
    case (Inr delivery)
    have k': "k' = clean X rid (publish_outcome X rid (or_else t ''failed'') (rr_detail res) delivery k2)"
      using assms(1) False d Inr t by (simp add: after_slice_def)
    have "reports rid (or_else t ''failed'' = ''completed'') k2 (publish_outcome X rid (or_else t ''failed'') (rr_detail res) delivery k2)"
      using deliver_quiet [OF d] Inr by (intro publish_outcome_reports) simp
    then have "reports rid (t = ''completed'') k2 k'"
      unfolding k' by (intro reports_trans' [OF _ clean_quiet]) (auto simp: or_else_def split: if_splits)
    then show ?thesis using reports_trans [OF q] t by simp
  qed
qed

text \<open>A run reported as completed has ended as such; it is reported so once.\<close>

definition run_completed :: "threads \<Rightarrow> string \<Rightarrow> bool" where
  "run_completed ts rid \<longleftrightarrow> (\<exists>th. ts rid = Some th \<and> \<not> open_thread th \<and> fst (terminal_state_of (thread_values th)) = ''completed'')"

definition sound_for :: "('w, 't) worker \<Rightarrow> string \<Rightarrow> bool" where
  "sound_for k rid \<longleftrightarrow> length (completed_outcomes rid k) \<le> 1 \<and> (completed_outcomes rid k \<noteq> [] \<longrightarrow> run_completed (wk_threads k) rid)"

definition sound :: "('w, 't) worker \<Rightarrow> bool" where
  "sound k \<longleftrightarrow> threads_ok (wk_threads k) \<and> (\<forall>rid. sound_for k rid)"

lemma quiet_sound: "sound k \<Longrightarrow> quiet k k' \<Longrightarrow> sound k'"
  by (simp add: sound_def sound_for_def quiet_def)

text \<open>A slice of a run that was not over, and what is reported after it.\<close>

lemma slice_sound:
  assumes s: "sound k" and fresh: "\<And>th. wk_threads k rid = Some th \<Longrightarrow> open_thread th"
    and ts: "threads_ok ts" "\<And>r. r \<noteq> rid \<Longrightarrow> ts r = wk_threads k r"
    and rep: "reports rid b (k\<lparr>wk_threads := ts, wk_world := w\<rparr>) k'" and b: "b \<Longrightarrow> run_completed ts rid"
  shows "sound k'"
proof -
  define k1 where "k1 = k\<lparr>wk_threads := ts, wk_world := w\<rparr>"
  have same: "completed_outcomes r k1 = completed_outcomes r k" for r by (simp add: k1_def completed_outcomes_def)
  have t': "wk_threads k' = ts" using rep by (simp add: reports_def)
  have none: "completed_outcomes rid k = []"
    using s fresh by (auto simp: sound_def sound_for_def run_completed_def)
  have "sound_for k' r" for r
  proof (cases "r = rid")
    case True
    have "\<not> b \<longrightarrow> completed_outcomes rid k' = completed_outcomes rid k1"
        "\<exists>xs. completed_outcomes rid k' = completed_outcomes rid k1 @ xs \<and> length xs \<le> 1"
      using rep unfolding reports_def k1_def [symmetric] by blast+
    then have "length (completed_outcomes rid k') \<le> 1 \<and> (completed_outcomes rid k' \<noteq> [] \<longrightarrow> b)"
      using none same [of rid] by auto
    then show ?thesis using b True by (auto simp: sound_for_def t')
  next
    case False
    have "completed_outcomes r k' = completed_outcomes r k"
      using rep same [of r] False unfolding reports_def k1_def [symmetric] by auto
    moreover have "sound_for k r" using s by (simp add: sound_def)
    ultimately show ?thesis using ts(2) [OF False] by (simp add: sound_for_def t' run_completed_def)
  qed
  then show ?thesis using ts(1) by (simp add: sound_def t')
qed

lemma execute_start_sound:
  assumes "sound k" "wk_threads k rid = None" "start_thread th" "reads_thread g th" "execute_start X x rid th g k = (r, k')"
  shows "sound k'"
proof -
  obtain rs ts w where st: "start_run (sdlc_env X rid) x rid g th (wk_threads k, wk_world k) = (rs, ts, w)" by (metis prod_cases3)
  have "threads_ok (fst (wk_threads k, wk_world k))" using assms(1) by (simp add: sound_def)
  note ok = start_run_ok [OF this start_thread_ok [OF assms(3)] assms(4) st]
  have ts: "threads_ok ts" "r' \<noteq> rid \<Longrightarrow> ts r' = wk_threads k r'" for r' using ok by auto
  show ?thesis
  proof (cases rs)
    case (Inl e)
    then have "k' = fail_run X rid e (k\<lparr>wk_threads := ts, wk_world := w\<rparr>)" using assms(5) st by (simp add: execute_start_def)
    then have "reports rid False (k\<lparr>wk_threads := ts, wk_world := w\<rparr>) k'" using quiet_reports [OF fail_run_quiet] by simp
    from slice_sound [OF assms(1) _ ts this] assms(2) show ?thesis by simp
  next
    case (Inr res)
    then have a: "after_slice X rid res (k\<lparr>wk_threads := ts, wk_world := w\<rparr>) = (r, k')"
      using assms(5) st by (simp add: execute_start_def)
    obtain th' where th': "ts rid = Some th'" "rr_parked res = open_thread th'"
        "rr_terminal_state res = (if open_thread th' then None else Some (fst (terminal_state_of (thread_values th'))))"
      using ok Inr by auto
    have "rr_parked res \<longleftrightarrow> rr_terminal_state res = None" using th'(2,3) by auto
    note rep = after_slice_reports [OF a this]
    have "rr_terminal_state res = Some ''completed'' \<Longrightarrow> run_completed ts rid"
      using th' by (auto simp: run_completed_def split: if_splits)
    from slice_sound [OF assms(1) _ ts rep this] assms(2) show ?thesis by simp
  qed
qed

lemma sound_upds [simp]:
  "sound (k\<lparr>wk_world := w\<rparr>) = sound k" "sound (k\<lparr>wk_targets := t\<rparr>) = sound k" "sound (k\<lparr>wk_queue := q\<rparr>) = sound k"
  "sound (k\<lparr>wk_inbox := i\<rparr>) = sound k" "sound (k\<lparr>wk_sink := sk\<rparr>) = sound k" "sound (k\<lparr>wk_log := l\<rparr>) = sound k"
  by (simp_all add: sound_def sound_for_def completed_outcomes_def)

lemma route_and_start_sound:
  assumes "sound k" "wk_threads k rid = None" "route_and_start X x rid sc req k = (r, k')"
  shows "sound k'"
proof -
  obtain pr w where p: "plan_for_trigger (wx_host X) x rid sc req (if is_live_mode (wx_mode X) then Live else Replay) (wk_world k) = (pr, w)"
    by fastforce
  have s: "sound (k\<lparr>wk_world := w\<rparr>)" using assms(1) by simp
  show ?thesis
  proof (cases pr)
    case (Inl e)
    then have "k' = publish_outcome X rid ''routing_failed'' (err_text e) [] (k\<lparr>wk_world := w\<rparr>)"
      using assms(3) p by (simp add: route_and_start_def)
    then show ?thesis using quiet_sound [OF s publish_outcome_quiet] by simp
  next
    case (Inr tg)
    obtain th g where tg: "tg = (th, g)" by fastforce
    then have e: "execute_start X x rid th g (k\<lparr>wk_world := w\<rparr>) = (r, k')"
      using assms(3) p Inr by (simp add: route_and_start_def)
    show ?thesis
      using execute_start_sound [OF s _ _ _ e] plan_for_trigger_starts [OF p [unfolded Inr tg]] assms(2) by simp
  qed
qed

lemma handle_trigger_sound:
  assumes "sound k" "handle_trigger X x rid sc url br req k = (r, k')"
  shows "sound k'"
proof (cases "wk_threads k rid")
  case (Some th)
  then show ?thesis using assms by (simp add: handle_trigger_def already_known_def snapshot_for_def)
next
  case None
  then have unknown: "\<not> already_known (SdlcTopology :: 'a graph) (wk_threads k) rid" by (simp add: already_known_def snapshot_for_def)
  define tg where "tg = \<lparr>tg_repo_url = url, tg_branch = br, tg_scenario_type = sc, tg_commit_sha_before = None\<rparr>"
  obtain a ts where a: "op_record (wx_ops X) rid tg (wk_targets k) = (a, ts)" by fastforce
  show ?thesis
  proof (cases a)
    case (Inl m)
    then have "k' = publish_outcome X rid ''failed'' (''could not record the run'' @ [CHR 0x27] @ ''s delivery target: '' @ m) [] (k\<lparr>wk_targets := ts\<rparr>)"
      using assms(2) unknown a by (simp add: handle_trigger_def tg_def [symmetric] Let_def)
    then obtain dt where "k' = publish_outcome X rid ''failed'' dt [] (k\<lparr>wk_targets := ts\<rparr>)" by blast
    then have "quiet (k\<lparr>wk_targets := ts\<rparr>) k'" by (simp add: publish_outcome_quiet)
    moreover have "sound (k\<lparr>wk_targets := ts\<rparr>)" using assms(1) by simp
    ultimately show ?thesis by (rule quiet_sound [rotated])
  next
    case (Inr u)
    obtain c w where c: "clone_for_run (ho_ws (wx_host X)) rid url br (wk_world k) = (c, w)" by fastforce
    define k1 where "k1 = k\<lparr>wk_targets := ts, wk_world := w\<rparr>"
    have k1: "sound k1" "wk_threads k1 rid = None" using assms(1) None by (simp_all add: k1_def)
    have h: "(r, k') = (case c of
        Inl (CloneError m) \<Rightarrow> (Inr (), publish_outcome X rid ''clone_failed'' m [] k1)
      | Inl (OtherError e) \<Rightarrow> (Inl e, k1)
      | Inr (p, sha) \<Rightarrow> route_and_start X x rid sc req (record_target X rid (tg\<lparr>tg_commit_sha_before := sha\<rparr>) k1))"
      using assms(2) unknown a Inr c
      by (simp add: handle_trigger_def tg_def [symmetric] k1_def Let_def split: sum.splits ws_error.splits prod.splits)
    show ?thesis
    proof (cases c)
      case (Inl e)
      then show ?thesis using h k1(1) quiet_sound [OF k1(1) publish_outcome_quiet] by (cases e) simp_all
    next
      case (Inr ps)
      obtain p sha where ps: "ps = (p, sha)" by fastforce
      have "sound (record_target X rid (tg\<lparr>tg_commit_sha_before := sha\<rparr>) k1)"
          "wk_threads (record_target X rid (tg\<lparr>tg_commit_sha_before := sha\<rparr>) k1) rid = None"
        using k1 by (simp_all add: record_target_def)
      moreover have "route_and_start X x rid sc req (record_target X rid (tg\<lparr>tg_commit_sha_before := sha\<rparr>) k1) = (r, k')"
        using h Inr ps by simp
      ultimately show ?thesis by (rule route_and_start_sound)
    qed
  qed
qed

lemma handle_decision_sound:
  assumes "sound k" "handle_decision X x rid d k = (r, k')"
  shows "sound k'"
proof -
  obtain f w where f: "graph_factory_for_existing_run (wx_host X) x rid (wk_threads k) (wk_world k) = (f, w)" by fastforce
  have s: "sound (k\<lparr>wk_world := w\<rparr>)" using assms(1) by simp
  show ?thesis
  proof (cases f)
    case (Inl e)
    then show ?thesis
      using assms(2) f quiet_sound [OF s publish_outcome_quiet] quiet_sound [OF s fail_run_quiet]
      by (cases e) (auto simp: handle_decision_def)
  next
    case (Inr g)
    obtain rs ts w' where rs: "resume_run (sdlc_env X rid) x rid g (read_decision d) (wk_threads k, w) = (rs, ts, w')" by (metis prod_cases3)
    have tok: "threads_ok (wk_threads k)" using assms(1) by (simp add: sound_def)
    note ok = resume_run_ok [OF tok rs]
    have ts: "threads_ok ts" "r' \<noteq> rid \<Longrightarrow> ts r' = wk_threads k r'" for r' using ok by auto
    from resume_run_cases [OF rs] show ?thesis
    proof (elim disjE conjE exE)
      fix th r0 th' w1 assume i: "wk_threads k rid = Some th" "open_thread th"
        "rs = (case r0 of Inl y \<Rightarrow> Inl (RunRaises y) | Inr res \<Rightarrow> Inr res)" "(ts, w') = ((wk_threads k)(rid \<mapsto> th'), w1)"
      have fresh: "wk_threads k rid = Some t \<Longrightarrow> open_thread t" for t using i(1,2) by simp
      show ?thesis
      proof (cases r0)
        case (Inl e)
        then have "k' = fail_run X rid e (k\<lparr>wk_threads := ts, wk_world := w'\<rparr>)"
          using assms(2) f Inr rs i(3) by (simp add: handle_decision_def)
        then have "reports rid False (k\<lparr>wk_threads := ts, wk_world := w'\<rparr>) k'" using quiet_reports [OF fail_run_quiet] by simp
        from slice_sound [OF assms(1) fresh ts this] show ?thesis by simp
      next
        case (Inr res)
        then have rs': "rs = Inr res" using i(3) by simp
        have a: "after_slice X rid res (k\<lparr>wk_threads := ts, wk_world := w'\<rparr>) = (r, k')"
          using assms(2) f \<open>f = Inr g\<close> rs rs' by (simp add: handle_decision_def)
        obtain th2 where th2: "ts rid = Some th2" "rr_parked res = open_thread th2"
            "rr_terminal_state res = (if open_thread th2 then None else Some (fst (terminal_state_of (thread_values th2))))"
          using ok rs' by auto
        have "rr_parked res \<longleftrightarrow> rr_terminal_state res = None" using th2(2,3) by auto
        note rep = after_slice_reports [OF a this]
        have "rr_terminal_state res = Some ''completed'' \<Longrightarrow> run_completed ts rid"
          using th2 by (auto simp: run_completed_def split: if_splits)
        from slice_sound [OF assms(1) fresh ts rep this] show ?thesis .
      qed
    qed (use assms f Inr rs s in \<open>auto simp: handle_decision_def\<close>)
  qed
qed

lemma handle_work_sound:
  assumes "sound k"
  shows "sound (snd (handle_work X x wk k))"
proof (cases wk)
  case (TriggerWork r sc u b q i)
  then show ?thesis using handle_trigger_sound [OF assms, of X x r sc u b q] by (metis handle_work.simps(1) prod.collapse)
next
  case (DecisionWork r d i)
  then show ?thesis using handle_decision_sound [OF assms, of X x r d] by (metis handle_work.simps(2) prod.collapse)
qed

text \<open>Accepting, forgetting, restoring and expiring touch neither checkpoints nor completions.\<close>

lemma forget_quiet: "quiet k (forget_work wk k)"
  by (rule quiet_same) (simp_all add: forget_work_def split: option.splits)

lemma put_quiet: "put_nowait wk k = (b, k') \<Longrightarrow> quiet k k'"
  by (rule quiet_same) (auto simp: put_nowait_def split: if_splits)

lemma inbox_quiet: "quiet k (k\<lparr>wk_inbox := i\<rparr>)"
  by (rule quiet_same) simp_all

lemma enqueue_quiet: "enqueue_or_forget wk k = (b, k') \<Longrightarrow> quiet k k'"
  using quiet_trans [OF put_quiet forget_quiet]
  by (auto simp: enqueue_or_forget_def intro: put_quiet split: prod.splits bool.splits)

lemma submit_quiet: "submit wk k = (b, k') \<Longrightarrow> quiet k k'"
  using quiet_trans [OF inbox_quiet enqueue_quiet]
  by (auto simp: submit_def intro: enqueue_quiet inbox_quiet split: option.splits prod.splits sum.splits)

lemma restore_rows_quiet: "restore_rows rs n k = (res, k') \<Longrightarrow> quiet k k'"
proof (induction rs n k rule: restore_rows.induct)
  case (1 n k)
  then show ?case by simp
next
  case (2 i kind payload rows n k)
  note inbox = quiet_trans [OF inbox_quiet]
  show ?case
  proof (cases "work_of_row i kind payload")
    case None
    then show ?thesis using 2 inbox by (auto split: option.splits)
  next
    case (Some wk)
    obtain b k1 where p: "put_nowait wk k = (b, k1)" by fastforce
    note first = put_quiet [OF p]
    show ?thesis
    proof (cases b)
      case True
      then show ?thesis using 2 Some p quiet_trans [OF first] by simp
    next
      case False
      then show ?thesis using 2(3) Some p first quiet_trans [OF first inbox_quiet]
        by (auto split: option.splits prod.splits sum.splits)
    qed
  qed
qed

lemma restore_quiet: "restore_pending k = (res, k') \<Longrightarrow> quiet k k'"
  using quiet_trans [OF inbox_quiet restore_rows_quiet]
  by (auto simp: restore_pending_def intro: inbox_quiet split: option.splits prod.splits sum.splits)

lemma expire_quiet: "quiet k (expire_runs X rids k)"
proof (induction rids arbitrary: k)
  case Nil
  then show ?case by simp
next
  case (Cons rid rids)
  have "quiet k (clean X rid (publish_outcome X rid ''stale'' d [] k))" for d
    by (rule quiet_trans [OF publish_outcome_quiet clean_quiet]) simp_all
  then show ?case using Cons quiet_trans by (simp, blast)
qed

lemma sweep_quiet: "sweep_stale_runs X now k = (r, k') \<Longrightarrow> quiet k k'"
  using expire_quiet by (auto simp: sweep_stale_runs_def Let_def split: sum.splits)

lemma dlq_quiet: "quiet k (k\<lparr>wk_producer := publish_to_dlq a st raw topic reason (wk_producer k)\<rparr>)"
  by (simp add: quiet_def completed_outcomes_def publish_to_dlq_def send_def)

section \<open>The life of a worker\<close>

text \<open>
  The worker thread has nothing in hand, an item it is about to carry out, or one it has
  carried out and not yet forgotten; the poll loops and the sweep come in between. A
  restart may strike at any of these moments: the queue and the item in hand are gone,
  tables, topics and checkpoints are not.
\<close>

datatype hand = Idle | Busy work | Finished work

fun in_hand :: "hand \<Rightarrow> work list" where
  "in_hand Idle = []"
| "in_hand (Busy wk) = [wk]"
| "in_hand (Finished wk) = [wk]"

inductive worker_history :: "('w, 't) worker \<Rightarrow> hand \<Rightarrow> bool" where
  boot: "wk_threads k = Map.empty \<Longrightarrow> wk_queue k = [] \<Longrightarrow> wk_inbox k \<in> {None, Some new_inbox} \<Longrightarrow> po_sent (wk_producer k) = [] \<Longrightarrow>
     worker_history k Idle"
| accept: "worker_history k h \<Longrightarrow> submit wk k = (b, k') \<Longrightarrow> worker_history k' h"
| reject: "worker_history k h \<Longrightarrow> worker_history (k\<lparr>wk_producer := publish_to_dlq a st raw topic reason (wk_producer k)\<rparr>) h"
| take: "worker_history k Idle \<Longrightarrow> wk_queue k = wk # rest \<Longrightarrow> worker_history (k\<lparr>wk_queue := rest\<rparr>) (Busy wk)"
| carry_out: "worker_history k (Busy wk) \<Longrightarrow> worker_history (snd (handle_work X x wk k)) (Finished wk)"
| forget: "worker_history k (Finished wk) \<Longrightarrow> worker_history (forget_work wk k) Idle"
| sweep: "worker_history k h \<Longrightarrow> sweep_stale_runs X now k = (r, k') \<Longrightarrow> worker_history k' h"
| elsewhere: "worker_history k h \<Longrightarrow> worker_history (k\<lparr>wk_world := w, wk_targets := t,
     wk_inbox := map_option (\<lambda>db. db\<lparr>pg_answers := answers\<rparr>) (wk_inbox k)\<rparr>) h"
| restart: "worker_history k h \<Longrightarrow> restore_pending (k\<lparr>wk_queue := [], wk_sink := sk, wk_log := lg\<rparr>) = (r, k') \<Longrightarrow> worker_history k' Idle"

text \<open>One pass of the worker thread, nothing coming in between.\<close>

lemma work_once_is_a_pass:
  assumes "worker_history k Idle"
  shows "worker_history (work_once X x k) Idle"
proof (cases "wk_queue k")
  case Nil
  then show ?thesis using assms by (simp add: work_once_def)
next
  case (Cons wk rest)
  then show ?thesis
    using worker_history.forget [OF worker_history.carry_out [OF worker_history.take [OF assms Cons]]] by (simp add: work_once_def)
qed

lemma all_recorded_answers [simp]:
  "all_recorded wks (map_option (\<lambda>db. db\<lparr>pg_answers := answers\<rparr>) box) = all_recorded wks box"
  by (cases box) (simp_all add: all_recorded_def work_rows_def inbox_ok_def)

lemma history_durable: "worker_history k h \<Longrightarrow> queue_durable (in_hand h) (hands k)"
proof (induction rule: worker_history.induct)
  case (boot k)
  then show ?case
    by (auto simp: queue_durable_def all_recorded_def hands_def work_rows_def new_inbox_ok) (simp add: new_inbox_def)
next
  case (accept k h wk b k')
  then show ?case using submit_durable by blast
next
  case (take k wk rest)
  then show ?case by (simp add: queue_durable_def hands_def)
next
  case (carry_out k wk X x)
  then show ?case by (simp add: hands_work)
next
  case (forget k wk)
  then show ?case using forget_durable by simp
next
  case (sweep k h X now r k')
  then show ?case using hands_sweep [of X now k] by simp
next
  case (elsewhere k h w t answers)
  then show ?case by (simp add: queue_durable_def hands_def)
next
  case (restart k h lg sk r k')
  have "all_recorded (in_hand h @ wk_queue k) (wk_inbox k)" using restart.IH by (simp add: queue_durable_def hands_def)
  then show ?case using restored_durable [OF _ _ restart.hyps(2)] by simp
qed simp

lemma history_sound: "worker_history k h \<Longrightarrow> sound k"
proof (induction rule: worker_history.induct)
  case (boot k)
  then show ?case by (simp add: sound_def sound_for_def completed_outcomes_def threads_ok_def)
next
  case (accept k h wk b k')
  then show ?case using quiet_sound submit_quiet by blast
next
  case (reject k h a st raw topic reason)
  then show ?case using quiet_sound dlq_quiet by blast
next
  case (carry_out k wk X x)
  then show ?case using handle_work_sound by blast
next
  case (forget k wk)
  then show ?case using quiet_sound forget_quiet by blast
next
  case (sweep k h X now r k')
  then show ?case using quiet_sound sweep_quiet by blast
next
  case (elsewhere k h w t answers)
  then show ?case by (simp add: sound_def sound_for_def completed_outcomes_def)
next
  case (restart k h lg sk r k')
  have "sound (k\<lparr>wk_queue := [], wk_sink := sk, wk_log := lg\<rparr>)" using restart.IH by simp
  then show ?case using quiet_sound restore_quiet [OF restart.hyps(2)] by blast
qed simp

end
