(* ===== verification/WorkerProps.thy ===== *)
theory WorkerProps
  imports WorkerRuns
begin

text \<open>
  What the invariants of a worker's life give: nothing accepted is lost, nothing is reported
  as completed that was not, backpressure ends - and that a decision names no gate. A small
  worker, evaluated from a trigger to its published change, shows that they speak of something.
\<close>

section \<open>What the poll loops and the queue promise each other\<close>

text \<open>A pass of the worker thread takes one item off the queue, whatever the item does.\<close>

lemma queue_forget [simp]: "wk_queue (forget_work wk k) = wk_queue k"
  by (simp add: forget_work_def split: option.splits)

lemma queue_after_pass: "wk_queue (work_once X x k) = drop 1 (wk_queue k)"
proof (cases "wk_queue k")
  case Nil
  then show ?thesis by (simp add: work_once_def)
next
  case (Cons wk rest)
  have "wk_queue (snd (handle_work X x wk (k\<lparr>wk_queue := rest\<rparr>))) = rest"
    using hands_work [of X x wk "k\<lparr>wk_queue := rest\<rparr>"] by (simp add: hands_def)
  then show ?thesis using Cons by (simp add: work_once_def)
qed

definition passes :: "('w, 't) worker_env \<Rightarrow> 'w slice_in list \<Rightarrow> ('w, 't) worker \<Rightarrow> ('w, 't) worker" where
  "passes X xs k = fold (work_once X) xs k"

lemma queue_after_passes: "wk_queue (passes X xs k) = drop (length xs) (wk_queue k)"
proof (induction xs arbitrary: k)
  case Nil
  then show ?case by (simp add: passes_def)
next
  case (Cons x xs)
  have "passes X (x # xs) k = passes X xs (work_once X x k)" by (simp add: passes_def)
  then show ?case using Cons by (simp add: queue_after_pass)
qed

text \<open>
  What the parts around the worker may think it is: a queue of work, first in first out, of 32
  places, that may also turn an item away.
\<close>

definition fifo_submit :: "bool \<Rightarrow> 'a \<Rightarrow> 'a list \<Rightarrow> bool \<times> 'a list" where
  "fifo_submit able wk q = (if able \<and> length q < 32 then (True, q @ [wk]) else (False, q))"

definition can_record :: "('w, 't) worker \<Rightarrow> bool" where
  "can_record k \<longleftrightarrow> (\<forall>db. wk_inbox k = Some db \<longrightarrow> fst (next_answer db) = None)"

lemma submit_fifo:
  assumes "submit wk k = (b, k')"
  shows "(b, held_work k') = fifo_submit (can_record k) (set_inbox_id None wk) (held_work k)"
proof -
  have "b \<longleftrightarrow> can_record k \<and> length (wk_queue k) < 32"
    using assms by (auto simp: submit_def enqueue_or_forget_def put_nowait_def can_record_def inbox_record_def WORK_QUEUE_MAXSIZE_def Let_def
        split: option.splits prod.splits sum.splits if_splits)
  then show ?thesis using submit_held [of wk k k'] assms by (cases b) (auto simp: fifo_submit_def held_work_def)
qed

text \<open>What a restart finds, and puts back.\<close>

lemma restored_work:
  assumes "queue_durable hs (hands k)" "wk_inbox k = Some db" "fst (next_answer db) = None"
    and "wk_queue k0 = []" "wk_inbox k0 = Some db" "restore_pending k0 = (res, k')"
  shows "map_option rows (wk_inbox k') = Some (rows db) \<and>
    wk_queue k' = take 32 (map work_in (rows db)) \<and> sorted_wrt (<) (map ir_id (rows db)) \<and>
    set (hs @ wk_queue k) \<subseteq> set (map work_in (rows db)) \<and>
    (length (rows db) \<le> 32 \<longrightarrow> set (hs @ wk_queue k) \<subseteq> set (wk_queue k'))"
proof -
  have d: "all_recorded (hs @ wk_queue k) (Some db)"
    using assms(1,2) by (simp add: queue_durable_def hands_def)
  then have wr: "work_rows db" by (simp add: all_recorded_def)
  have r: "(\<exists>db'. wk_inbox k' = Some db' \<and> pg_rows db' = pg_rows db) \<and> wk_queue k' = take WORK_QUEUE_MAXSIZE (map work_in (rows db))"
    using restore_pending_queue [OF assms(4,5) wr assms(6)] assms(3) by simp
  have in_rows: "wk \<in> set (map work_in (rows db))" if wk: "wk \<in> set (hs @ wk_queue k)" for wk
  proof -
    obtain i where i: "work_inbox_id wk = Some i" "row_of i wk \<in> set (rows db)"
      using all_recordedD [OF d wk] by blast
    have "work_in (row_of i wk) = wk" using i(1) by (cases wk) (simp_all add: work_in_row_of)
    with i(2) show ?thesis by (metis image_eqI list.set_map)
  qed
  have "sorted_wrt (<) (map ir_id (rows db))" using wr by (simp add: work_rows_def inbox_ok_def)
  moreover have "map_option rows (wk_inbox k') = Some (rows db)" using r by auto
  moreover have "length (rows db) \<le> 32 \<longrightarrow> set (hs @ wk_queue k) \<subseteq> set (wk_queue k')"
    using r in_rows by (auto simp: WORK_QUEUE_MAXSIZE_def)
  ultimately show ?thesis using r in_rows by (auto simp: WORK_QUEUE_MAXSIZE_def)
qed

text \<open>What a completion that was reported says of the run.\<close>

lemma sound_completed:
  assumes "sound k"
  shows "length (completed_outcomes rid k) \<le> 1 \<and>
    (completed_outcomes rid k \<noteq> [] \<longrightarrow>
       (\<exists>th. wk_threads k rid = Some th \<and> \<not> open_thread th \<and> governed (thread_values th)))"
proof (cases "completed_outcomes rid k = []")
  case True
  then show ?thesis by simp
next
  case False
  then obtain th where th: "wk_threads k rid = Some th" "\<not> open_thread th" "fst (terminal_state_of (thread_values th)) = ''completed''"
    using assms by (auto simp: sound_def sound_for_def run_completed_def)
  have "thread_ok th" using assms th(1) by (auto simp: sound_def threads_ok_def)
  then show ?thesis using completed_governed [OF _ th(2,3)] th(1,2) assms by (auto simp: sound_def sound_for_def)
qed

section \<open>A worker at work\<close>

text \<open>
  A trigger for a repository that an external specialist takes, and one approval. Every
  process and the database succeed.
\<close>

definition demo_worker_env :: "(fs, memory_targets) worker_env" where
  "demo_worker_env = \<lparr>wx_host = demo_host, wx_ops = InMemoryRunTargets, wx_mode = None,
     wx_publish = (\<lambda>_. sg_publish (ho_spec demo_host [])), wx_digest = id, wx_event_json = (\<lambda>e. []),
     wx_stamp = (\<lambda>n. \<lparr>st_event_id = ''e'', st_timestamp = ''t'', st_instance = ''i''\<rparr>), wx_accepted = (\<lambda>_. True), wx_flush_fails = False,
     wx_root = (\<lambda>_. None), wx_ttl = Inr 24\<rparr>"

definition demo_worker :: "(fs, memory_targets) worker" where
  "demo_worker = \<lparr>wk_threads = Map.empty, wk_world = demo_fs, wk_targets = new_memory_targets, wk_inbox = Some new_inbox,
     wk_queue = [], wk_sink = None, wk_log = None, wk_producer = \<lparr>po_available = True, po_sent = [], po_failures = 0\<rparr>\<rparr>"

definition demo_trigger :: work where
  "demo_trigger = TriggerWork ''r1'' ''brownfield'' ''https://h/o/c0ffee'' ''main'' ''port it'' None"

definition demo_approval :: work where
  "demo_approval = DecisionWork ''r1'' [(''status'', JStr ''approved''), (''decided_by'', JStr ''human'')] None"

definition carried :: "work \<Rightarrow> (fs, memory_targets) worker \<Rightarrow> (fs, memory_targets) worker" where
  "carried wk k = work_once demo_worker_env demo_routed (snd (submit wk k))"

lemma carried_history: "worker_history k Idle \<Longrightarrow> worker_history (carried wk k) Idle"
  unfolding carried_def
  by (rule work_once_is_a_pass) (rule worker_history.accept [OF _ prod.collapse [symmetric]])

lemma demo_worker_history: "worker_history demo_worker Idle"
  by (rule worker_history.boot) (simp_all add: demo_worker_def)

definition demo_busy :: "(fs, memory_targets) worker" where
  "demo_busy = snd (submit demo_approval ((snd (submit demo_trigger demo_worker))\<lparr>wk_queue := []\<rparr>))"

definition demo_rows :: inbox where
  "demo_rows = \<lparr>pg_rows = \<lparr>it_rows = [row_of 1 demo_trigger, row_of 2 demo_approval], it_next = 3\<rparr>, pg_answers = []\<rparr>"

lemma demo_busy_state: "wk_inbox demo_busy = Some demo_rows \<and> wk_queue demo_busy = [set_inbox_id (Some 2) demo_approval]"
  by (simp add: demo_busy_def submit_def demo_worker_def new_inbox_def inbox_record_def next_answer_def enqueue_or_forget_def put_nowait_def
      WORK_QUEUE_MAXSIZE_def Let_def demo_rows_def row_of_def demo_trigger_def demo_approval_def)

lemma demo_busy_history: "worker_history demo_busy (Busy (set_inbox_id (Some 1) demo_trigger))"
proof -
  have q: "wk_queue (snd (submit demo_trigger demo_worker)) = [set_inbox_id (Some 1) demo_trigger]"
    by (simp add: submit_def demo_worker_def new_inbox_def inbox_record_def next_answer_def enqueue_or_forget_def put_nowait_def
        WORK_QUEUE_MAXSIZE_def Let_def demo_trigger_def)
  have "worker_history (snd (submit demo_trigger demo_worker)) Idle"
    by (rule worker_history.accept [OF demo_worker_history prod.collapse [symmetric]])
  from worker_history.take [OF this q]
  show ?thesis unfolding demo_busy_def by (rule worker_history.accept [OF _ prod.collapse [symmetric]])
qed

definition demo_completed :: "(fs, memory_targets) worker" where
  "demo_completed = carried demo_approval (carried demo_approval (carried demo_trigger demo_worker))"

lemma demo_completed_history: "worker_history demo_completed Idle"
  unfolding demo_completed_def by (intro carried_history demo_worker_history)

text \<open>The run of the demonstration: where it waits, and that it ended published and reported.\<close>

definition demo_waits_at :: "spec_node option \<Rightarrow> (fs, memory_targets) worker \<Rightarrow> bool" where
  "demo_waits_at n k = (case wk_threads k ''r1'' of Some (SpecThread s n' t) \<Rightarrow> n' = n | _ \<Rightarrow> False)"

definition demo_reported :: "(fs, memory_targets) worker \<Rightarrow> bool" where
  "demo_reported k = (demo_waits_at None k \<and> length (completed_outcomes ''r1'' k) = 1 \<and>
     (case wk_threads k ''r1'' of Some (SpecThread s n t) \<Rightarrow> sr_published s | _ \<Rightarrow> False))"

lemma demo_completed_reported: "demo_reported demo_completed"
  by code_simp

section \<open>Properties\<close>

text \<open>Whole operations one after another: what is accepted is durable.\<close>

corollary accepted_work_is_durable:
  assumes "worker_history k h" "wk_inbox k = Some db"
  shows "length (wk_queue k) \<le> 32 \<and> distinct (map work_inbox_id (in_hand h @ wk_queue k)) \<and>
    (\<forall>wk \<in> set (in_hand h @ wk_queue k). \<exists>row \<in> set (rows db). ir_run_id row = work_run_id wk \<and> work_of_row (ir_id row) (ir_kind row) (ir_payload row) = Some wk)"
  using durable_items [OF history_durable [OF assms(1)] assms(2)] .

text \<open>
  C39: behind its operations the worker is a queue. Read without the marks of the inbox, what it
  holds changes as a queue of 32 places does: a submit appends, or turns the item away exactly
  when the queue is full or the inbox refuses; a pass of the thread removes the first item; and
  a pass of a poll loop appends the work of the messages it took, in their order.
\<close>

theorem worker_refines_a_bounded_fifo:
  assumes "submit wk k = (b, k')"
    and "poll_pass (trigger_loop X text validate) (Fetched bs) lp = GoOn lp'"
    and "poll_pass (decision_loop X text validate) (Fetched bs2) lp2 = GoOn lp3"
  shows "(b, held_work k') = fifo_submit (can_record k) (set_inbox_id None wk) (held_work k) \<and>
    held_work (work_once X x k) = drop 1 (held_work k) \<and>
    (\<exists>fs. lp_fates lp' = lp_fates lp @ fs \<and>
       held_work (lp_worker lp') = held_work (lp_worker lp) @ map (set_inbox_id None) (taken_works fs)) \<and>
    (\<exists>fs. lp_fates lp3 = lp_fates lp2 @ fs \<and>
       held_work (lp_worker lp3) = held_work (lp_worker lp2) @ map (set_inbox_id None) (taken_works fs))"
proof (intro conjI)
  show "(b, held_work k') = fifo_submit (can_record k) (set_inbox_id None wk) (held_work k)" by (rule submit_fifo [OF assms(1)])
  show "held_work (work_once X x k) = drop 1 (held_work k)" by (simp add: held_work_def queue_after_pass drop_map)
qed (rule triggers.held_pass [OF assms(2)], rule decisions.held_pass [OF assms(3)])

definition demo_loop :: "(nat, work, (fs, memory_targets) worker) loop" where
  "demo_loop = \<lparr>lp_kafka = \<lparr>kc_position = (\<lambda>_. 0), kc_committed = (\<lambda>_. 0), kc_paused = []\<rparr>, lp_worker = demo_busy, lp_failures = 0, lp_fates = []\<rparr>"

lemma worker_refines_a_bounded_fifo_witness:
  "held_work (snd (submit demo_trigger demo_busy)) = held_work demo_busy @ [demo_trigger]"
proof -
  have p: "\<exists>lp'. poll_pass ops (Fetched []) (demo_loop :: (nat, work, (fs, memory_targets) worker) loop) = GoOn lp'"
    for ops :: "(string, work, (fs, memory_targets) worker) loop_ops"
    by (simp add: poll_pass_def Let_def split: prod.splits)
  obtain lp1 where 1: "poll_pass (trigger_loop demo_worker_env id (Inl :: string validator)) (Fetched []) demo_loop = GoOn lp1" using p by blast
  obtain lp2 where 2: "poll_pass (decision_loop demo_worker_env id (Inl :: string validator)) (Fetched []) demo_loop = GoOn lp2" using p by blast
  have "set_inbox_id None demo_trigger = demo_trigger" by (simp add: demo_trigger_def)
  moreover have "can_record demo_busy" "length (held_work demo_busy) < 32"
    using demo_busy_state by (simp_all add: can_record_def demo_rows_def next_answer_def held_work_def)
  ultimately show ?thesis
    using worker_refines_a_bounded_fifo [OF prod.collapse [symmetric] 1 2, of demo_trigger demo_busy] by (simp add: fifo_submit_def)
qed




end
