(* ===== verification/Settings.thy ===== *)
theory Settings
  imports RunState
begin

text \<open>
  The connection settings of \<open>agentic_control_plane/checkpointer.py\<close>. The environment is a map,
  reading a file an argument; strings hold code points below 256, so that UTF-8 takes one
  byte or two.
\<close>

section \<open>Secrets\<close>

type_synonym environ = "string \<rightharpoonup> string"

type_synonym read_file = "string \<Rightarrow> (node_error, string) result"

definition read_secret :: "environ \<Rightarrow> read_file \<Rightarrow> string \<Rightarrow> string \<Rightarrow> (node_error, string) result" where
  "read_secret env files var dflt =
     (case env var of
        Some direct \<Rightarrow> Inr direct
      | None \<Rightarrow>
          (case env (var @ ''_FILE'') of
             Some p \<Rightarrow> if p \<noteq> [] then bind_result (files p) (\<lambda>t. Inr (strip t)) else Inr dflt
           | None \<Rightarrow> Inr dflt))"

section \<open>Percent-encoding\<close>

text \<open>\<open>urllib.parse.quote\<close> with nothing safe: letters, digits and four marks stay.\<close>

definition unreserved :: "char \<Rightarrow> bool" where
  "unreserved c = (is_upper_ascii c \<or> is_lower_ascii c \<or> is_digit c \<or> c \<in> set ''_.-~'')"

definition utf8 :: "char \<Rightarrow> nat list" where
  "utf8 c = (let n = code c in if n < 128 then [n] else [192 + n div 64, 128 + n mod 64])"

definition hex_upper :: "nat \<Rightarrow> char" where
  "hex_upper d = char_of (if d < 10 then 48 + d else 55 + d)"

definition quote_byte :: "nat \<Rightarrow> string" where
  "quote_byte b = (if b < 128 \<and> unreserved (char_of b) then [char_of b] else [CHR ''%'', hex_upper (b div 16), hex_upper (b mod 16)])"

definition url_quote :: "string \<Rightarrow> string" where
  "url_quote s = concat (map quote_byte (concat (map utf8 s)))"

definition postgres_conn_string :: "environ \<Rightarrow> read_file \<Rightarrow> (node_error, string) result" where
  "postgres_conn_string env files =
     (let user = get_or ''control_plane'' (env ''POSTGRES_USER'') in
      bind_result (read_secret env files ''POSTGRES_PASSWORD'' ''control_plane'') (\<lambda>password.
        let host = get_or ''postgres'' (env ''POSTGRES_HOST''); port = get_or ''5432'' (env ''POSTGRES_PORT'');
            database = get_or ''control_plane'' (env ''POSTGRES_DB'') in
        Inr (''postgresql://'' @ url_quote user @ '':'' @ url_quote password @ ''@'' @ host @ '':'' @ port @ ''/'' @ database)))"

section \<open>What the other end reads\<close>

text \<open>A URI's credentials: up to the first at sign, split at the first colon, decoded.\<close>

definition hex_value :: "char \<Rightarrow> nat" where
  "hex_value c = (if code c < 58 then code c - 48 else code c - 55)"

fun unquote_bytes :: "string \<Rightarrow> nat list" where
  "unquote_bytes [] = []"
| "unquote_bytes (c # s) =
     (case s of
        a # b # rest \<Rightarrow> if c = CHR ''%'' then (16 * hex_value a + hex_value b) # unquote_bytes rest else code c # unquote_bytes s
      | _ \<Rightarrow> code c # unquote_bytes s)"

fun utf8_decode :: "nat list \<Rightarrow> string" where
  "utf8_decode [] = []"
| "utf8_decode (b # bs) =
     (if b < 128 then char_of b # utf8_decode bs
      else case bs of b2 # rest \<Rightarrow> char_of ((b - 192) * 64 + (b2 - 128)) # utf8_decode rest | [] \<Rightarrow> [])"

definition url_unquote :: "string \<Rightarrow> string" where
  "url_unquote s = utf8_decode (unquote_bytes s)"

definition after_scheme :: "string \<Rightarrow> string" where
  "after_scheme uri = drop (length ''postgresql://'') uri"

definition uri_user :: "string \<Rightarrow> string" where
  "uri_user uri = url_unquote (takeWhile (\<lambda>c. c \<noteq> CHR '':'') (takeWhile (\<lambda>c. c \<noteq> CHR ''@'') (after_scheme uri)))"

definition uri_password :: "string \<Rightarrow> string" where
  "uri_password uri = url_unquote (drop 1 (dropWhile (\<lambda>c. c \<noteq> CHR '':'') (takeWhile (\<lambda>c. c \<noteq> CHR ''@'') (after_scheme uri))))"

definition uri_address :: "string \<Rightarrow> string" where
  "uri_address uri = drop 1 (dropWhile (\<lambda>c. c \<noteq> CHR ''@'') (after_scheme uri))"

section \<open>Lemmas\<close>

lemma code_char: "code c < 256"
  by (simp add: code_def)

lemma char_code_id [simp]: "char_of (code c) = c"
  by (simp add: code_def)

lemma code_char_of: "b < 256 \<Longrightarrow> code (char_of b) = b"
  by (simp add: code_def)

lemma hex_upper_value: "d < 16 \<Longrightarrow> hex_value (hex_upper d) = d"
  by (auto simp: hex_value_def hex_upper_def code_def)

lemma hex_upper_plain: "d < 16 \<Longrightarrow> hex_upper d \<noteq> CHR ''%'' \<and> hex_upper d \<noteq> CHR '':'' \<and> hex_upper d \<noteq> CHR ''@''"
proof -
  assume "d < 16"
  then have "d \<in> set [0..<16]" by simp
  moreover have "\<forall>d \<in> set [0..<16]. hex_upper d \<noteq> CHR ''%'' \<and> hex_upper d \<noteq> CHR '':'' \<and> hex_upper d \<noteq> CHR ''@''" by code_simp
  ultimately show ?thesis by blast
qed

lemma unreserved_plain: "unreserved c \<Longrightarrow> c \<noteq> CHR ''%'' \<and> c \<noteq> CHR '':'' \<and> c \<noteq> CHR ''@''"
  by (auto simp: unreserved_def char_classes)

lemma unquote_plain: "c \<noteq> CHR ''%'' \<Longrightarrow> unquote_bytes (c # s) = code c # unquote_bytes s"
  by (auto split: list.splits)

lemma unquote_byte: "b < 256 \<Longrightarrow> unquote_bytes (quote_byte b @ s) = b # unquote_bytes s"
  using unreserved_plain [of "char_of b"]
  by (auto simp: quote_byte_def unquote_plain code_char_of hex_upper_value simp del: unquote_bytes.simps(2))
    (auto simp: hex_upper_value)

lemma utf8_bytes: "b \<in> set (utf8 c) \<Longrightarrow> b < 256"
  using code_char [of c] by (auto simp: utf8_def Let_def split: if_splits)

lemma unquote_all: "\<forall>b \<in> set bs. b < 256 \<Longrightarrow> unquote_bytes (concat (map quote_byte bs)) = bs"
  by (induction bs) (simp_all add: unquote_byte)

lemma utf8_decode_char: "utf8_decode (utf8 c @ bs) = c # utf8_decode bs"
proof (cases "code c < 128")
  case True
  then show ?thesis by (simp add: utf8_def)
next
  case False
  then have "(192 + code c div 64 - 192) * 64 + (128 + code c mod 64 - 128) = code c" by simp
  then show ?thesis using False by (simp add: utf8_def Let_def)
qed

lemma utf8_decode_all: "utf8_decode (concat (map utf8 s)) = s"
  by (induction s) (simp_all add: utf8_decode_char)

lemma unquote_quote [simp]: "url_unquote (url_quote s) = s"
proof -
  have "\<forall>b \<in> set (concat (map utf8 s)). b < 256" using utf8_bytes by auto
  then show ?thesis using unquote_all utf8_decode_all by (simp add: url_unquote_def url_quote_def)
qed

lemma quote_plain: "c \<in> set (url_quote s) \<Longrightarrow> c \<noteq> CHR '':'' \<and> c \<noteq> CHR ''@''"
proof -
  assume "c \<in> set (url_quote s)"
  then obtain b where b: "c \<in> set (quote_byte b)" "b < 256" using utf8_bytes by (auto simp: url_quote_def)
  then have "b div 16 < 16" "b mod 16 < 16" by simp_all
  then show ?thesis using b hex_upper_plain unreserved_plain by (auto simp: quote_byte_def split: if_splits)
qed

section \<open>Properties\<close>



end
