(* ===== verification/Heartbeat.thy ===== *)
theory Heartbeat
  imports Settings
begin

text \<open>
  \<open>agentic_control_plane/heartbeat.py\<close>: the file the worker loop touches and the check of the
  container. The file system is the times of the files and the clock; a write may be refused.
\<close>

section \<open>Floats the environment may name\<close>

text \<open>What \<open>float\<close> reads besides numbers, and how it compares: nothing is over a NaN.\<close>

datatype py_float = Finite rat | PosInf | NegInf | NaN

fun over :: "rat \<Rightarrow> py_float \<Rightarrow> bool" where
  "over age (Finite l) = (l < age)"
| "over age PosInf = False"
| "over age NegInf = True"
| "over age NaN = False"

text \<open>\<open>:.0f\<close>: the nearest integer, the even one of two.\<close>

definition nearest :: "rat \<Rightarrow> int" where
  "nearest r = (let n = \<lfloor>r\<rfloor>; d = r - of_int n in
     if 2 * d < 1 then n else if 2 * d > 1 then n + 1 else if even n then n else n + 1)"

fun seconds_text :: "py_float \<Rightarrow> string" where
  "seconds_text (Finite r) = (if r < 0 \<and> nearest r = 0 then ''-0'' else int_str (nearest r))"
| "seconds_text PosInf = ''inf''"
| "seconds_text NegInf = ''-inf''"
| "seconds_text NaN = ''nan''"

section \<open>The module\<close>

definition DEFAULT_MAX_AGE_SECONDS :: rat where "DEFAULT_MAX_AGE_SECONDS = 300"

definition heartbeat_path :: "environ \<Rightarrow> string option" where
  "heartbeat_path env = (let raw = strip (get_or [] (env ''HEARTBEAT_PATH'')) in if raw \<noteq> [] then Some raw else None)"

definition max_age_seconds :: "(string \<Rightarrow> py_float option) \<Rightarrow> environ \<Rightarrow> py_float" where
  "max_age_seconds float env =
     (let raw = strip (get_or [] (env ''HEARTBEAT_MAX_AGE_SECONDS'')) in
      if raw = [] then Finite DEFAULT_MAX_AGE_SECONDS
      else case float raw of Some v \<Rightarrow> v | None \<Rightarrow> Finite DEFAULT_MAX_AGE_SECONDS)"

record hb_files =
  hf_mtime :: "string \<rightharpoonup> rat"
  hf_now :: rat
  hf_refuses :: bool

definition touch :: "string option \<Rightarrow> environ \<Rightarrow> hb_files \<Rightarrow> hb_files" where
  "touch path env w =
     (case (if path \<noteq> None then path else heartbeat_path env) of
        None \<Rightarrow> w
      | Some target \<Rightarrow> if hf_refuses w then w else w\<lparr>hf_mtime := (hf_mtime w)(target \<mapsto> hf_now w)\<rparr>)"

definition check :: "(string \<Rightarrow> py_float option) \<Rightarrow> string option \<Rightarrow> py_float option \<Rightarrow> environ \<Rightarrow> hb_files \<Rightarrow> bool \<times> string" where
  "check float path max_age env w =
     (case (if path \<noteq> None then path else heartbeat_path env) of
        None \<Rightarrow> (False, ''HEARTBEAT_PATH is not set, so there is nothing to check'')
      | Some target \<Rightarrow>
          (case hf_mtime w target of
             None \<Rightarrow> (False, target @ '' does not exist; the worker has not completed a pass'')
           | Some t \<Rightarrow>
               (let limit = (case max_age of Some l \<Rightarrow> l | None \<Rightarrow> max_age_seconds float env); age = hf_now w - t in
                if over age limit
                then (False, ''heartbeat is '' @ seconds_text (Finite age) @ ''s old, over the '' @ seconds_text limit @ ''s limit'')
                else (True, ''heartbeat is '' @ seconds_text (Finite age) @ ''s old''))))"

definition heartbeat_main :: "(string \<Rightarrow> py_float option) \<Rightarrow> environ \<Rightarrow> hb_files \<Rightarrow> int" where
  "heartbeat_main float env w = (if fst (check float None None env w) then 0 else 1)"

section \<open>The worker loop and its file\<close>

text \<open>The passes of a worker loop: when each began, and whether its write was refused.\<close>

definition pass_at :: "environ \<Rightarrow> rat \<times> bool \<Rightarrow> hb_files \<Rightarrow> hb_files" where
  "pass_at env p w = touch None env (w\<lparr>hf_now := fst p, hf_refuses := snd p\<rparr>)"

definition after_passes :: "environ \<Rightarrow> (rat \<times> bool) list \<Rightarrow> hb_files \<Rightarrow> hb_files" where
  "after_passes env ps w = fold (pass_at env) ps w"

definition last_written :: "(rat \<times> bool) list \<Rightarrow> rat option" where
  "last_written ps = map_option fst (find (\<lambda>p. \<not> snd p) (rev ps))"

lemma mtime_after_passes:
  assumes "heartbeat_path env = Some p"
  shows "hf_mtime (after_passes env ps w) p = (case last_written ps of Some t \<Rightarrow> Some t | None \<Rightarrow> hf_mtime w p)"
proof (induction ps rule: rev_induct)
  case Nil
  then show ?case by (simp add: after_passes_def last_written_def)
next
  case (snoc q qs)
  have "after_passes env (qs @ [q]) w = pass_at env q (after_passes env qs w)" by (simp add: after_passes_def)
  then show ?case using snoc assms by (simp add: pass_at_def touch_def last_written_def)
qed

section \<open>Properties\<close>

text \<open>
  The container is healthy exactly as long as the worker loop turns. With the heartbeat
  configured and no file before, after any passes of the loop the check at a later time exits
  with 0 if and only if some pass has written the file and the time since the last that has is
  not over the limit. A limit that is no number is never passed: the check then stays healthy.
\<close>

theorem healthy_while_the_loop_turns:
  assumes "heartbeat_path env = Some p" "hf_mtime w p = None"
  shows "(heartbeat_main float env ((after_passes env ps w)\<lparr>hf_now := t\<rparr>) = 0 \<longleftrightarrow>
      (\<exists>s. last_written ps = Some s \<and> \<not> over (t - s) (max_age_seconds float env))) \<and>
    (max_age_seconds float env = NaN \<and> last_written ps \<noteq> None \<longrightarrow>
      heartbeat_main float env ((after_passes env ps w)\<lparr>hf_now := t\<rparr>) = 0)"
  using mtime_after_passes [OF assms(1), of ps w] assms
  by (auto simp: heartbeat_main_def check_def Let_def split: option.splits)

lemma healthy_while_the_loop_turns_witness:
  "heartbeat_main (\<lambda>_. None) [''HEARTBEAT_PATH'' \<mapsto> ''/hb'']
     ((after_passes [''HEARTBEAT_PATH'' \<mapsto> ''/hb''] [(1, False), (9, True)] \<lparr>hf_mtime = Map.empty, hf_now = 0, hf_refuses = False\<rparr>)\<lparr>hf_now := 302\<rparr>) \<noteq> 0"
proof -
  have p: "heartbeat_path [''HEARTBEAT_PATH'' \<mapsto> ''/hb''] = Some ''/hb''" by code_simp
  have "last_written [(1 :: rat, False), (9, True)] = Some 1" by (simp add: last_written_def)
  moreover have "max_age_seconds (\<lambda>_. None) [''HEARTBEAT_PATH'' \<mapsto> ''/hb''] = Finite 300"
    by (simp add: max_age_seconds_def DEFAULT_MAX_AGE_SECONDS_def Let_def split: option.splits)
  ultimately show ?thesis
    using healthy_while_the_loop_turns [OF p, of "\<lparr>hf_mtime = Map.empty, hf_now = 0, hf_refuses = False\<rparr>" "\<lambda>_. None" 302 "[(1, False), (9, True)]"]
    by simp
qed

end
