(* ===== verification/Service.thy ===== *)
theory Service
  imports WorkerProps Heartbeat
begin

text \<open>
  The process around the worker: \<open>main.py\<close>, the worker thread of \<open>consumer.py\<close> with its stop
  flag, and the construction of the producer of \<open>events.py\<close>.
\<close>

section \<open>Constructing the producer\<close>

text \<open>
  A thread constructs it, once; a call joins that thread for a second. The answer is what the
  thread has come to by then: nothing yet, a producer, or an exception.
\<close>

record producer_init =
  pi_producer :: bool
  pi_failed :: bool
  pi_thread :: bool
  pi_constructions :: nat

definition new_producer_init :: producer_init where
  "new_producer_init = \<lparr>pi_producer = False, pi_failed = False, pi_thread = False, pi_constructions = 0\<rparr>"

fun construct_producer :: "bool option \<Rightarrow> producer_init \<Rightarrow> producer_init" where
  "construct_producer None st = st"
| "construct_producer (Some True) st = st\<lparr>pi_producer := True\<rparr>"
| "construct_producer (Some False) st = st\<lparr>pi_failed := True\<rparr>"

definition get_producer :: "environ \<Rightarrow> bool option \<Rightarrow> producer_init \<Rightarrow> bool \<times> producer_init" where
  "get_producer env answer st =
     (if pi_producer st \<or> pi_failed st then (pi_producer st, st)
      else if get_or [] (env ''KAFKA_BOOTSTRAP_SERVERS'') = [] then (False, st\<lparr>pi_failed := True\<rparr>)
      else let st1 = (if pi_thread st then st else st\<lparr>pi_thread := True, pi_constructions := Suc (pi_constructions st)\<rparr>);
               st2 = construct_producer answer st1 in
        (pi_producer st2, st2))"

text \<open>Calls in a row; it is constructed at most once, and what it comes to is final.\<close>

definition producer_calls :: "environ \<Rightarrow> bool option list \<Rightarrow> producer_init \<Rightarrow> producer_init" where
  "producer_calls env answers st = fold (\<lambda>a st. snd (get_producer env a st)) answers st"

definition init_ok :: "producer_init \<Rightarrow> bool" where
  "init_ok st \<longleftrightarrow> pi_constructions st = (if pi_thread st then 1 else 0) \<and> \<not> (pi_producer st \<and> pi_failed st) \<and> (pi_producer st \<longrightarrow> pi_thread st)"

lemma get_producer_ok: "init_ok st \<Longrightarrow> init_ok (snd (get_producer env a st))"
  by (cases "(a, st)" rule: construct_producer.cases) (auto simp: get_producer_def init_ok_def Let_def)

lemma producer_calls_ok: "init_ok st \<Longrightarrow> init_ok (producer_calls env answers st)"
  unfolding producer_calls_def by (induction answers arbitrary: st) (simp_all add: get_producer_ok)

lemma producer_calls_final:
  "pi_producer st \<or> pi_failed st \<Longrightarrow> producer_calls env answers st = st"
  unfolding producer_calls_def by (induction answers) (simp_all add: get_producer_def)

section \<open>Start-up\<close>

definition audit_log_path :: "environ \<Rightarrow> string" where
  "audit_log_path env = get_or ''/var/audit/runs.jsonl'' (env ''AUDIT_LOG_PATH'')"

text \<open>
  From the checkpointer to the poll loops: orphaned workspaces go, then a worker with a fresh
  sink and an empty queue takes over the tables and restores the work left in the inbox.
  \<open>remove\<close> is what removing those directories does to the world.
\<close>

definition start_service ::
  "('w, 't) worker_env \<Rightarrow> 'w slice_in \<Rightarrow> (string list \<Rightarrow> 'w \<Rightarrow> 'w) \<Rightarrow> sink option \<Rightarrow> string option \<Rightarrow> ('w, 't) worker \<Rightarrow>
   (string, string list \<times> nat) result \<times> ('w, 't) worker" where
  "start_service X x remove sk lg k =
     (let removed = fst (reconcile_workspaces (wx_host X) x (wk_threads k) (wk_world k) (wx_root X (wk_world k)));
          k1 = k\<lparr>wk_world := remove removed (wk_world k), wk_queue := [], wk_sink := sk, wk_log := lg\<rparr> in
      case restore_pending k1 of (Inl m, k2) \<Rightarrow> (Inl m, k2) | (Inr n, k2) \<Rightarrow> (Inr (removed, n), k2))"

text \<open>One pass of the sweep thread: whatever it raises is logged.\<close>

definition sweep_pass :: "('w, 't) worker_env \<Rightarrow> time \<Rightarrow> ('w, 't) worker \<Rightarrow> ('w, 't) worker" where
  "sweep_pass X now k = snd (sweep_stale_runs X now k)"

section \<open>The worker thread and its stop flag\<close>

text \<open>Where \<open>run_forever\<close> is: at the test of the flag, waiting on the queue, holding an item, or out of the loop.\<close>

datatype turn = AtCheck | Getting | Holding work | Stopped

fun thread_step :: "('w, 't) worker_env \<Rightarrow> bool \<Rightarrow> 'w slice_in \<Rightarrow> turn \<times> ('w, 't) worker \<Rightarrow> turn \<times> ('w, 't) worker" where
  "thread_step X stop x (AtCheck, k) = (if stop then Stopped else Getting, k)"
| "thread_step X stop x (Getting, k) = (case wk_queue k of [] \<Rightarrow> (AtCheck, k) | wk # rest \<Rightarrow> (Holding wk, k\<lparr>wk_queue := rest\<rparr>))"
| "thread_step X stop x (Holding wk, k) = (AtCheck, forget_work wk (snd (handle_work X x wk k)))"
| "thread_step X stop x (Stopped, k) = (Stopped, k)"

definition thread_steps :: "('w, 't) worker_env \<Rightarrow> bool \<Rightarrow> 'w slice_in list \<Rightarrow> turn \<times> ('w, 't) worker \<Rightarrow> turn \<times> ('w, 't) worker" where
  "thread_steps X stop xs s = fold (thread_step X stop) xs s"

definition SHUTDOWN_DRAIN_SECONDS :: nat where "SHUTDOWN_DRAIN_SECONDS = 30"

definition DRAIN_TICKS :: nat where "DRAIN_TICKS = 2 * SHUTDOWN_DRAIN_SECONDS"

text \<open>
  \<open>_drain\<close>, called once the stop flag is set: it sleeps half a second at a time while the
  queue is not empty and time is left. Each sleep comes with the steps the worker thread does
  meanwhile; the value is what is left in the queue.
\<close>

fun drain :: "('w, 't) worker_env \<Rightarrow> nat \<Rightarrow> (nat \<Rightarrow> 'w slice_in list) \<Rightarrow> turn \<times> ('w, 't) worker \<Rightarrow> nat \<times> nat \<times> turn \<times> ('w, 't) worker" where
  "drain X 0 steps s = (0, length (wk_queue (snd s)), s)"
| "drain X (Suc n) steps s =
     (if wk_queue (snd s) = [] then (Suc n, 0, s) else drain X n steps (thread_steps X True (steps n) s))"

section \<open>Lemmas\<close>

fun turn_hand :: "turn \<Rightarrow> hand" where
  "turn_hand AtCheck = Idle"
| "turn_hand Getting = Idle"
| "turn_hand (Holding wk) = Busy wk"
| "turn_hand Stopped = Idle"

lemma thread_step_history:
  assumes "worker_history k (turn_hand t)" "thread_step X stop x (t, k) = (t', k')"
  shows "worker_history k' (turn_hand t')"
proof (cases t)
  case AtCheck
  then show ?thesis using assms by (auto split: if_splits)
next
  case Getting
  then show ?thesis using assms worker_history.take by (fastforce split: list.splits)
next
  case (Holding wk)
  then show ?thesis using assms worker_history.forget [OF worker_history.carry_out] by auto
next
  case Stopped
  then show ?thesis using assms by simp
qed

lemma thread_steps_history:
  "worker_history k (turn_hand t) \<Longrightarrow> thread_steps X stop xs (t, k) = (t', k') \<Longrightarrow> worker_history k' (turn_hand t')"
proof (induction xs arbitrary: t k)
  case Nil
  then show ?case by (simp add: thread_steps_def)
next
  case (Cons x xs)
  obtain t1 k1 where s: "thread_step X stop x (t, k) = (t1, k1)" by fastforce
  then have "thread_steps X stop xs (t1, k1) = (t', k')" using Cons.prems(2) by (simp add: thread_steps_def)
  then show ?case using Cons.IH thread_step_history [OF Cons.prems(1) s] by blast
qed

text \<open>With the flag set no item is taken any more, but by a thread already waiting on the queue.\<close>

definition takes_one :: "turn \<Rightarrow> nat" where
  "takes_one t = (if t = Getting then 1 else 0)"

lemma stopped_step:
  assumes "thread_step X True x (t, k) = (t', k')" "t \<noteq> Getting"
  shows "wk_queue k' = wk_queue k \<and> t' \<noteq> Getting"
  using assms hands_work [of X x] by (cases t) (auto simp: hands_def)

lemma stopped_steps:
  "thread_steps X True xs (t, k) = (t', k') \<Longrightarrow> t \<noteq> Getting \<Longrightarrow> wk_queue k' = wk_queue k \<and> t' \<noteq> Getting"
proof (induction xs arbitrary: t k)
  case Nil
  then show ?case by (simp add: thread_steps_def)
next
  case (Cons x xs)
  obtain t1 k1 where s: "thread_step X True x (t, k) = (t1, k1)" by fastforce
  then have "thread_steps X True xs (t1, k1) = (t', k')" using Cons.prems(1) by (simp add: thread_steps_def)
  then show ?case using Cons.IH [of t1 k1] stopped_step [OF s Cons.prems(2)] by simp
qed

lemma drain_in_vain:
  "t \<noteq> Getting \<Longrightarrow> wk_queue k \<noteq> [] \<Longrightarrow> drain X n steps (t, k) = (left, remaining, t', k') \<Longrightarrow>
   worker_history k (turn_hand t) \<Longrightarrow>
   left = 0 \<and> remaining = length (wk_queue k) \<and> wk_queue k' = wk_queue k \<and> worker_history k' (turn_hand t')"
proof (induction n arbitrary: t k)
  case 0
  then show ?case by auto
next
  case (Suc n)
  obtain t1 k1 where s: "thread_steps X True (steps n) (t, k) = (t1, k1)" by fastforce
  have "wk_queue k1 = wk_queue k \<and> t1 \<noteq> Getting" using stopped_steps [OF s Suc.prems(1)] .
  then show ?case using Suc.IH [of t1 k1] Suc.prems thread_steps_history [OF Suc.prems(4) s] s by simp
qed

lemma start_service_restores:
  "start_service X x remove sk lg k = (r, k') \<Longrightarrow> \<exists>r0. restore_pending (k\<lparr>wk_world := remove (fst (reconcile_workspaces (wx_host X) x (wk_threads k) (wk_world k)
     (wx_root X (wk_world k)))) (wk_world k), wk_queue := [], wk_sink := sk, wk_log := lg\<rparr>) = (r0, k')"
  by (auto simp: start_service_def Let_def split: prod.splits sum.splits)

section \<open>Properties\<close>



end
