(* ===== verification/Checkpointer.thy ===== *)
theory Checkpointer
  imports Runner Telemetry Settings
begin

text \<open>
  \<open>agentic_control_plane/checkpointer.py\<close>: the allowlist of state models the serializer may
  rebuild, discovered from the two state modules, and the savers built on it. A value that goes
  into a checkpoint is a tree of Python values, in which a pydantic model is an instance of a
  named class; the state records of \<open>RunState\<close> are turned into such values by the field names
  and types their classes declare. The serializer, langgraph's, is an argument.
\<close>

section \<open>Modules and their classes\<close>

text \<open>A class by the module that defines it and its name there.\<close>

type_synonym class_ref = "string \<times> string"

text \<open>What a module's name is bound to: a class, or anything else.\<close>

datatype member = IsClass class_ref bool | Other

record py_module =
  m_name :: string
  m_members :: "(string \<times> member) list"

text \<open>A class the module defines: a subclass of \<open>BaseModel\<close>, in both state modules.\<close>

definition own_models :: "string \<Rightarrow> string list \<Rightarrow> (string \<times> member) list" where
  "own_models m ns = map (\<lambda>n. (n, IsClass (m, n) True)) ns"

definition STATE :: string where "STATE = ''agentic_control_plane.state''"

definition SPECIALIST_STATE :: string where "SPECIALIST_STATE = ''agentic_control_plane.specialist_state''"

definition state_module :: py_module where
  "state_module = \<lparr>m_name = STATE,
     m_members =
       own_models STATE [''ArchitectureDesign'', ''AuditEvent'', ''CodebaseImpact'', ''CoderOutput'', ''DocumentationOutput'', ''GateRecord'',
         ''GraphState'', ''GuardrailViolation'', ''RunMetrics'', ''Task'', ''TestResult''] @
       [(''Annotated'', IsClass (''typing'', ''Annotated'') False), (''BaseModel'', IsClass (''pydantic.main'', ''BaseModel'') True),
        (''datetime'', IsClass (''datetime'', ''datetime'') False), (''timezone'', IsClass (''datetime'', ''timezone'') False),
        (''Field'', Other), (''Literal'', Other), (''operator'', Other), (''uuid'', Other), (''ScenarioType'', Other),
        (''OrchestratorMode'', Other), (''RunStatus'', Other), (''GateType'', Other), (''GateDecisionStatus'', Other),
        (''DecidedBy'', Other), (''RouteHint'', Other), (''_utc_now'', Other)]\<rparr>"

definition specialist_state_module :: py_module where
  "specialist_state_module = \<lparr>m_name = SPECIALIST_STATE,
     m_members =
       own_models SPECIALIST_STATE [''SpecialistPhaseResult'', ''SpecialistRunState''] @
       [(''Annotated'', IsClass (''typing'', ''Annotated'') False), (''AuditEvent'', IsClass (STATE, ''AuditEvent'') True),
        (''BaseModel'', IsClass (''pydantic.main'', ''BaseModel'') True), (''GateRecord'', IsClass (STATE, ''GateRecord'') True),
        (''datetime'', IsClass (''datetime'', ''datetime'') False), (''Field'', Other), (''operator'', Other), (''GateType'', Other),
        (''RunStatus'', Other), (''_utc_now'', Other)]\<rparr>"

definition STATE_MODULES :: "py_module list" where
  "STATE_MODULES = [state_module, specialist_state_module]"

text \<open>\<open>inspect.getmembers\<close> with \<open>isclass\<close>: the classes, in the order of their names.\<close>

definition class_members :: "py_module \<Rightarrow> (string \<times> class_ref \<times> bool) list" where
  "class_members m = concat (map (\<lambda>(n, x). case x of IsClass c b \<Rightarrow> [(n, c, b)] | Other \<Rightarrow> []) (sort_key fst (m_members m)))"

fun discover_state_model_allowlist :: "py_module list \<Rightarrow> class_ref list" where
  "discover_state_model_allowlist [] = []"
| "discover_state_model_allowlist (m # ms) =
     map (\<lambda>(n, c, b). (m_name m, n)) (filter (\<lambda>(n, c, b). b \<and> fst c = m_name m) (class_members m)) @
     discover_state_model_allowlist ms"

section \<open>Savers\<close>

record serde =
  sd_allowed :: "class_ref list"

definition build_serde :: "py_module list \<Rightarrow> serde" where
  "build_serde ms = \<lparr>sd_allowed = discover_state_model_allowlist ms\<rparr>"

text \<open>A saver: its serializer, the library's own (\<open>None\<close>) until one is set, and whether its tables are there.\<close>

record saver =
  sv_durable :: bool
  sv_serde :: "serde option"
  sv_tables :: bool

definition build_memory_checkpointer :: saver where
  "build_memory_checkpointer = \<lparr>sv_durable = False, sv_serde = Some (build_serde STATE_MODULES), sv_tables = False\<rparr>"

text \<open>
  \<open>connect\<close> is \<open>PostgresSaver.from_conn_string\<close>, \<open>setup\<close> its idempotent creation of the tables;
  either may raise. What the context yields is a saver with the shared serializer.
\<close>

definition build_postgres_checkpointer ::
  "(string \<Rightarrow> (node_error, saver) result) \<Rightarrow> (saver \<Rightarrow> (node_error, saver) result) \<Rightarrow> environ \<Rightarrow> read_file \<Rightarrow> (node_error, saver) result" where
  "build_postgres_checkpointer connect setup env files =
     bind_result (postgres_conn_string env files) (\<lambda>uri.
       bind_result (connect uri) (\<lambda>c. setup (c\<lparr>sv_serde := Some (build_serde STATE_MODULES)\<rparr>)))"

section \<open>Values and their types\<close>

datatype py_value =
    PNone
  | PBool bool
  | PInt int
  | PFloat rat
  | PStr string
  | PTime time
  | PList "py_value list"
  | PDict "(py_value \<times> py_value) list"
  | PJson json
  | PModel class_ref "(string \<times> py_value) list"

datatype py_type =
    TBool | TInt | TFloat | TStr | TTime | TJsonObject
  | TLiteral "string list"
  | TOptional py_type
  | TList py_type
  | TDict py_type py_type
  | TModel class_ref

definition GATE_TYPES :: "string list" where
  "GATE_TYPES = [''clarification_approval'', ''codebase_impact_review'', ''plan_approval'', ''replanning_approval'',
     ''merge_release_approval'', ''specialist_design_review'']"

text \<open>The fields each model declares, with the types it gives them.\<close>

definition FIELDS :: "(class_ref \<times> (string \<times> py_type) list) list" where
  "FIELDS =
    [((STATE, ''AuditEvent''),
        [(''timestamp'', TTime), (''node'', TStr),
         (''event_type'', TLiteral [''node_start'', ''node_end'', ''gate_decision'', ''retry'', ''fallback'', ''rollback'',
            ''safe_stop'', ''guardrail_violation'']),
         (''detail'', TStr), (''decision'', TOptional TStr), (''latency_ms'', TOptional TFloat)]),
     ((STATE, ''GateRecord''),
        [(''gate_type'', TLiteral GATE_TYPES), (''status'', TLiteral [''pending'', ''approved'', ''rejected'', ''edited'']),
         (''decision_payload'', TOptional TStr), (''decided_by'', TOptional (TLiteral [''human'', ''replayed''])),
         (''replayed_from_fixture'', TBool), (''timestamp'', TOptional TTime)]),
     ((STATE, ''CodebaseImpact''),
        [(''skipped'', TBool), (''impacted_modules'', TList TStr), (''impacted_apis'', TList TStr), (''summary'', TStr)]),
     ((STATE, ''ArchitectureDesign''), [(''summary'', TStr), (''api_schema_changes'', TList TStr)]),
     ((STATE, ''Task''),
        [(''id'', TStr), (''description'', TStr), (''depends_on'', TList TStr),
         (''status'', TLiteral [''pending'', ''in_progress'', ''done''])]),
     ((STATE, ''CoderOutput''),
        [(''code_files'', TDict TStr TStr), (''attempt_number'', TInt), (''fixture_source'', TOptional TStr),
         (''commit_sha_before'', TOptional TStr), (''rationale'', TStr)]),
     ((STATE, ''TestResult''),
        [(''passed'', TBool), (''failures'', TList TStr), (''attempt_number'', TInt), (''logs'', TStr)]),
     ((STATE, ''GuardrailViolation''),
        [(''rule'', TLiteral [''unsafe_call'', ''ddl_change'', ''secret_detected'']), (''location'', TStr),
         (''overridden_by_human'', TBool)]),
     ((STATE, ''DocumentationOutput''), [(''doc_files'', TDict TStr TStr)]),
     ((STATE, ''RunMetrics''),
        [(''success_rate'', TOptional TFloat), (''retry_frequency'', TOptional TFloat), (''rollback_frequency'', TOptional TFloat),
         (''mttr_seconds'', TOptional TFloat), (''e2e_latency_seconds'', TOptional TFloat)]),
     ((STATE, ''GraphState''),
        [(''run_id'', TStr), (''scenario_type'', TLiteral [''greenfield'', ''brownfield'', ''ambiguous'']),
         (''mode'', TLiteral [''live'', ''replay'']), (''fixture_id'', TOptional TStr),
         (''run_status'', TLiteral [''running'', ''completed'', ''failed'']), (''commit_sha_after'', TOptional TStr),
         (''requirement_raw'', TStr), (''requirement_clarified'', TStr), (''ambiguities'', TList TStr),
         (''gates'', TDict (TLiteral GATE_TYPES) (TModel (STATE, ''GateRecord''))),
         (''codebase_impact'', TModel (STATE, ''CodebaseImpact'')), (''architecture_design'', TModel (STATE, ''ArchitectureDesign'')),
         (''tasks'', TList (TModel (STATE, ''Task''))), (''coder'', TModel (STATE, ''CoderOutput'')),
         (''coder_attempts'', TList (TModel (STATE, ''CoderOutput''))), (''test'', TModel (STATE, ''TestResult'')),
         (''documentation'', TModel (STATE, ''DocumentationOutput'')),
         (''retry_count'', TInt), (''retry_limit'', TInt), (''fallback_triggered'', TBool), (''rollback_count'', TInt),
         (''safe_stop'', TBool), (''route_hint'', TLiteral ['''', ''proceed'', ''retry'', ''fallback_attempt'', ''rollback'']),
         (''guardrail_violations'', TList (TModel (STATE, ''GuardrailViolation''))),
         (''replanning_triggered'', TBool), (''replanning_reason'', TStr),
         (''events'', TList (TModel (STATE, ''AuditEvent''))), (''metrics'', TModel (STATE, ''RunMetrics'')),
         (''started_at'', TTime), (''finished_at'', TOptional TTime)]),
     ((SPECIALIST_STATE, ''SpecialistPhaseResult''),
        [(''phase'', TStr), (''status'', TStr), (''detail'', TStr), (''output_path'', TStr), (''payload'', TJsonObject),
         (''duration_seconds'', TFloat)]),
     ((SPECIALIST_STATE, ''SpecialistRunState''),
        [(''run_id'', TStr), (''specialist'', TStr), (''scenario'', TStr), (''target_repository'', TStr),
         (''run_status'', TLiteral [''running'', ''completed'', ''failed'']), (''safe_stop'', TBool),
         (''gates'', TDict (TLiteral GATE_TYPES) (TModel (STATE, ''GateRecord''))),
         (''phases'', TDict TStr (TModel (SPECIALIST_STATE, ''SpecialistPhaseResult''))),
         (''output_repository'', TStr), (''output_branch'', TStr), (''commit_sha_after'', TOptional TStr), (''published'', TBool),
         (''publish_branch'', TStr), (''publish_detail'', TStr), (''events'', TList (TModel (STATE, ''AuditEvent''))),
         (''started_at'', TTime), (''finished_at'', TOptional TTime)])]"

text \<open>What pydantic accepts for a declared type. An optional type also takes \<open>None\<close>.\<close>

definition unopt :: "py_type \<Rightarrow> py_type" where
  "unopt t = (case t of TOptional u \<Rightarrow> u | _ \<Rightarrow> t)"

primrec accepts :: "py_value \<Rightarrow> py_type \<Rightarrow> bool" where
  "accepts PNone t = (case t of TOptional u \<Rightarrow> True | _ \<Rightarrow> False)"
| "accepts (PBool b) t = (unopt t = TBool)"
| "accepts (PInt i) t = (unopt t = TInt)"
| "accepts (PFloat r) t = (unopt t = TFloat)"
| "accepts (PStr s) t = (case unopt t of TStr \<Rightarrow> True | TLiteral ls \<Rightarrow> s \<in> set ls | _ \<Rightarrow> False)"
| "accepts (PTime c) t = (unopt t = TTime)"
| "accepts (PList vs) t = (case unopt t of TList u \<Rightarrow> list_all (\<lambda>ok. ok u) (map accepts vs) | _ \<Rightarrow> False)"
| "accepts (PDict kvs) t =
     (case unopt t of TDict k u \<Rightarrow> list_all (\<lambda>(okk, okv). okk k \<and> okv u) (map (map_prod accepts accepts) kvs) | _ \<Rightarrow> False)"
| "accepts (PJson j) t = (unopt t = TJsonObject \<and> (case j of JObj _ \<Rightarrow> True | _ \<Rightarrow> False))"
| "accepts (PModel c kvs) t =
     (unopt t = TModel c \<and>
      (case map_of FIELDS c of
         None \<Rightarrow> False
       | Some fs \<Rightarrow> list_all2 (\<lambda>(f, u) (g, ok). f = g \<and> ok u) fs (map (map_prod id accepts) kvs)))"

text \<open>The classes a value needs to be rebuilt.\<close>

primrec models_in :: "py_value \<Rightarrow> class_ref list" where
  "models_in PNone = []"
| "models_in (PBool b) = []"
| "models_in (PInt i) = []"
| "models_in (PFloat r) = []"
| "models_in (PStr s) = []"
| "models_in (PTime c) = []"
| "models_in (PList vs) = concat (map models_in vs)"
| "models_in (PDict kvs) = concat (map (\<lambda>(a, b). a @ b) (map (map_prod models_in models_in) kvs))"
| "models_in (PJson j) = []"
| "models_in (PModel c kvs) = c # concat (map snd (map (map_prod id models_in) kvs))"

section \<open>The state as values\<close>

definition p_opt :: "('a \<Rightarrow> py_value) \<Rightarrow> 'a option \<Rightarrow> py_value" where
  "p_opt f x = (case x of None \<Rightarrow> PNone | Some y \<Rightarrow> f y)"

definition p_strs :: "string list \<Rightarrow> py_value" where
  "p_strs xs = PList (map PStr xs)"

definition p_files :: "(string, string) dict \<Rightarrow> py_value" where
  "p_files d = PDict (map (\<lambda>(k, v). (PStr k, PStr v)) d)"

definition p_float :: "rat option \<Rightarrow> py_value" where
  "p_float = p_opt PFloat"

fun decided_by_text :: "DecidedBy \<Rightarrow> string" where
  "decided_by_text Human = ''human''"
| "decided_by_text Replayed = ''replayed''"

fun task_status_text :: "TaskStatus \<Rightarrow> string" where
  "task_status_text TaskPending = ''pending''"
| "task_status_text TaskInProgress = ''in_progress''"
| "task_status_text TaskDone = ''done''"

fun route_hint_text :: "RouteHint \<Rightarrow> string" where
  "route_hint_text NoHint = []"
| "route_hint_text Proceed = ''proceed''"
| "route_hint_text Retry = ''retry''"
| "route_hint_text FallbackAttempt = ''fallback_attempt''"
| "route_hint_text HintRollback = ''rollback''"

definition p_event :: "AuditEvent \<Rightarrow> py_value" where
  "p_event e = PModel (STATE, ''AuditEvent'')
     [(''timestamp'', PTime (ae_timestamp e)), (''node'', PStr (ae_node e)), (''event_type'', PStr (event_type_text (ae_event_type e))),
      (''detail'', PStr (ae_detail e)), (''decision'', p_opt PStr (ae_decision e)),
      (''latency_ms'', p_opt (\<lambda>i. PFloat (of_int i)) (ae_latency_ms e))]"

text \<open>\<open>to_str\<close> is \<open>str\<close> on a decision.\<close>

definition p_gate :: "(decision \<Rightarrow> string) \<Rightarrow> GateRecord \<Rightarrow> py_value" where
  "p_gate to_str g = PModel (STATE, ''GateRecord'')
     [(''gate_type'', PStr (gate_name (gr_gate_type g))), (''status'', PStr (gate_status_text (gr_status g))),
      (''decision_payload'', p_opt (\<lambda>d. PStr (to_str d)) (gr_decision_payload g)),
      (''decided_by'', p_opt (\<lambda>d. PStr (decided_by_text d)) (gr_decided_by g)),
      (''replayed_from_fixture'', PBool (gr_replayed_from_fixture g)), (''timestamp'', p_opt PTime (gr_timestamp g))]"

definition all_gates :: "GateType list" where
  "all_gates = [ClarificationApproval, CodebaseImpactReview, PlanApproval, ReplanningApproval, MergeReleaseApproval, SpecialistDesignReview]"

text \<open>A dict whose keys are among \<open>ks\<close>.\<close>

definition p_dict :: "('k \<Rightarrow> string) \<Rightarrow> ('v \<Rightarrow> py_value) \<Rightarrow> 'k list \<Rightarrow> ('k \<rightharpoonup> 'v) \<Rightarrow> py_value" where
  "p_dict kt f ks m = PDict (concat (map (\<lambda>k. case m k of None \<Rightarrow> [] | Some v \<Rightarrow> [(PStr (kt k), f v)]) ks))"

definition p_impact :: "CodebaseImpact \<Rightarrow> py_value" where
  "p_impact c = PModel (STATE, ''CodebaseImpact'')
     [(''skipped'', PBool (ci_skipped c)), (''impacted_modules'', p_strs (ci_impacted_modules c)),
      (''impacted_apis'', p_strs (ci_impacted_apis c)), (''summary'', PStr (ci_summary c))]"

definition p_design :: "ArchitectureDesign \<Rightarrow> py_value" where
  "p_design d = PModel (STATE, ''ArchitectureDesign'')
     [(''summary'', PStr (ad_summary d)), (''api_schema_changes'', p_strs (ad_api_schema_changes d))]"

definition p_task :: "Task \<Rightarrow> py_value" where
  "p_task t = PModel (STATE, ''Task'')
     [(''id'', PStr (t_id t)), (''description'', PStr (t_description t)), (''depends_on'', p_strs (t_depends_on t)),
      (''status'', PStr (task_status_text (t_status t)))]"

definition p_coder :: "CoderOutput \<Rightarrow> py_value" where
  "p_coder c = PModel (STATE, ''CoderOutput'')
     [(''code_files'', p_files (co_code_files c)), (''attempt_number'', PInt (co_attempt_number c)),
      (''fixture_source'', p_opt PStr (co_fixture_source c)), (''commit_sha_before'', p_opt PStr (co_commit_sha_before c)),
      (''rationale'', PStr (co_rationale c))]"

definition p_test :: "TestResult \<Rightarrow> py_value" where
  "p_test t = PModel (STATE, ''TestResult'')
     [(''passed'', PBool (tr_passed t)), (''failures'', p_strs (tr_failures t)), (''attempt_number'', PInt (tr_attempt_number t)),
      (''logs'', PStr (tr_logs t))]"

definition p_violation :: "GuardrailViolation \<Rightarrow> py_value" where
  "p_violation v = PModel (STATE, ''GuardrailViolation'')
     [(''rule'', PStr (rule_name (gv_rule v))), (''location'', PStr (gv_location v)),
      (''overridden_by_human'', PBool (gv_overridden_by_human v))]"

definition p_documentation :: "DocumentationOutput \<Rightarrow> py_value" where
  "p_documentation d = PModel (STATE, ''DocumentationOutput'') [(''doc_files'', p_files d)]"

definition p_metrics :: "RunMetrics \<Rightarrow> py_value" where
  "p_metrics m = PModel (STATE, ''RunMetrics'')
     [(''success_rate'', p_float (rm_success_rate m)), (''retry_frequency'', p_float (rm_retry_frequency m)),
      (''rollback_frequency'', p_float (rm_rollback_frequency m)), (''mttr_seconds'', p_float (rm_mttr_seconds m)),
      (''e2e_latency_seconds'', p_float (rm_e2e_latency_seconds m))]"

definition p_phase :: "SpecialistPhaseResult \<Rightarrow> py_value" where
  "p_phase p = PModel (SPECIALIST_STATE, ''SpecialistPhaseResult'')
     [(''phase'', PStr (sp_phase p)), (''status'', PStr (sp_status p)), (''detail'', PStr (sp_detail p)),
      (''output_path'', PStr (sp_output_path p)), (''payload'', PJson (sp_payload p)),
      (''duration_seconds'', PFloat (of_int (sp_duration_seconds p)))]"

definition p_graph_state :: "(decision \<Rightarrow> string) \<Rightarrow> GraphState \<Rightarrow> py_value" where
  "p_graph_state to_str s = PModel (STATE, ''GraphState'')
     [(''run_id'', PStr (run_id s)), (''scenario_type'', PStr (scenario_name (scenario_type s))), (''mode'', PStr (mode_name (mode s))),
      (''fixture_id'', p_opt PStr (fixture_id s)), (''run_status'', PStr (run_status_name (run_status s))),
      (''commit_sha_after'', p_opt PStr (commit_sha_after s)), (''requirement_raw'', PStr (requirement_raw s)),
      (''requirement_clarified'', PStr (requirement_clarified s)), (''ambiguities'', p_strs (ambiguities s)),
      (''gates'', p_dict gate_name (p_gate to_str) all_gates (gates s)), (''codebase_impact'', p_impact (codebase_impact s)),
      (''architecture_design'', p_design (architecture_design s)), (''tasks'', PList (map p_task (tasks s))),
      (''coder'', p_coder (coder_output s)), (''coder_attempts'', PList (map p_coder (coder_attempts s))), (''test'', p_test (test s)),
      (''documentation'', p_documentation (documentation s)), (''retry_count'', PInt (retry_count s)),
      (''retry_limit'', PInt (retry_limit s)), (''fallback_triggered'', PBool (fallback_triggered s)),
      (''rollback_count'', PInt (rollback_count s)), (''safe_stop'', PBool (safe_stop s)),
      (''route_hint'', PStr (route_hint_text (route_hint s))), (''guardrail_violations'', PList (map p_violation (guardrail_violations s))),
      (''replanning_triggered'', PBool (replanning_triggered s)), (''replanning_reason'', PStr (replanning_reason s)),
      (''events'', PList (map p_event (events s))), (''metrics'', p_metrics (metrics s)), (''started_at'', PTime (started_at s)),
      (''finished_at'', p_opt PTime (finished_at s))]"

definition p_specialist_state :: "(decision \<Rightarrow> string) \<Rightarrow> string list \<Rightarrow> SpecialistRunState \<Rightarrow> py_value" where
  "p_specialist_state to_str ks s = PModel (SPECIALIST_STATE, ''SpecialistRunState'')
     [(''run_id'', PStr (sr_run_id s)), (''specialist'', PStr (sr_specialist s)), (''scenario'', PStr (sr_scenario s)),
      (''target_repository'', PStr (sr_target_repository s)), (''run_status'', PStr (run_status_name (sr_run_status s))),
      (''safe_stop'', PBool (sr_safe_stop s)), (''gates'', p_dict gate_name (p_gate to_str) all_gates (sr_gates s)),
      (''phases'', p_dict id p_phase ks (sr_phases s)), (''output_repository'', PStr (sr_output_repository s)),
      (''output_branch'', PStr (sr_output_branch s)), (''commit_sha_after'', p_opt PStr (sr_commit_sha_after s)),
      (''published'', PBool (sr_published s)), (''publish_branch'', PStr (sr_publish_branch s)),
      (''publish_detail'', PStr (sr_publish_detail s)), (''events'', PList (map p_event (sr_events s))),
      (''started_at'', PTime (sr_started_at s)), (''finished_at'', p_opt PTime (sr_finished_at s))]"

text \<open>What a checkpoint holds, whichever graph wrote it; a run's phases are the two.\<close>

fun p_values :: "(decision \<Rightarrow> string) \<Rightarrow> run_values \<Rightarrow> py_value" where
  "p_values to_str (SdlcValues s) = p_graph_state to_str s"
| "p_values to_str (SpecValues s) = p_specialist_state to_str [DESIGN_PHASE, GENERATE_PHASE] s"

section \<open>Lemmas\<close>

lemma p_float_accepts [simp]: "accepts (p_float x) (TOptional TFloat)"
  by (simp add: p_float_def p_opt_def unopt_def split: option.splits)

lemma p_opt_accepts: "(\<And>y. x = Some y \<Longrightarrow> accepts (f y) (TOptional t)) \<Longrightarrow> accepts (p_opt f x) (TOptional t)"
  by (simp add: p_opt_def split: option.splits)

lemma p_opt_plain [simp]:
  "accepts (p_opt PStr x) (TOptional TStr)"
  "accepts (p_opt PTime y) (TOptional TTime)"
  "accepts (p_opt (\<lambda>d. PStr (g d)) z) (TOptional TStr)"
  "accepts (p_opt (\<lambda>i. PFloat (h i)) u) (TOptional TFloat)"
  by (auto intro!: p_opt_accepts simp: unopt_def)

lemma p_strs_accepts [simp]: "accepts (p_strs xs) (TList TStr)"
  by (simp add: p_strs_def unopt_def list_all_iff)

lemma p_files_accepts [simp]: "accepts (p_files d) (TDict TStr TStr)"
  by (auto simp: p_files_def unopt_def list_all_iff)

lemma list_accepts: "(\<And>x. x \<in> set xs \<Longrightarrow> accepts (f x) t) \<Longrightarrow> accepts (PList (map f xs)) (TList t)"
  by (auto simp: unopt_def list_all_iff)

lemma dict_accepts:
  "(\<And>k. k \<in> set ks \<Longrightarrow> accepts (PStr (kt k)) t) \<Longrightarrow> (\<And>k v. m k = Some v \<Longrightarrow> accepts (f v) u) \<Longrightarrow>
   accepts (p_dict kt f ks m) (TDict t u)"
  by (auto simp: p_dict_def unopt_def list_all_iff split: option.splits)

lemma literal_accepts [simp]: "accepts (PStr s) (TLiteral ls) \<longleftrightarrow> s \<in> set ls"
  by (simp add: unopt_def)

lemma plain_accepts [simp]:
  "accepts (PStr s) TStr" "accepts (PInt i) TInt" "accepts (PBool b) TBool" "accepts (PTime c) TTime" "accepts (PFloat r) TFloat"
  by (simp_all add: unopt_def)

lemma model_accepts:
  "map_of FIELDS c = Some fs \<Longrightarrow> list_all2 (\<lambda>(f, u) (g, v). f = g \<and> accepts v u) fs kvs \<Longrightarrow> accepts (PModel c kvs) (TModel c)"
  by (auto simp: unopt_def list_all2_map2 map_prod_def split_beta elim: list_all2_mono)

text \<open>Every literal the model prints is one of the declared ones.\<close>

lemma literal_texts [simp]:
  "event_type_text et \<in> set [''node_start'', ''node_end'', ''gate_decision'', ''retry'', ''fallback'', ''rollback'', ''safe_stop'', ''guardrail_violation'']"
  "gate_name g \<in> set GATE_TYPES"
  "gate_status_text gs \<in> set [''pending'', ''approved'', ''rejected'', ''edited'']"
  "decided_by_text db \<in> set [''human'', ''replayed'']"
  "task_status_text ts \<in> set [''pending'', ''in_progress'', ''done'']"
  "rule_name r \<in> set [''unsafe_call'', ''ddl_change'', ''secret_detected'']"
  "scenario_name sc \<in> set [''greenfield'', ''brownfield'', ''ambiguous'']"
  "mode_name m \<in> set [''live'', ''replay'']"
  "run_status_name st \<in> set [''running'', ''completed'', ''failed'']"
  "route_hint_text h \<in> set [[], ''proceed'', ''retry'', ''fallback_attempt'', ''rollback'']"
  by (cases et; simp) ((cases g; simp add: GATE_TYPES_def), (cases gs; simp), (cases db; simp), (cases ts; simp),
    (cases r; simp add: rule_name_def), (cases sc; simp), (cases m; simp add: mode_name_def), (cases st; simp), (cases h; simp))

named_theorems model_fields \<open>the declared fields of each class\<close>

lemma declared [model_fields]:
  "map_of FIELDS (STATE, ''AuditEvent'') = Some (snd (FIELDS ! 0))"
  "map_of FIELDS (STATE, ''GateRecord'') = Some (snd (FIELDS ! 1))"
  "map_of FIELDS (STATE, ''CodebaseImpact'') = Some (snd (FIELDS ! 2))"
  "map_of FIELDS (STATE, ''ArchitectureDesign'') = Some (snd (FIELDS ! 3))"
  "map_of FIELDS (STATE, ''Task'') = Some (snd (FIELDS ! 4))"
  "map_of FIELDS (STATE, ''CoderOutput'') = Some (snd (FIELDS ! 5))"
  "map_of FIELDS (STATE, ''TestResult'') = Some (snd (FIELDS ! 6))"
  "map_of FIELDS (STATE, ''GuardrailViolation'') = Some (snd (FIELDS ! 7))"
  "map_of FIELDS (STATE, ''DocumentationOutput'') = Some (snd (FIELDS ! 8))"
  "map_of FIELDS (STATE, ''RunMetrics'') = Some (snd (FIELDS ! 9))"
  "map_of FIELDS (STATE, ''GraphState'') = Some (snd (FIELDS ! 10))"
  "map_of FIELDS (SPECIALIST_STATE, ''SpecialistPhaseResult'') = Some (snd (FIELDS ! 11))"
  "map_of FIELDS (SPECIALIST_STATE, ''SpecialistRunState'') = Some (snd (FIELDS ! 12))"
  by (simp_all add: FIELDS_def STATE_def SPECIALIST_STATE_def)

lemma p_event_ok [simp]: "accepts (p_event e) (TModel (STATE, ''AuditEvent''))"
  unfolding p_event_def by (rule model_accepts [OF declared(1)]) (simp add: FIELDS_def del: accepts.simps set_simps)

lemma decided_by_ok [simp]: "accepts (p_opt (\<lambda>d. PStr (decided_by_text d)) x) (TOptional (TLiteral [''human'', ''replayed'']))"
  by (rule p_opt_accepts) (cases "the x"; simp add: unopt_def)

lemma p_gate_ok [simp]: "accepts (p_gate to_str g) (TModel (STATE, ''GateRecord''))"
  unfolding p_gate_def by (rule model_accepts [OF declared(2)]) (simp add: FIELDS_def del: accepts.simps list.set)

lemma p_impact_ok [simp]: "accepts (p_impact x) (TModel (STATE, ''CodebaseImpact''))"
  unfolding p_impact_def by (rule model_accepts [OF declared(3)]) (simp add: FIELDS_def del: accepts.simps list.set)

lemma p_design_ok [simp]: "accepts (p_design x) (TModel (STATE, ''ArchitectureDesign''))"
  unfolding p_design_def by (rule model_accepts [OF declared(4)]) (simp add: FIELDS_def del: accepts.simps list.set)

lemma p_task_ok [simp]: "accepts (p_task x) (TModel (STATE, ''Task''))"
  unfolding p_task_def by (rule model_accepts [OF declared(5)]) (simp add: FIELDS_def del: accepts.simps list.set)

lemma p_coder_ok [simp]: "accepts (p_coder x) (TModel (STATE, ''CoderOutput''))"
  unfolding p_coder_def by (rule model_accepts [OF declared(6)]) (simp add: FIELDS_def del: accepts.simps list.set)

lemma p_test_ok [simp]: "accepts (p_test x) (TModel (STATE, ''TestResult''))"
  unfolding p_test_def by (rule model_accepts [OF declared(7)]) (simp add: FIELDS_def del: accepts.simps list.set)

lemma p_violation_ok [simp]: "accepts (p_violation x) (TModel (STATE, ''GuardrailViolation''))"
  unfolding p_violation_def by (rule model_accepts [OF declared(8)]) (simp add: FIELDS_def del: accepts.simps list.set)

lemma p_documentation_ok [simp]: "accepts (p_documentation x) (TModel (STATE, ''DocumentationOutput''))"
  unfolding p_documentation_def by (rule model_accepts [OF declared(9)]) (simp add: FIELDS_def del: accepts.simps list.set)

lemma p_metrics_ok [simp]: "accepts (p_metrics x) (TModel (STATE, ''RunMetrics''))"
  unfolding p_metrics_def by (rule model_accepts [OF declared(10)]) (simp add: FIELDS_def del: accepts.simps list.set)

lemma p_gates_ok [simp]: "accepts (p_dict gate_name (p_gate to_str) ks m) (TDict (TLiteral GATE_TYPES) (TModel (STATE, ''GateRecord'')))"
  by (rule dict_accepts) (simp_all del: accepts.simps)

lemma p_lists_ok [simp]:
  "accepts (PList (map p_task ts)) (TList (TModel (STATE, ''Task'')))"
  "accepts (PList (map p_coder cs)) (TList (TModel (STATE, ''CoderOutput'')))"
  "accepts (PList (map p_violation vs)) (TList (TModel (STATE, ''GuardrailViolation'')))"
  "accepts (PList (map p_event es)) (TList (TModel (STATE, ''AuditEvent'')))"
  by ((rule list_accepts; simp del: accepts.simps)+)

lemma p_graph_state_ok: "accepts (p_graph_state to_str s) (TModel (STATE, ''GraphState''))"
  unfolding p_graph_state_def by (rule model_accepts [OF declared(11)]) (simp add: FIELDS_def del: accepts.simps list.set)

text \<open>A phase holds an object as its payload, as \<open>invoke\<close> returns nothing else.\<close>

definition object_payload :: "SpecialistPhaseResult \<Rightarrow> bool" where
  "object_payload p = (case sp_payload p of JObj _ \<Rightarrow> True | _ \<Rightarrow> False)"

lemma p_phase_ok: "object_payload p \<Longrightarrow> accepts (p_phase p) (TModel (SPECIALIST_STATE, ''SpecialistPhaseResult''))"
  unfolding p_phase_def object_payload_def
  by (rule model_accepts [OF declared(12)]) (simp add: FIELDS_def unopt_def split: json.splits)

lemma p_specialist_state_ok:
  assumes "\<forall>n p. sr_phases s n = Some p \<longrightarrow> object_payload p"
  shows "accepts (p_specialist_state to_str ks s) (TModel (SPECIALIST_STATE, ''SpecialistRunState''))"
proof -
  have "accepts (p_dict id p_phase ks (sr_phases s)) (TDict TStr (TModel (SPECIALIST_STATE, ''SpecialistPhaseResult'')))"
    using assms by (intro dict_accepts) (simp_all add: p_phase_ok del: accepts.simps)
  then show ?thesis
    unfolding p_specialist_state_def by (intro model_accepts [OF declared(13)]) (simp add: FIELDS_def del: accepts.simps list.set)
qed

section \<open>What the serializer needs\<close>

lemma accepted_models: "accepts v t \<Longrightarrow> set (models_in v) \<subseteq> fst ` set FIELDS"
proof (induction v arbitrary: t)
  case (PList vs)
  then show ?case by (auto simp: list_all_iff split: py_type.splits)
next
  case (PDict kvs)
  then show ?case by (fastforce simp: list_all_iff split: py_type.splits)
next
  case (PModel c kvs)
  then obtain fs where fs: "map_of FIELDS c = Some fs"
      "list_all2 (\<lambda>(f, u) (g, ok). f = g \<and> ok u) fs (map (map_prod id accepts) kvs)"
    by (auto split: option.splits)
  have "set (models_in (snd kv)) \<subseteq> fst ` set FIELDS" if a: "kv \<in> set kvs" for kv
  proof -
    obtain u where "accepts (snd kv) u"
      using fs(2) a by (auto simp: in_set_conv_nth list_all2_conv_all_nth map_prod_def split_beta)
    then show ?thesis using PModel.IH [of kv "snd kv"] a by (cases kv) auto
  qed
  moreover have "c \<in> fst ` set FIELDS" using map_of_SomeD [OF fs(1)] by force
  moreover have "set (models_in (PModel c kvs)) = insert c (\<Union>kv \<in> set kvs. set (models_in (snd kv)))"
    by (simp add: map_prod_def split_beta)
  ultimately show ?case by (simp add: UN_subset_iff)
qed simp_all

lemma allowlist_is:
  "discover_state_model_allowlist STATE_MODULES =
     map (\<lambda>n. (STATE, n)) [''ArchitectureDesign'', ''AuditEvent'', ''CodebaseImpact'', ''CoderOutput'', ''DocumentationOutput'', ''GateRecord'',
       ''GraphState'', ''GuardrailViolation'', ''RunMetrics'', ''Task'', ''TestResult''] @
     map (\<lambda>n. (SPECIALIST_STATE, n)) [''SpecialistPhaseResult'', ''SpecialistRunState'']"
  by code_simp

lemma allowlist_fields: "set (discover_state_model_allowlist STATE_MODULES) = fst ` set FIELDS"
  unfolding allowlist_is by (auto simp: FIELDS_def)

section \<open>The phases of a specialist run\<close>

definition phase_map_ok :: "(string \<rightharpoonup> SpecialistPhaseResult) \<Rightarrow> bool" where
  "phase_map_ok m \<longleftrightarrow> (\<forall>n p. m n = Some p \<longrightarrow> n \<in> {DESIGN_PHASE, GENERATE_PHASE} \<and> object_payload p)"

definition phases_ok :: "SpecialistRunState \<Rightarrow> bool" where
  "phases_ok s \<longleftrightarrow> phase_map_ok (sr_phases s)"

lemma phase_map_ok_intros [simp]:
  "phase_map_ok Map.empty"
  "phase_map_ok m \<Longrightarrow> object_payload p \<Longrightarrow> phase_map_ok (m(DESIGN_PHASE \<mapsto> p))"
  "phase_map_ok m \<Longrightarrow> object_payload p \<Longrightarrow> phase_map_ok (m(GENERATE_PHASE \<mapsto> p))"
  by (auto simp: phase_map_ok_def)

lemma invoked_payload: "invoked e x s ph opts w = (Inr r, w') \<Longrightarrow> \<exists>kvs. si_payload r = JObj kvs"
  by (auto simp: invoked_def invoke_def Let_def result_of_def bind_result_def
      split: option.splits proc.splits sum.splits prod.splits if_splits)

lemma object_record: "object_payload (record_phase r p) \<longleftrightarrow> (\<exists>kvs. si_payload r = JObj kvs)"
  by (auto simp: object_payload_def record_phase_def split: json.splits)

lemma phases_kept: "failed_writes us \<Longrightarrow> phases_ok s \<Longrightarrow> phases_ok (apply_specs us s)"
  by (auto simp: failed_writes_def phases_ok_def)

lemma design_phases:
  "design_node e x s w = (Update us, w') \<Longrightarrow> failed_writes us \<or> (\<exists>m evs. us = [SPhases m, SEvents evs] \<and> phase_map_ok m)"
  by (auto simp: design_node_def Let_def object_record split: option.splits prod.splits sum.splits
      dest: preflight_failed invocation_failed invoked_payload)

lemma generate_phases:
  "generate_node e x s w = (Update us, w') \<Longrightarrow> phases_ok s \<Longrightarrow> failed_writes us \<or> phases_ok (apply_specs us s)"
  by (auto simp: generate_node_def Let_def object_record phases_ok_def
      split: option.splits prod.splits sum.splits if_splits ws_error.splits
      dest: preflight_failed invocation_failed invoked_payload)

lemma apply_ends_phases [simp]: "sr_phases (apply_specs (ends b t) s) = sr_phases s"
  by (simp add: ends_def)

lemma run_spec_node_phases:
  assumes "run_spec_node e x n s w = (Update us, w')" "phases_ok s"
  shows "phases_ok (apply_specs us s)"
proof (cases n)
  case PDesign
  then show ?thesis using design_phases [of e x s w us w'] phases_kept [of us s] assms by (auto simp: phases_ok_def)
next
  case PDesignReview
  then show ?thesis using review_effect(1) [of x s us] assms by (auto simp: phases_ok_def)
next
  case PGenerate
  then show ?thesis using generate_phases [of e x s w us w'] phases_kept [of us s] assms by (auto simp: phases_ok_def)
next
  case PReleaseReview
  then show ?thesis using review_effect(2) [of e x s w us] assms by (auto simp: phases_ok_def)
next
  case PPublish
  then show ?thesis using publish_node_effect [of e x s w us w'] phases_kept [of us s] assms by (auto simp: phases_ok_def)
qed

lemma phases_ok_reachable:
  "spec_reachable e (spec_start rid sp sc target now w) c \<Longrightarrow> phases_ok (sc_state c)"
proof (induction rule: spec_reachable.induct)
  case refl
  then show ?case by (simp add: spec_start_def new_specialist_state_def phases_ok_def)
next
  case (step c x)
  then show ?case
    by (auto simp: spec_superstep_def Let_def split: option.splits node_result.splits prod.splits intro: run_spec_node_phases)
qed

section \<open>Properties\<close>



text \<open>
  C27: a parked run is read back as it was written. Whatever serializer rebuilds the values whose
  classes it is allowed, the savers of both builders are given an allowlist that covers every class
  in the state of either graph, nested models included, so what a checkpoint holds survives being
  written and read. It lists nothing else: no class that a state module merely imports, and no
  class twice.
\<close>

theorem checkpoints_are_read_back:
  assumes "\<And>allow v. set (models_in v) \<subseteq> set allow \<Longrightarrow> loads_typed allow (dumps_typed v) = v"
    and "\<And>c c'. setup c = Inr c' \<Longrightarrow> sv_serde c' = sv_serde c"
    and "build_postgres_checkpointer connect setup env files = Inr sv"
    and "spec_reachable e (spec_start rid sp sc target now w) c"
    and "v \<in> {p_values to_str (SdlcValues s), p_values to_str (SpecValues (sc_state c))}"
  shows "\<exists>sd. sv_serde sv = Some sd \<and> sv_serde build_memory_checkpointer = Some sd \<and> loads_typed (sd_allowed sd) (dumps_typed v) = v \<and>
    distinct (sd_allowed sd) \<and> set (sd_allowed sd) = fst ` set FIELDS"
proof -
  define sd where "sd = build_serde STATE_MODULES"
  have allowed: "sd_allowed sd = discover_state_model_allowlist STATE_MODULES" by (simp add: sd_def build_serde_def)
  obtain uri c0 where "connect uri = Inr c0" "setup (c0\<lparr>sv_serde := Some sd\<rparr>) = Inr sv"
    using assms(3) by (auto simp: build_postgres_checkpointer_def bind_result_def sd_def split: sum.splits)
  then have "sv_serde sv = Some sd" using assms(2) by fastforce
  moreover have "set (models_in v) \<subseteq> set (sd_allowed sd)"
    using accepted_models [OF p_graph_state_ok, of to_str s] assms(5) phases_ok_reachable [OF assms(4)]
      accepted_models [OF p_specialist_state_ok, of "sc_state c" to_str "[DESIGN_PHASE, GENERATE_PHASE]"]
    by (auto simp: allowed allowlist_fields phases_ok_def phase_map_ok_def simp del: models_in.simps)
  moreover have "distinct (sd_allowed sd)" unfolding allowed allowlist_is by code_simp
  ultimately show ?thesis using assms(1) allowlist_fields by (auto simp: build_memory_checkpointer_def sd_def build_serde_def)
qed

text \<open>A serializer that keeps the value and rebuilds nothing it is not allowed.\<close>

definition demo_loads :: "class_ref list \<Rightarrow> py_value \<Rightarrow> py_value" where
  "demo_loads allow v = (if set (models_in v) \<subseteq> set allow then v else PNone)"

lemma checkpoints_are_read_back_witness:
  "\<exists>sd. sv_serde build_memory_checkpointer = Some sd \<and>
     demo_loads (sd_allowed sd) (p_values (\<lambda>_. ''{}'') (SpecValues (sc_state demo_spec_start))) \<noteq> PNone"
proof -
  define cn :: "string \<Rightarrow> (node_error, saver) result" where "cn = (\<lambda>_. Inr \<lparr>sv_durable = True, sv_serde = None, sv_tables = False\<rparr>)"
  define su :: "saver \<Rightarrow> (node_error, saver) result" where "su = (\<lambda>c. Inr (c\<lparr>sv_tables := True\<rparr>))"
  obtain sv where sv: "build_postgres_checkpointer cn su [''POSTGRES_PASSWORD'' \<mapsto> ''pw''] (\<lambda>_. Inr []) = Inr sv"
    by (simp add: build_postgres_checkpointer_def postgres_conn_string_def read_secret_def cn_def su_def bind_result_def Let_def)
  obtain rid sp sc target now w where s: "demo_spec_start = spec_start rid sp sc target now w"
    by (auto simp: demo_spec_start_def)
  have r: "spec_reachable demo_spec_env (spec_start rid sp sc target now w) demo_spec_start" unfolding s by (rule spec_reachable.refl)
  have st: "su c = Inr c' \<Longrightarrow> sv_serde c' = sv_serde c" for c c' by (auto simp: su_def)
  let ?v = "p_values (\<lambda>_. ''{}'') (SpecValues (sc_state demo_spec_start))"
  have "\<exists>sd. sv_serde sv = Some sd \<and> sv_serde build_memory_checkpointer = Some sd \<and> demo_loads (sd_allowed sd) (id ?v) = ?v \<and>
      distinct (sd_allowed sd) \<and> set (sd_allowed sd) = fst ` set FIELDS"
    by (rule checkpoints_are_read_back [OF _ st sv r, where to_str = "\<lambda>_. ''{}''" and s = undefined]) (simp_all add: demo_loads_def)
  then show ?thesis by (auto simp: p_specialist_state_def)
qed

end
