(* ===== verification/Startup.thy ===== *)
theory Startup
  imports Service Checkpointer
begin

text \<open>
  How the process is put together: \<open>logging_config.py\<close>, where its files and tables are, the
  Kafka consumers of \<open>consumer.py\<close>, and \<open>main\<close> as the order of its actions, with the ones
  that may raise.
\<close>

section \<open>Logging\<close>

definition upper :: "string \<Rightarrow> string" where
  "upper s = map (\<lambda>c. if is_lower_ascii c then char_of (code c - 32) else c) s"

definition LEVELS :: "string list" where
  "LEVELS = [''CRITICAL'', ''FATAL'', ''ERROR'', ''WARN'', ''WARNING'', ''INFO'', ''DEBUG'', ''NOTSET'']"

definition LOG_FORMAT :: string where "LOG_FORMAT = ''%(asctime)s %(levelname)-8s %(name)s: %(message)s''"

record logging =
  lg_configured :: bool
  lg_level :: string
  lg_handlers :: "string list"

text \<open>
  \<open>basicConfig\<close> with \<open>force\<close> puts the handlers in place of the ones there, then sets the
  level, which raises for a name it does not know.
\<close>

definition basic_config :: "string \<Rightarrow> string list \<Rightarrow> logging \<Rightarrow> (node_error, unit) result \<times> logging" where
  "basic_config level handlers lg =
     (if level \<in> set LEVELS then (Inr (), lg\<lparr>lg_handlers := handlers, lg_level := level\<rparr>)
      else (Inl (ValueError (''Unknown level: '' @ quoted level)), lg\<lparr>lg_handlers := handlers\<rparr>))"

definition configure_logging :: "environ \<Rightarrow> string option \<Rightarrow> logging \<Rightarrow> (node_error, unit) result \<times> logging" where
  "configure_logging env level lg =
     (if lg_configured lg then (Inr (), lg)
      else let resolved = upper (or_else (get_or [] level) (get_or ''INFO'' (env ''LOG_LEVEL''))) in
        case basic_config resolved [LOG_FORMAT] lg of
          (Inl e, lg1) \<Rightarrow> (Inl e, lg1)
        | (Inr _, lg1) \<Rightarrow> (Inr (), lg1\<lparr>lg_configured := True\<rparr>))"

text \<open>Once it has succeeded it changes nothing, whatever level is asked for.\<close>

lemma configure_logging_once:
  "configure_logging env level lg = (Inr (), lg1) \<Longrightarrow> configure_logging env' level' lg1 = (Inr (), lg1)"
  by (auto simp: configure_logging_def basic_config_def Let_def split: if_splits)

text \<open>However often it is called, root has one handler and the level of the first call that worked.\<close>

lemma configure_logging_handlers:
  "\<not> lg_configured lg \<Longrightarrow> configure_logging env level lg = (r, lg1) \<Longrightarrow> lg_handlers lg1 = [LOG_FORMAT] \<and>
     (lg_configured lg1 \<longleftrightarrow> r = Inr ()) \<and> (r = Inr () \<longrightarrow> lg_level lg1 \<in> set LEVELS)"
  by (auto simp: configure_logging_def basic_config_def Let_def split: if_splits)

section \<open>Places\<close>

text \<open>The directories and files of the environment, each with its default.\<close>

definition workspaces_root :: "environ \<Rightarrow> string" where
  "workspaces_root env = get_or ''/workspaces'' (env ''WORKSPACES_ROOT'')"

definition fixtures_dir :: "environ \<Rightarrow> string" where
  "fixtures_dir env = get_or ''/fixtures'' (env ''FIXTURES_DIR'')"

text \<open>An empty override counts as none; \<open>package\<close> is the directory of \<open>specialists.py\<close>.\<close>

definition routing_file :: "environ \<Rightarrow> path \<Rightarrow> string" where
  "routing_file env package = (case env ''SPECIALIST_ROUTING_FILE'' of
     Some f \<Rightarrow> if f \<noteq> [] then f else path_text (butlast package @ [''config'', ''scenario_specialists.yaml''])
   | None \<Rightarrow> path_text (butlast package @ [''config'', ''scenario_specialists.yaml'']))"

text \<open>
  By default the audit log is not under the root the start-up sweep clears; and what the sweep
  removes are entries of that root, so it stays.
\<close>

lemma audit_log_outside_workspaces:
  "\<not> startswith (audit_log_path Map.empty) (workspaces_root Map.empty @ ''/'')"
  by code_simp

text \<open>\<open>setup\<close> of either store: the table is created unless it is there.\<close>

definition inbox_setup :: "inbox_table option \<Rightarrow> inbox_table" where
  "inbox_setup t = get_or (pg_rows new_inbox) t"

definition targets_setup :: "(string \<rightharpoonup> RunTarget) option \<Rightarrow> string \<rightharpoonup> RunTarget" where
  "targets_setup t = get_or new_memory_targets t"

text \<open>\<open>flush\<close> of the producer: whether it is asked to, and whether a failure of it is logged.\<close>

definition flush :: "producer_init \<Rightarrow> bool \<Rightarrow> bool \<times> bool" where
  "flush st fails = (pi_producer st, pi_producer st \<and> fails)"

definition reset_for_tests :: "producer_init \<times> producer \<Rightarrow> producer_init \<times> producer" where
  "reset_for_tests st = (new_producer_init, (snd st)\<lparr>po_available := False, po_failures := 0\<rparr>)"

lemma flush_failed_init: "init_ok st \<Longrightarrow> pi_failed st \<Longrightarrow> flush st fails = (False, False)"
  by (auto simp: flush_def init_ok_def)

section \<open>Consumers\<close>

definition TRIGGER_TOPIC_PATTERN :: re where
  "TRIGGER_TOPIC_PATTERN = RSeqs [RStar (RSet (\<lambda>c. c \<noteq> CHR 0x0A)), RLit ''.drift-detected.v'', RPlus (RSet is_digit)]"

definition TRIGGER_GROUP :: string where "TRIGGER_GROUP = ''control-plane-triggers''"

definition DECISION_GROUP :: string where "DECISION_GROUP = ''control-plane-decisions''"

definition METADATA_MAX_AGE_MS :: int where "METADATA_MAX_AGE_MS = 30000"

datatype subscription = ByPattern re | ByTopic string

record consumer_settings =
  cs_bootstrap_servers :: string
  cs_group_id :: string
  cs_metadata_max_age_ms :: int
  cs_enable_auto_commit :: bool
  cs_auto_offset_reset :: string
  cs_subscription :: subscription

definition build_trigger_consumer :: "string \<Rightarrow> consumer_settings" where
  "build_trigger_consumer servers = \<lparr>cs_bootstrap_servers = servers, cs_group_id = TRIGGER_GROUP,
     cs_metadata_max_age_ms = METADATA_MAX_AGE_MS, cs_enable_auto_commit = False, cs_auto_offset_reset = ''earliest'',
     cs_subscription = ByPattern TRIGGER_TOPIC_PATTERN\<rparr>"

definition build_decision_consumer :: "string \<Rightarrow> consumer_settings" where
  "build_decision_consumer servers = \<lparr>cs_bootstrap_servers = servers, cs_group_id = DECISION_GROUP,
     cs_metadata_max_age_ms = METADATA_MAX_AGE_MS, cs_enable_auto_commit = False, cs_auto_offset_reset = ''earliest'',
     cs_subscription = ByTopic GATE_DECISION_TOPIC\<rparr>"

text \<open>A topic the subscription can bring in: one the pattern matches from its start.\<close>

definition may_receive :: "consumer_settings \<Rightarrow> string \<Rightarrow> bool" where
  "may_receive cs topic = (case cs_subscription cs of ByPattern r \<Rightarrow> re_match r (None, topic) \<noteq> [] | ByTopic t \<Rightarrow> topic = t)"

text \<open>The loops never read what the process itself writes: outcomes, audit events and dead letters.\<close>

lemma trigger_pattern_misses:
  "list_all (\<lambda>t. re_match TRIGGER_TOPIC_PATTERN (None, t) = []) [RUN_OUTCOME_TOPIC, AUDIT_TOPIC, DLQ_TOPIC, GATE_DECISION_TOPIC]"
  by code_simp

lemma own_topics_distinct: "GATE_DECISION_TOPIC \<notin> set [RUN_OUTCOME_TOPIC, AUDIT_TOPIC, DLQ_TOPIC]"
  by code_simp

lemma trigger_consumer_receives:
  "may_receive (build_trigger_consumer servers) t \<longleftrightarrow> re_match TRIGGER_TOPIC_PATTERN (None, t) \<noteq> []"
  "may_receive (build_decision_consumer servers) t \<longleftrightarrow> t = GATE_DECISION_TOPIC"
  by (simp_all add: may_receive_def build_trigger_consumer_def build_decision_consumer_def)

lemma own_topics_not_read:
  assumes "topic \<in> set [RUN_OUTCOME_TOPIC, AUDIT_TOPIC, DLQ_TOPIC]"
  shows "\<not> may_receive (build_trigger_consumer servers) topic" "\<not> may_receive (build_decision_consumer servers) topic"
proof -
  have "re_match TRIGGER_TOPIC_PATTERN (None, topic) = []" using trigger_pattern_misses assms unfolding list_all_iff list.set by blast
  then show "\<not> may_receive (build_trigger_consumer servers) topic" unfolding trigger_consumer_receives by blast
  show "\<not> may_receive (build_decision_consumer servers) topic" unfolding trigger_consumer_receives using own_topics_distinct assms by blast
qed

section \<open>The order of main\<close>

datatype service_thread = WorkerThread | SweepThread | DecisionsThread

datatype client = TriggerClient | DecisionClient

datatype action =
    ConfigureLogging | InstallHandlers | OpenCheckpointer | ReconcileWorkspaces | SetupInbox | SetupTargets
  | MakeWorker | RestorePending | BuildConsumer client | StartThread service_thread | PollTriggers
  | SetStop | DrainQueue | JoinThread service_thread | CloseConsumer client | FlushEvents | CloseCheckpointer

text \<open>
  What an action raises, if it does. Closing a consumer and flushing are guarded by handlers
  that log; setting the flag, waiting for the queue and joining a started thread raise nothing.
\<close>

type_synonym raising = "action \<Rightarrow> string option"

fun close_guarded :: "action \<Rightarrow> bool" where
  "close_guarded (CloseConsumer c) = True"
| "close_guarded _ = False"

fun flush_guarded :: "action \<Rightarrow> bool" where
  "flush_guarded FlushEvents = True"
| "flush_guarded _ = False"

fun never_raises :: "action \<Rightarrow> bool" where
  "never_raises SetStop = True"
| "never_raises DrainQueue = True"
| "never_raises (JoinThread t) = True"
| "never_raises _ = False"

definition escapes :: "raising \<Rightarrow> action \<Rightarrow> string option" where
  "escapes f a = (if close_guarded a \<or> flush_guarded a \<or> never_raises a then None else f a)"

text \<open>Actions in a row, up to one that raises.\<close>

fun attempt :: "raising \<Rightarrow> action list \<Rightarrow> action list \<times> string option" where
  "attempt f [] = ([], None)"
| "attempt f (a # as) =
     (case escapes f a of Some m \<Rightarrow> ([a], Some m) | None \<Rightarrow> (let (t, r) = attempt f as in (a # t, r)))"

definition before_polling :: "action list" where
  "before_polling =
     [ReconcileWorkspaces, SetupInbox, SetupTargets, MakeWorker, RestorePending, BuildConsumer DecisionClient,
      StartThread WorkerThread, StartThread SweepThread, StartThread DecisionsThread, BuildConsumer TriggerClient]"

definition shutdown :: "action list" where
  "shutdown =
     [SetStop, DrainQueue, JoinThread WorkerThread, JoinThread SweepThread, JoinThread DecisionsThread,
      CloseConsumer TriggerClient, CloseConsumer DecisionClient, FlushEvents]"

text \<open>What runs inside the checkpointer's context: \<open>try\<close> begins at the poll loop.\<close>

definition service_body :: "raising \<Rightarrow> action list \<times> string option" where
  "service_body f = (case attempt f before_polling of
     (t, Some m) \<Rightarrow> (t, Some m)
   | (t, None) \<Rightarrow>
       (let (t1, r1) = attempt f [PollTriggers]; (t2, r2) = attempt f shutdown in
        (t @ t1 @ t2, if r2 \<noteq> None then r2 else r1)))"

definition main_run :: "environ \<Rightarrow> raising \<Rightarrow> action list \<times> string option" where
  "main_run env f = (case attempt f [ConfigureLogging] of
     (t, Some m) \<Rightarrow> (t, Some m)
   | (t, None) \<Rightarrow>
       if get_or [] (env ''KAFKA_BOOTSTRAP_SERVERS'') = [] then (t, Some ''KAFKA_BOOTSTRAP_SERVERS must be set'')
       else case attempt f [InstallHandlers, OpenCheckpointer] of
         (t1, Some m) \<Rightarrow> (t @ t1, Some m)
       | (t1, None) \<Rightarrow>
           (let (t2, r2) = service_body f; (t3, r3) = attempt f [CloseCheckpointer] in
            (t @ t1 @ t2 @ t3, if r3 \<noteq> None then r3 else r2)))"

definition precedes :: "action \<Rightarrow> action \<Rightarrow> action list \<Rightarrow> bool" where
  "precedes a b t \<longleftrightarrow> (b \<in> set t \<longrightarrow> a \<in> set (takeWhile (\<lambda>x. x \<noteq> b) t))"

lemma attempt_Some: "attempt f as = (t, Some m) \<Longrightarrow> \<exists>us a vs. as = us @ a # vs \<and> t = us @ [a] \<and> f a = Some m"
proof (induction as arbitrary: t)
  case (Cons a as)
  show ?case
  proof (cases "escapes f a")
    case None
    then obtain t' where "attempt f as = (t', Some m)" "t = a # t'" using Cons.prems by (auto split: prod.splits)
    then obtain us b vs where "as = us @ b # vs" "t = (a # us) @ [b]" "f b = Some m" using Cons.IH by fastforce
    then show ?thesis by (intro exI [of _ "a # us"]) auto
  next
    case (Some m')
    then show ?thesis using Cons.prems by (intro exI [of _ "[]"]) (auto simp: escapes_def split: if_splits)
  qed
qed simp

lemma attempt_None: "attempt f as = (t, None) \<Longrightarrow> t = as"
  by (induction as arbitrary: t) (auto split: option.splits prod.splits)

lemma attempt_shutdown: "attempt f shutdown = (shutdown, None)"
  by (simp add: shutdown_def escapes_def)

text \<open>The traces there are: cut short before the context, inside it before the poll loop, or complete.\<close>

definition boot_actions :: "action list" where
  "boot_actions = [ConfigureLogging, InstallHandlers, OpenCheckpointer]"

definition complete_trace :: "action list" where
  "complete_trace = boot_actions @ before_polling @ PollTriggers # shutdown @ [CloseCheckpointer]"

definition cut_traces :: "action list list" where
  "cut_traces = map (\<lambda>n. boot_actions @ take (Suc n) before_polling @ [CloseCheckpointer]) [0..<10]"

lemma service_body_cases:
  assumes "service_body f = (t, r)"
  shows "(\<exists>n < 10. t = take (Suc n) before_polling \<and> r = f (before_polling ! n) \<and> r \<noteq> None) \<or>
    (t = before_polling @ PollTriggers # shutdown \<and> r = f PollTriggers)"
proof (cases "attempt f before_polling")
  case (Pair t1 r1)
  show ?thesis
  proof (cases r1)
    case None
    then have "t1 = before_polling" using attempt_None Pair by blast
    then show ?thesis using assms Pair None
      by (simp add: service_body_def attempt_shutdown escapes_def split: option.splits)
  next
    case (Some m)
    then obtain us a vs where u: "before_polling = us @ a # vs" "t1 = us @ [a]" "f a = Some m"
      using attempt_Some Pair by blast
    have "length us < 10" using arg_cong [OF u(1), of length] by (simp add: before_polling_def)
    moreover have "t = us @ [a]" "r = Some m" using assms Pair Some u by (simp_all add: service_body_def)
    moreover have "take (Suc (length us)) before_polling = us @ [a]" "before_polling ! length us = a" unfolding u(1) by simp_all
    ultimately show ?thesis using u(3) by (intro disjI1 exI [of _ "length us"]) simp
  qed
qed

lemma main_run_cases:
  assumes "main_run env f = (t, r)"
  shows "(\<exists>n < 3. t = take (Suc n) boot_actions \<and> r \<noteq> None \<and> (n = 2 \<longrightarrow> f OpenCheckpointer \<noteq> None)) \<or>
    (\<exists>t2 r2. service_body f = (t2, r2) \<and> t = boot_actions @ t2 @ [CloseCheckpointer] \<and> f OpenCheckpointer = None \<and>
       get_or [] (env ''KAFKA_BOOTSTRAP_SERVERS'') \<noteq> [] \<and> (r = None \<longleftrightarrow> r2 = None \<and> f CloseCheckpointer = None))"
proof -
  consider (conf) "f ConfigureLogging \<noteq> None" | (env) "f ConfigureLogging = None" "get_or [] (env ''KAFKA_BOOTSTRAP_SERVERS'') = []"
    | (inst) "f ConfigureLogging = None" "get_or [] (env ''KAFKA_BOOTSTRAP_SERVERS'') \<noteq> []" "f InstallHandlers \<noteq> None"
    | (op) "f ConfigureLogging = None" "get_or [] (env ''KAFKA_BOOTSTRAP_SERVERS'') \<noteq> []" "f InstallHandlers = None" "f OpenCheckpointer \<noteq> None"
    | (body) "f ConfigureLogging = None" "get_or [] (env ''KAFKA_BOOTSTRAP_SERVERS'') \<noteq> []" "f InstallHandlers = None" "f OpenCheckpointer = None"
    by (cases "f ConfigureLogging"; cases "f InstallHandlers"; cases "f OpenCheckpointer") auto
  then show ?thesis
  proof cases
    case conf
    then have "t = [ConfigureLogging] \<and> r = f ConfigureLogging" using assms by (auto simp: main_run_def escapes_def)
    then show ?thesis using conf by (intro disjI1 exI [of _ 0]) (simp add: boot_actions_def)
  next
    case env
    then show ?thesis using assms by (intro disjI1 exI [of _ 0]) (auto simp: main_run_def escapes_def boot_actions_def)
  next
    case inst
    then have "t = [ConfigureLogging, InstallHandlers] \<and> r = f InstallHandlers" using assms by (auto simp: main_run_def escapes_def)
    then show ?thesis using inst by (intro disjI1 exI [of _ 1]) (simp add: boot_actions_def)
  next
    case op
    then have "t = [ConfigureLogging, InstallHandlers, OpenCheckpointer] \<and> r = f OpenCheckpointer" using assms by (auto simp: main_run_def escapes_def)
    then show ?thesis using op by (intro disjI1 exI [of _ 2]) (simp add: boot_actions_def)
  next
    case body
    then show ?thesis using assms
      by (cases "service_body f"; cases "f CloseCheckpointer") (auto simp: main_run_def escapes_def boot_actions_def)
  qed
qed

lemma main_run_traces:
  assumes "main_run env f = (t, r)"
  shows "t \<in> set (map (\<lambda>n. take (Suc n) boot_actions) [0..<3] @ cut_traces @ [complete_trace])"
  using main_run_cases [OF assms] service_body_cases [of f] unfolding cut_traces_def complete_trace_def by force

lemma traces_in_order:
  "list_all (\<lambda>t. list_all (\<lambda>th. precedes ReconcileWorkspaces (StartThread th) t \<and> precedes RestorePending (StartThread th) t \<and>
        precedes (StartThread th) PollTriggers t) [WorkerThread, SweepThread, DecisionsThread] \<and>
      (PollTriggers \<in> set t \<longrightarrow> t = complete_trace) \<and>
      (SetStop \<in> set t \<longrightarrow> PollTriggers \<in> set t))
     (map (\<lambda>n. take (Suc n) boot_actions) [0..<3] @ cut_traces @ [complete_trace])"
  by code_simp

lemma no_trigger_client:
  "get_or [] (env ''KAFKA_BOOTSTRAP_SERVERS'') \<noteq> [] \<Longrightarrow>
   main_run env (\<lambda>a. if a = BuildConsumer TriggerClient then Some m else None) = (boot_actions @ before_polling @ [CloseCheckpointer], Some m)"
  by (simp add: main_run_def service_body_def escapes_def before_polling_def boot_actions_def)

section \<open>Properties\<close>

text \<open>
  C38: the order of start-up and shutdown. Whatever fails on the way: no thread starts before the orphaned
  workspaces are swept and the inbox restored, polling starts after every thread; once polling
  has begun, however it ends, the stop flag is set, the queue waited for, the threads joined, both
  consumers closed and the producer flushed, in this order, and then the checkpointer is closed;
  and a checkpointer that was opened is closed last. But if only the trigger consumer cannot be
  built, the checkpointer is closed under running threads that nobody has asked to stop.
\<close>

theorem main_keeps_its_order:
  assumes "main_run env f = (t, r)"
  shows "(\<forall>th. precedes ReconcileWorkspaces (StartThread th) t \<and> precedes RestorePending (StartThread th) t \<and>
        precedes (StartThread th) PollTriggers t) \<and>
    (PollTriggers \<in> set t \<longrightarrow> (\<exists>us. t = us @ PollTriggers # shutdown @ [CloseCheckpointer])) \<and>
    (OpenCheckpointer \<in> set t \<and> f OpenCheckpointer = None \<longrightarrow> last t = CloseCheckpointer) \<and>
    (r = None \<longrightarrow> t = complete_trace) \<and>
    (get_or [] (env ''KAFKA_BOOTSTRAP_SERVERS'') \<noteq> [] \<and> f = (\<lambda>a. if a = BuildConsumer TriggerClient then Some m else None) \<longrightarrow>
       (\<forall>th. StartThread th \<in> set t) \<and> SetStop \<notin> set t \<and> FlushEvents \<notin> set t \<and> last t = CloseCheckpointer)"
proof -
  note tr = bspec [OF traces_in_order [unfolded list_all_iff] main_run_traces [OF assms]]
  have o: "precedes ReconcileWorkspaces (StartThread th) t \<and> precedes RestorePending (StartThread th) t \<and>
        precedes (StartThread th) PollTriggers t" for th
    using conjunct1 [OF tr] by (cases th) simp_all
  have p: "PollTriggers \<in> set t \<longrightarrow> t = complete_trace" using conjunct1 [OF conjunct2 [OF tr]] .
  have l: "last t = CloseCheckpointer" if "OpenCheckpointer \<in> set t" "f OpenCheckpointer = None"
    using main_run_cases [OF assms] that by (auto simp: boot_actions_def numeral_eq_Suc less_Suc_eq)
  have n: "t = complete_trace" if "r = None"
    using main_run_cases [OF assms] that service_body_cases [of f] by (auto simp: complete_trace_def)
  have g: "t = boot_actions @ before_polling @ [CloseCheckpointer]"
    if "get_or [] (env ''KAFKA_BOOTSTRAP_SERVERS'') \<noteq> []" "f = (\<lambda>a. if a = BuildConsumer TriggerClient then Some m else None)"
    using assms no_trigger_client [of env m, OF that(1)] unfolding that(2) by simp
  have c: "\<exists>us. complete_trace = us @ PollTriggers # shutdown @ [CloseCheckpointer]"
    by (intro exI [of _ "boot_actions @ before_polling"]) (simp add: complete_trace_def)
  have v: "StartThread th \<in> set (boot_actions @ before_polling @ [CloseCheckpointer])"
    "SetStop \<notin> set (boot_actions @ before_polling @ [CloseCheckpointer])" "FlushEvents \<notin> set (boot_actions @ before_polling @ [CloseCheckpointer])"
    "last (boot_actions @ before_polling @ [CloseCheckpointer]) = CloseCheckpointer" for th
    by (cases th; simp add: boot_actions_def before_polling_def)+
  show ?thesis
  proof (intro conjI impI allI)
    show "\<exists>us. t = us @ PollTriggers # shutdown @ [CloseCheckpointer]" if "PollTriggers \<in> set t" using p c that by blast
    show "last t = CloseCheckpointer" if "OpenCheckpointer \<in> set t \<and> f OpenCheckpointer = None" using l that by simp
    show "t = complete_trace" if "r = None" using n that .
  qed (use o g v in metis)+
qed

lemma main_keeps_its_order_witness:
  "FlushEvents \<notin> set (fst (main_run [''KAFKA_BOOTSTRAP_SERVERS'' \<mapsto> ''kafka:9092''] (\<lambda>a. if a = BuildConsumer TriggerClient then Some ''NoBrokersAvailable'' else None)))"
proof -
  obtain t r where t: "main_run [''KAFKA_BOOTSTRAP_SERVERS'' \<mapsto> ''kafka:9092''] (\<lambda>a. if a = BuildConsumer TriggerClient then Some ''NoBrokersAvailable'' else None) = (t, r)"
    by fastforce
  from main_keeps_its_order [OF t, of "''NoBrokersAvailable''"] show ?thesis unfolding t by simp
qed

end
