(* ===== verification/Metrics.thy ===== *)
theory Metrics
  imports SdlcRuns
begin

text \<open>
  \<open>agentic_control_plane/metrics.py\<close>: what a run's audit trail says of its reliability, and
  the rates over several runs. Times are seconds, divisions are exact.
\<close>

record RunSummary =
  rs_run_id :: string
  rs_run_status :: RunStatus
  rs_retry_count :: int
  rs_rollback_count :: int
  rs_started_at :: time
  rs_finished_at :: "time option"
  rs_first_failure_at :: "time option"
  rs_recovered_at :: "time option"

text \<open>The loop over the events; \<open>is_test_end\<close> is its guard.\<close>

definition is_test_end :: "AuditEvent \<Rightarrow> bool" where
  "is_test_end e = (ae_node e = ''test_executor'' \<and> ae_event_type e = NodeEnd)"

fun failure_and_recovery :: "AuditEvent list \<Rightarrow> time option \<times> time option \<Rightarrow> time option \<times> time option" where
  "failure_and_recovery [] fr = fr"
| "failure_and_recovery (e # es) (f, r) =
     (if \<not> is_test_end e then failure_and_recovery es (f, r)
      else let detail = lower (ae_detail e) in
        if contains ''fail'' detail \<and> f = None then failure_and_recovery es (Some (ae_timestamp e), r)
        else if contains ''pass'' detail \<and> f \<noteq> None \<and> r = None then failure_and_recovery es (f, Some (ae_timestamp e))
        else failure_and_recovery es (f, r))"

definition summarize_run :: "GraphState \<Rightarrow> RunSummary" where
  "summarize_run s = (let (f, r) = failure_and_recovery (events s) (None, None) in
     \<lparr>rs_run_id = run_id s, rs_run_status = run_status s, rs_retry_count = retry_count s, rs_rollback_count = rollback_count s,
      rs_started_at = started_at s, rs_finished_at = finished_at s, rs_first_failure_at = f, rs_recovered_at = r\<rparr>)"

definition mean :: "int list \<Rightarrow> rat option" where
  "mean xs = (if xs = [] then None else Some (of_int (sum_list xs) / of_nat (length xs)))"

definition repair_time :: "RunSummary \<Rightarrow> int option" where
  "repair_time r = (case (rs_first_failure_at r, rs_recovered_at r) of (Some f, Some t) \<Rightarrow> Some (t - f) | _ \<Rightarrow> None)"

definition latency :: "RunSummary \<Rightarrow> int option" where
  "latency r = map_option (\<lambda>t. t - rs_started_at r) (rs_finished_at r)"

definition compute_metrics :: "RunSummary list \<Rightarrow> RunMetrics" where
  "compute_metrics runs =
     (if runs = [] then empty_metrics
      else let total = of_nat (length runs) :: rat;
               invocations = sum_list (map (\<lambda>r. rs_retry_count r + 1) runs);
               retries = sum_list (map rs_retry_count runs) in
        \<lparr>rm_success_rate = Some (of_nat (length (filter (\<lambda>r. rs_run_status r = Completed) runs)) / total),
         rm_retry_frequency = Some (if invocations \<noteq> 0 then of_int retries / of_int invocations else 0),
         rm_rollback_frequency = Some (of_int (sum_list (map rs_rollback_count runs)) / total),
         rm_mttr_seconds = mean (List.map_filter repair_time runs),
         rm_e2e_latency_seconds = mean (List.map_filter latency runs)\<rparr>)"

section \<open>Lemmas\<close>

text \<open>What the loop finds: the first failing test run, and the first passing one after it.\<close>

definition failing :: "AuditEvent \<Rightarrow> bool" where
  "failing e = (is_test_end e \<and> contains ''fail'' (lower (ae_detail e)))"

definition passing :: "AuditEvent \<Rightarrow> bool" where
  "passing e = (is_test_end e \<and> contains ''pass'' (lower (ae_detail e)))"

lemma recovery_found: "failure_and_recovery es (Some f, Some r) = (Some f, Some r)"
  by (induction es) (simp_all add: Let_def)

lemma recovery_first:
  "failure_and_recovery es (Some f, None) = (Some f, map_option ae_timestamp (find passing es))"
  by (induction es) (auto simp: passing_def recovery_found Let_def)

lemma failure_first:
  "failure_and_recovery es (None, None) = (case dropWhile (\<lambda>e. \<not> failing e) es of
     [] \<Rightarrow> (None, None)
   | e # rest \<Rightarrow> (Some (ae_timestamp e), map_option ae_timestamp (find passing rest)))"
  by (induction es) (auto simp: failing_def recovery_first Let_def)

lemma retry_sums:
  assumes "\<forall>r \<in> set runs. 0 \<le> rs_retry_count r"
  shows "0 \<le> sum_list (map rs_retry_count runs)"
    and "sum_list (map (\<lambda>r. rs_retry_count r + 1) runs) = sum_list (map rs_retry_count runs) + int (length runs)"
  using assms by (induction runs) auto

lemma rollback_sum:
  "\<forall>r \<in> set runs. 0 \<le> rs_rollback_count r \<and> rs_rollback_count r \<le> 1 \<Longrightarrow>
   0 \<le> sum_list (map rs_rollback_count runs) \<and> sum_list (map rs_rollback_count runs) \<le> int (length runs)"
  by (induction runs) auto

text \<open>A search does not cross characters that are not in what is searched for.\<close>

lemma contains_skip: "p \<noteq> [] \<Longrightarrow> set w \<inter> set p = {} \<Longrightarrow> contains p (w @ v) = contains p v"
proof (induction w)
  case (Cons c w)
  then have "\<not> startswith (c # w @ v) p" by (cases p) (auto simp: startswith_iff)
  then show ?case using Cons by simp
qed simp

lemma contains_across:
  assumes "w \<noteq> []" "set w \<inter> set p = {}"
  shows "contains p (u @ w @ v) \<Longrightarrow> contains p u \<or> contains p v"
proof (induction u)
  case Nil
  then show ?case using contains_skip [of p w v] assms by (cases "p = []") auto
next
  case (Cons a u)
  have "startswith (a # u) p" if s: "startswith (a # u @ w @ v) p"
  proof -
    obtain t where t: "(a # u) @ (w @ v) = p @ t" using s by (auto simp: startswith_iff)
    then consider q where "a # u = p @ q" | q where "p = (a # u) @ q" "w @ v = q @ t"
      unfolding append_eq_append_conv2 by blast
    then show ?thesis
    proof cases
      case 1
      then show ?thesis by (auto simp: startswith_iff)
    next
      case 2
      show ?thesis
      proof (cases q)
        case Nil
        then show ?thesis using 2 by (auto simp: startswith_iff)
      next
        case (Cons c q')
        then have "hd w = c" "c \<in> set p" using 2 assms(1) by (cases w; simp)+
        then show ?thesis using assms by (cases w) auto
      qed
    qed
  qed
  then show ?case using Cons by auto
qed

lemma lower_append [simp]: "lower (a @ b) = lower a @ lower b"
  by (simp add: lower_def)

lemma int_str_chars: "c \<in> set (lower (int_str n)) \<Longrightarrow> is_digit c \<or> c = CHR ''-''"
proof -
  assume "c \<in> set (lower (int_str n))"
  then obtain d where d: "d \<in> set (int_str n)" "c = lower_char d" by (auto simp: lower_def)
  then have "is_digit d \<or> d = CHR ''-''" using nat_str_digits by (auto simp: int_str_def split: if_splits)
  moreover have "is_digit d \<Longrightarrow> lower_char d = d" by (simp add: is_digit_def lower_char_def Let_def)
  moreover have "lower_char (CHR ''-'') = CHR ''-''" by code_simp
  ultimately show ?thesis using d(2) by auto
qed

lemma number_between:
  assumes "contains p (u @ lower (int_str n) @ v)" "\<forall>c \<in> set p. \<not> is_digit c \<and> c \<noteq> CHR ''-''"
  shows "contains p u \<or> contains p v"
proof -
  have "lower (int_str n) \<noteq> []" by (simp add: lower_def int_str_def)
  moreover have "set (lower (int_str n)) \<inter> set p = {}" using int_str_chars assms(2) by blast
  ultimately show ?thesis using contains_across [of "lower (int_str n)" p u v] assms(1) by blast
qed

text \<open>What each end of a test run says of itself.\<close>

lemma end_details:
  "\<not> contains ''fail'' (lower ''tests passed'') \<and> contains ''pass'' (lower ''tests passed'')"
  "contains ''fail'' (lower ''tests failed (fallback attempt also failed)'') \<and>
   \<not> contains ''pass'' (lower ''tests failed (fallback attempt also failed)'')"
  "\<not> contains ''fail'' (lower ''retries exhausted, falling back to reduced-scope prompt'') \<and>
   \<not> contains ''pass'' (lower ''retries exhausted, falling back to reduced-scope prompt'')"
  "contains ''fail'' (lower (''tests failed, retrying (attempt '' @ d))"
  by code_simp+

lemma retrying_detail:
  "\<not> contains ''pass'' (lower (''tests failed, retrying (attempt '' @ int_str a @ '' of '' @ int_str b @ '')''))"
proof
  assume c: "contains ''pass'' (lower (''tests failed, retrying (attempt '' @ int_str a @ '' of '' @ int_str b @ '')''))"
  have p: "\<forall>c \<in> set ''pass''. \<not> is_digit c \<and> c \<noteq> CHR ''-''" by code_simp
  have "contains ''pass'' (lower ''tests failed, retrying (attempt '') \<or> contains ''pass'' (lower '' of '' @ lower (int_str b) @ lower '')'')"
    by (rule number_between [OF _ p]) (use c in \<open>simp only: lower_append append_assoc\<close>)
  then have "contains ''pass'' (lower ''tests failed, retrying (attempt '') \<or> contains ''pass'' (lower '' of '') \<or> contains ''pass'' (lower '')'')"
    using number_between [OF _ p] by blast
  moreover have "\<not> (contains ''pass'' (lower ''tests failed, retrying (attempt '') \<or> contains ''pass'' (lower '' of '') \<or> contains ''pass'' (lower '')''))"
    by code_simp
  ultimately show False by blast
qed

section \<open>Properties\<close>

text \<open>
  How much of a test run the summary sees. The trail a test executor writes holds a passing
  end exactly if the tests passed, but a failing end only if they failed with a retry left or
  on the fallback attempt: the failure that exhausts the retries is not among them, so a run
  without retries that its fallback repairs has no failure, and no repair time, in the metrics.
\<close>

theorem test_ends_are_read_back:
  assumes "test_executor i s = Update us" "WTest tr \<in> set us" "WEvents es \<in> set us"
  shows "((\<exists>e \<in> set es. passing e) \<longleftrightarrow> tr_passed tr) \<and>
    ((\<exists>e \<in> set es. failing e) \<longleftrightarrow> \<not> tr_passed tr \<and> (fallback_triggered s \<or> retry_count s < retry_limit s)) \<and>
    (\<not> tr_passed tr \<and> \<not> fallback_triggered s \<and> \<not> retry_count s < retry_limit s \<longrightarrow> failure_and_recovery es (None, None) = (None, None))"
proof -
  note ends = passing_def failing_def is_test_end_def ev_timed_def ev_def Let_def
  obtain run where r: "run_pytest_sandboxed (i_workdir i) (i_workdir_is_dir i) (i_pytest i) (i_pytest_duration i) = Inr run"
    using assms(1) by (cases "run_pytest_sandboxed (i_workdir i) (i_workdir_is_dir i) (i_pytest i) (i_pytest_duration i)") (auto simp: test_executor_def)
  consider "st_passed run" | "\<not> st_passed run" "fallback_triggered s"
    | "\<not> st_passed run" "\<not> fallback_triggered s" "retry_count s < retry_limit s"
    | "\<not> st_passed run" "\<not> fallback_triggered s" "\<not> retry_count s < retry_limit s" by blast
  then show ?thesis
  proof cases
    case 1
    then show ?thesis using assms r end_details(1) by (auto simp: test_executor_def ends simp del: contains.simps)
  next
    case 2
    then show ?thesis using assms r end_details(2) by (auto simp: test_executor_def ends simp del: contains.simps)
  next
    case 3
    then show ?thesis using assms r end_details(4) retrying_detail
      by (auto simp: test_executor_def ends simp del: contains.simps lower_append)
  next
    case 4
    then show ?thesis using assms r end_details(3) by (auto simp: test_executor_def ends simp del: contains.simps)
  qed
qed

lemma test_ends_are_read_back_witness:
  "case test_executor ((ni_inputs demo_in)\<lparr>i_pytest := Exited 1 ''FAILED test_a.py'' []\<rparr>)
       (new_graph_state ''r1'' Greenfield ''add x'' Replay 0\<lparr>retry_limit := 0\<rparr>) of
     Update us \<Rightarrow> (\<exists>tr es. WTest tr \<in> set us \<and> WEvents es \<in> set us \<and> \<not> tr_passed tr \<and> failure_and_recovery es (None, None) = (None, None))
   | _ \<Rightarrow> False"
proof -
  define s where "s = new_graph_state ''r1'' Greenfield ''add x'' Replay 0\<lparr>retry_limit := 0\<rparr>"
  define i where "i = (ni_inputs demo_in)\<lparr>i_pytest := Exited 1 ''FAILED test_a.py'' []\<rparr>"
  have c: "case test_executor i s of Update (WTest tr # _) \<Rightarrow> \<not> tr_passed tr | _ \<Rightarrow> False"
    unfolding i_def s_def by code_simp
  obtain us where us: "test_executor i s = Update us" using c by (cases "test_executor i s") simp_all
  obtain tr es ws where "us = WTest tr # ws @ [WEvents es]" using test_executor_effect [OF us] by blast
  then have u: "test_executor i s = Update us" "WTest tr \<in> set us" "WEvents es \<in> set us" "\<not> tr_passed tr"
    using us c by simp_all
  have "\<not> fallback_triggered s \<and> \<not> retry_count s < retry_limit s" by (simp add: s_def new_graph_state_def)
  then have "failure_and_recovery es (None, None) = (None, None)"
    using test_ends_are_read_back [OF u(1-3)] u(4) by blast
  then show ?thesis using u unfolding i_def [symmetric] s_def [symmetric] by auto
qed

text \<open>A state some run of the SDLC graph reaches.\<close>

definition run_state :: "'w env \<Rightarrow> GraphState \<Rightarrow> bool" where
  "run_state e s \<longleftrightarrow> (\<exists>rid sc req m limit now w c. 0 \<le> limit \<and>
     reachable e (initial_config (start_state rid sc req m limit now) w) c \<and> cf_state c = s)"

lemma run_state_counts:
  assumes "run_state e s"
  shows "0 \<le> retry_count s \<and> 0 \<le> rollback_count s \<and> rollback_count s \<le> 1 \<and> (run_status s = Completed \<longrightarrow> rollback_count s = 0)"
proof -
  obtain rid sc req m limit now w c where r: "0 \<le> limit" "reachable e (initial_config (start_state rid sc req m limit now) w) c" "cf_state c = s"
    using assms unfolding run_state_def by blast
  have "sdlc_inv sc limit s (cf_frontier c)" using sdlc_inv_reachable [OF r(2,1)] r(3) by simp
  then show ?thesis by (auto simp: sdlc_inv_def life_inv_def retry_inv_def shipped_def split: if_splits)
qed

lemma completed_or_rolled_back:
  "\<forall>r \<in> set runs. 0 \<le> rs_rollback_count r \<and> rs_rollback_count r \<le> 1 \<and> (rs_run_status r = Completed \<longrightarrow> rs_rollback_count r = 0) \<Longrightarrow>
   0 \<le> sum_list (map rs_rollback_count runs) \<and>
   int (length (filter (\<lambda>r. rs_run_status r = Completed) runs)) + sum_list (map rs_rollback_count runs) \<le> int (length runs)"
  by (induction runs) auto

text \<open>
  The metrics of runs are rates. For any states that runs of the SDLC graph reach, finished
  or not, the success, retry and rollback rates are there and lie between 0 and 1, the retry
  rate below 1, and no run counts as a success and as rolled back.
\<close>

theorem metrics_of_runs_are_rates:
  assumes "ss \<noteq> []" "\<And>s. s \<in> set ss \<Longrightarrow> run_state e s"
  shows "\<exists>a b c. rm_success_rate (compute_metrics (map summarize_run ss)) = Some a \<and>
    rm_retry_frequency (compute_metrics (map summarize_run ss)) = Some b \<and>
    rm_rollback_frequency (compute_metrics (map summarize_run ss)) = Some c \<and>
    0 \<le> a \<and> 0 \<le> b \<and> b < 1 \<and> 0 \<le> c \<and> a + c \<le> 1"
proof -
  define runs where "runs = map summarize_run ss"
  have each: "\<forall>r \<in> set runs. 0 \<le> rs_retry_count r \<and> 0 \<le> rs_rollback_count r \<and> rs_rollback_count r \<le> 1 \<and>
      (rs_run_status r = Completed \<longrightarrow> rs_rollback_count r = 0)"
    using run_state_counts [OF assms(2)] by (auto simp: runs_def summarize_run_def split: prod.splits)
  define n where "n = int (length runs)"
  define good where "good = length (filter (\<lambda>r. rs_run_status r = Completed) runs)"
  define rolled where "rolled = sum_list (map rs_rollback_count runs)"
  define again where "again = sum_list (map rs_retry_count runs)"
  have n: "n > 0" "runs \<noteq> []" using assms(1) by (simp_all add: n_def runs_def)
  have sums: "0 \<le> rolled" "int good + rolled \<le> n" "0 \<le> again" "sum_list (map (\<lambda>r. rs_retry_count r + 1) runs) = again + n"
    using completed_or_rolled_back [of runs] retry_sums [of runs] each by (simp_all add: rolled_def good_def again_def n_def)
  have m: "compute_metrics runs = \<lparr>rm_success_rate = Some (of_nat good / of_int n),
      rm_retry_frequency = Some (of_int again / of_int (again + n)), rm_rollback_frequency = Some (of_int rolled / of_int n),
      rm_mttr_seconds = mean (List.map_filter repair_time runs), rm_e2e_latency_seconds = mean (List.map_filter latency runs)\<rparr>"
    using n sums by (simp add: compute_metrics_def Let_def good_def rolled_def again_def n_def)
  have pos: "(0 :: rat) < of_int n" "(0 :: rat) < of_int (again + n)" using n sums(3) by simp_all
  have "(of_nat good :: rat) + of_int rolled \<le> of_int n" using sums(2) by (metis of_int_add of_int_le_iff of_int_of_nat_eq)
  then have "(of_nat good / of_int n :: rat) + of_int rolled / of_int n \<le> 1" using pos by (simp add: add_divide_distrib [symmetric])
  moreover have "(of_int again / of_int (again + n) :: rat) < 1"
    using pos(1) by (subst pos_divide_less_eq [OF pos(2)]) simp
  moreover have "(0 :: rat) \<le> of_int again / of_int (again + n)" "(0 :: rat) \<le> of_nat good / of_int n" "(0 :: rat) \<le> of_int rolled / of_int n"
    using pos sums by (simp_all add: divide_nonneg_pos)
  ultimately show ?thesis unfolding runs_def [symmetric] m by auto
qed

lemma metrics_of_runs_are_rates_witness:
  "\<exists>a. rm_success_rate (compute_metrics (map summarize_run [cf_state demo_start])) = Some a \<and> a \<le> 1"
proof -
  have "run_state demo_env (cf_state demo_start)"
    unfolding run_state_def
  proof (intro exI conjI)
    show "reachable demo_env (initial_config (start_state ''r1'' Greenfield ''add x'' Replay 3 0) demo_fs) demo_start"
      unfolding demo_start_state by (rule reachable.start)
  qed simp_all
  then have "run_state demo_env s" if "s \<in> set [cf_state demo_start]" for s using that by simp
  from metrics_of_runs_are_rates [OF list.distinct(2) this] obtain a b c where
    "rm_success_rate (compute_metrics (map summarize_run [cf_state demo_start])) = Some a" "0 \<le> c" "a + c \<le> 1" by blast
  then show ?thesis by (intro exI [of _ a] conjI) (assumption, linarith)
qed

end
