(* ===== verification/Operator.thy ===== *)
theory Operator
  imports Messages Settings "HOL-Library.List_Lexorder" "HOL-Library.Char_ord"
begin

text \<open>
  The operator's scripts under \<open>src/scripts/\<close>: the drift signal and the gate decision a human
  sends by hand, and the check of the lock file. The broker is the
  end offsets of its topics' partitions; what sending does to it, and reports, is an argument.
\<close>

section \<open>Signals\<close>

definition tenant_repo :: "environ \<Rightarrow> string" where
  "tenant_repo env = get_or ''https://github.com/jayakumar-devaraj/carddemo-tenant-service.git'' (env ''TENANT_REPO_URL'')"

definition git_target_of :: "environ \<Rightarrow> json" where
  "git_target_of env = JObj [(''repo_url'', JStr (tenant_repo env)), (''branch'', JStr ''main'')]"

definition producer_of :: "string \<Rightarrow> json" where
  "producer_of service = JObj [(''service'', JStr service), (''instance_id'', JStr ''operator-cli'')]"

definition drift_event :: "environ \<Rightarrow> stamp \<Rightarrow> string \<Rightarrow> (string, json) dict" where
  "drift_event env st rid =
     [(''event_id'', JStr (st_event_id st)), (''correlation_id'', JStr rid), (''service'', JStr ''mlops''),
      (''event_type'', JStr ''drift-detected''), (''timestamp'', JStr (st_timestamp st)), (''producer'', producer_of ''mlops''),
      (''git_target'', git_target_of env), (''scenario_type'', JStr ''brownfield''),
      (''metrics'', JObj [(''metric_name'', JStr ''interest_posting_accuracy''), (''reference_value'', JFloat ''0.997''),
         (''current_value'', JFloat ''0.951''), (''relative_change_pct'', JFloat ''-4.6''), (''threshold_pct'', JFloat ''2.0'')])]"

definition gate_event :: "environ \<Rightarrow> stamp \<Rightarrow> string \<Rightarrow> string \<Rightarrow> string \<Rightarrow> string \<Rightarrow> (string, json) dict" where
  "gate_event env st rid gate decision comment =
     [(''event_id'', JStr (st_event_id st)), (''correlation_id'', JStr rid), (''service'', JStr ''control-plane''),
      (''event_type'', JStr ''gate-decision''), (''timestamp'', JStr (st_timestamp st)), (''producer'', producer_of ''control-plane''),
      (''git_target'', git_target_of env), (''scenario_type'', JStr ''brownfield''),
      (''payload'', JObj [(''decision'', JStr decision),
         (''decided_by'', JStr (get_or ''jayakumar-devaraj'' (env ''GATE_DECIDED_BY''))), (''gate'', JStr gate), (''comment'', JStr comment)])]"

definition DRIFT_TOPIC :: string where "DRIFT_TOPIC = ''mlops.drift-detected.v1''"

definition GATE_TOPIC :: string where "GATE_TOPIC = ''control-plane.gate-decision.v1''"

text \<open>
  Sending, and the exit code. A script trusts the end offsets of the topic before and after, not
  what the client reports: it ends with 0 exactly if their sum moved by one.
\<close>

type_synonym broker = "string \<rightharpoonup> nat list"

type_synonym delivery = "string \<Rightarrow> (string, json) dict \<Rightarrow> broker \<Rightarrow> (string, nat \<times> nat) result \<times> broker"

definition end_offsets :: "string \<Rightarrow> broker \<Rightarrow> nat" where
  "end_offsets topic b = sum_list (get_or [] (b topic))"

definition landed :: "nat \<Rightarrow> nat \<Rightarrow> int" where
  "landed before after = (if after = before + 1 then 0 else 1)"

definition send_signal :: "delivery \<Rightarrow> string \<Rightarrow> (string, json) dict \<Rightarrow> broker \<Rightarrow> int \<times> broker" where
  "send_signal deliver topic event b =
     (let before = end_offsets topic b; (r, b') = deliver topic event b in (landed before (end_offsets topic b'), b'))"

definition publish_drift :: "environ \<Rightarrow> stamp \<Rightarrow> string list \<Rightarrow> delivery \<Rightarrow> broker \<Rightarrow> (string, json) dict option \<times> int \<times> broker" where
  "publish_drift env st args deliver b = (case args of
     [rid] \<Rightarrow> (let event = drift_event env st rid in (Some event, send_signal deliver DRIFT_TOPIC event b))
   | _ \<Rightarrow> (None, 1, b))"

definition publish_gate :: "environ \<Rightarrow> stamp \<Rightarrow> string list \<Rightarrow> delivery \<Rightarrow> broker \<Rightarrow> (string, json) dict option \<times> int \<times> broker" where
  "publish_gate env st args deliver b = (case args of
     [rid, gate, decision, comment] \<Rightarrow>
       if decision \<notin> {''approve'', ''reject''} then (None, 1, b)
       else (let event = gate_event env st rid gate decision comment in (Some event, send_signal deliver GATE_TOPIC event b))
   | _ \<Rightarrow> (None, 1, b))"

text \<open>What the client reports has no part in the exit code; a second copy of a signal is not a landing.\<close>

lemma send_signal_landed:
  "send_signal deliver topic event b = (c, b') \<Longrightarrow> b' = snd (deliver topic event b) \<and> (c = 0 \<longleftrightarrow> end_offsets topic b' = end_offsets topic b + 1)"
  by (auto simp: send_signal_def landed_def Let_def split: prod.splits if_splits)

text \<open>The fields of a valid event, as the shared envelope holds them.\<close>

definition obj_field :: "(string, json) dict \<Rightarrow> string \<Rightarrow> (string, json) dict option" where
  "obj_field d k = (case dict_get d k of Some (JObj o') \<Rightarrow> Some o' | _ \<Rightarrow> None)"

definition read_envelope :: "(string, json) dict \<Rightarrow> envelope" where
  "read_envelope d =
     (let text = (\<lambda>d k. get_or [] (str_field d k)); target = get_or [] (obj_field d ''git_target'') in
      \<lparr>en_correlation_id = text d ''correlation_id'', en_event_type = text d ''event_type'', en_scenario_type = text d ''scenario_type'',
       en_repo_url = text target ''repo_url'', en_branch = text target ''branch'',
       en_metrics = obj_field d ''metrics'', en_payload = obj_field d ''payload''\<rparr>)"

section \<open>The lock file\<close>

definition is_name_start :: "char \<Rightarrow> bool" where
  "is_name_start c = (is_upper_ascii c \<or> is_lower_ascii c \<or> is_digit c)"

definition is_pin_name :: "char \<Rightarrow> bool" where
  "is_pin_name c = (is_name_start c \<or> c \<in> set ''._-'')"

text \<open>
  \<open>PIN.match\<close>: no part of the pattern can take a character the next one starts with, so each
  takes all it can.
\<close>

definition skip_extras :: "string \<Rightarrow> string option" where
  "skip_extras s = (case s of
     c # r \<Rightarrow> if c = CHR ''['' then (case dropWhile (\<lambda>c. c \<noteq> CHR '']'') r of [] \<Rightarrow> None | _ # r' \<Rightarrow> Some r') else Some s
   | [] \<Rightarrow> Some s)"

definition match_pin :: "string \<Rightarrow> (string \<times> string) option" where
  "match_pin s =
     (if s = [] \<or> \<not> is_name_start (hd s) then None
      else case skip_extras (dropWhile is_pin_name s) of
        None \<Rightarrow> None
      | Some r \<Rightarrow>
          (let v = takeWhile (\<lambda>c. \<not> is_space c \<and> c \<noteq> CHR '';'' \<and> c \<noteq> CHR ''#'') (drop 2 r) in
           if startswith r ''=='' \<and> v \<noteq> [] then Some (takeWhile is_pin_name s, v) else None))"

definition pin_of_line :: "string \<Rightarrow> (string \<times> string) option" where
  "pin_of_line l =
     (let line = strip l in
      if line = [] \<or> startswith line ''#'' then None
      else map_option (\<lambda>(n, v). (replace_char (CHR ''_'') (CHR ''-'') (lower n), v)) (match_pin line))"

definition pins :: "string \<Rightarrow> (string, string) dict" where
  "pins text = fold (\<lambda>l found. case pin_of_line l of Some (n, v) \<Rightarrow> dict_set n v found | None \<Rightarrow> found) (splitlines text) []"

definition pin_problem :: "(string, string) dict \<Rightarrow> string \<times> string \<Rightarrow> string option" where
  "pin_problem locked nv = (case nv of (name, version) \<Rightarrow>
     (case dict_get locked name of
        None \<Rightarrow> Some (''  '' @ name @ ''=='' @ version @ '' is pinned but absent from requirements.lock'')
      | Some v \<Rightarrow> if v \<noteq> version then Some (''  '' @ name @ '': requirements.txt says '' @ version @ '', lock says '' @ v) else None))"

definition lock_problems :: "(string, string) dict \<Rightarrow> (string, string) dict \<Rightarrow> string list" where
  "lock_problems declared locked = List.map_filter (pin_problem locked) (sort_key fst declared)"

definition check_lock :: "string option \<Rightarrow> string option \<Rightarrow> int" where
  "check_lock requirements lock = (case (requirements, lock) of
     (Some r, Some l) \<Rightarrow> if pins r = [] then 1 else if lock_problems (pins r) (pins l) \<noteq> [] then 1 else 0
   | _ \<Rightarrow> 1)"

section \<open>Lemmas\<close>

lemma lock_problems_none: "lock_problems declared locked = [] \<longleftrightarrow> (\<forall>(n, v) \<in> set declared. dict_get locked n = Some v)"
  by (auto simp: lock_problems_def map_filter_def filter_empty_conv pin_problem_def split: option.splits if_splits)

text \<open>The lock file is current exactly if it holds every declared pin at the declared version.\<close>

lemma check_lock_current:
  "check_lock requirements lock = 0 \<longleftrightarrow> (\<exists>r l. requirements = Some r \<and> lock = Some l \<and> pins r \<noteq> [] \<and>
     (\<forall>(n, v) \<in> set (pins r). dict_get (pins l) n = Some v))"
  by (cases requirements; cases lock) (auto simp: check_lock_def lock_problems_none)

lemma read_events:
  "read_envelope (drift_event env st rid) = \<lparr>en_correlation_id = rid, en_event_type = ''drift-detected'', en_scenario_type = ''brownfield'',
     en_repo_url = tenant_repo env, en_branch = ''main'',
     en_metrics = Some [(''metric_name'', JStr ''interest_posting_accuracy''), (''reference_value'', JFloat ''0.997''),
         (''current_value'', JFloat ''0.951''), (''relative_change_pct'', JFloat ''-4.6''), (''threshold_pct'', JFloat ''2.0'')],
     en_payload = None\<rparr>"
  "read_envelope (gate_event env st rid gate decision comment) = \<lparr>en_correlation_id = rid, en_event_type = ''gate-decision'',
     en_scenario_type = ''brownfield'', en_repo_url = tenant_repo env, en_branch = ''main'', en_metrics = None,
     en_payload = Some [(''decision'', JStr decision),
         (''decided_by'', JStr (get_or ''jayakumar-devaraj'' (env ''GATE_DECIDED_BY''))), (''gate'', JStr gate), (''comment'', JStr comment)]\<rparr>"
  by (simp_all add: read_envelope_def drift_event_def gate_event_def obj_field_def str_field_def git_target_of_def dict_get_Cons Let_def)

lemma decision_taken:
  assumes "s \<in> set USABLE_STATUSES" "dict_get p ''decision'' = Some (JStr s)" "dict_get p ''override_guardrails'' = None"
    and "en_event_type en = ''gate-decision''" "en_payload en = Some p" "validate raw = Inr en"
  shows "\<exists>d r. parse_decision validate raw = Inr (DecisionWork (en_correlation_id en) d None) \<and> make_gate_record g (read_decision d) ts = Inr r \<and>
    (gr_status r = Approved \<longleftrightarrow> s \<in> {''approve'', ''approved''}) \<and> (gr_status r = Rejected \<longleftrightarrow> s \<in> {''reject'', ''rejected''}) \<and>
    d_override_guardrails (read_decision d) = Some False"
proof -
  define d where "d = decision_fields p s"
  have "s \<noteq> []" using assms(1) by (auto simp: USABLE_STATUSES_def)
  then have w: "wire_status p = JStr s" using assms(2) by (simp add: wire_status_def json_or_def)
  have pd: "parse_decision validate raw = Inr (DecisionWork (en_correlation_id en) d None)"
    using assms w by (simp add: parse_decision_def d_def)
  obtain b where b: "read_decided_by (get_or ''human'' (d_decided_by (read_decision d))) = Some b"
    using read_decision_fields(2) [of p s] by (auto simp: d_def read_decided_by_def)
  obtain st where st: "read_status (normal_status s) = Some st" "st = Approved \<longleftrightarrow> s \<in> {''approve'', ''approved''}"
      "st = Rejected \<longleftrightarrow> s \<in> {''reject'', ''rejected''}"
    using read_normal_status [OF assms(1)] by (elim exE conjE)
  have "read_status (get_or ''approved'' (d_status (read_decision d))) = Some st"
    using st(1) by (simp add: d_def read_decision_fields(1))
  from make_gate_record_ok [OF this b, where g = g and ts = ts] obtain r where r: "make_gate_record g (read_decision d) ts = Inr r" "gr_status r = st"
    by (elim exE conjE)
  have "d_override_guardrails (read_decision d) = Some False" using assms(3) by (simp add: d_def read_decision_fields(3))
  then show ?thesis unfolding r(2) [symmetric]
    by (intro exI [of _ d] exI [of _ r] conjI pd r(1) st(2,3) [folded r(2)])
qed

section \<open>Properties\<close>

text \<open>
  The operator's signals are what the service takes. Whatever the scripts send, if the
  envelope holds its fields, the drift signal is a trigger for the run it names on the tenant's
  repository, and the decision is work for the run it names that every gate can record:
  approved exactly for approve, rejected exactly for reject, never overriding a guardrail. The text of
  the trigger has no relative change in it: the script and the service call that metric by
  different names. The exit code is 0 exactly if the end offset of the signal's topic moved by
  one, whatever the client reports.
\<close>

theorem operator_signals_are_taken:
  assumes "publish_drift env st args1 deliver b1 = (Some ev1, c1, a1)" "validate raw1 = Inr (read_envelope ev1)"
    and "publish_gate env st args2 deliver b2 = (Some ev2, c2, a2)" "validate raw2 = Inr (read_envelope ev2)"
  shows "parse_trigger validate raw1 = Inr (TriggerWork (hd args1) ''brownfield'' (tenant_repo env) ''main''
      ''Operational drift detected in interest_posting_accuracy: reference 0.997, current 0.951, threshold 2.0%. Investigate the regression and remediate it.'' None) \<and>
    (\<exists>d r. parse_decision validate raw2 = Inr (DecisionWork (hd args2) d None) \<and> make_gate_record g (read_decision d) ts = Inr r \<and>
       (gr_status r = Approved \<longleftrightarrow> args2 ! 2 = ''approve'') \<and> (gr_status r = Rejected \<longleftrightarrow> args2 ! 2 = ''reject'') \<and>
       d_override_guardrails (read_decision d) = Some False) \<and>
    (c1 = 0 \<longleftrightarrow> end_offsets DRIFT_TOPIC a1 = end_offsets DRIFT_TOPIC b1 + 1) \<and>
    (c2 = 0 \<longleftrightarrow> end_offsets GATE_TOPIC a2 = end_offsets GATE_TOPIC b2 + 1)"
proof -
  obtain rid where 1: "args1 = [rid]" "ev1 = drift_event env st rid" "send_signal deliver DRIFT_TOPIC ev1 b1 = (c1, a1)"
    using assms(1) by (auto simp: publish_drift_def Let_def split: list.splits)
  have t: "parse_trigger validate raw1 = Inr (TriggerWork rid ''brownfield'' (tenant_repo env) ''main'' (describe_drift (read_envelope ev1)) None)"
    using assms(2) 1(2) by (simp add: parse_trigger_def read_events)
  have words: "describe_drift (read_envelope ev1) = ''Operational drift detected in interest_posting_accuracy: reference 0.997, current 0.951, threshold 2.0%. Investigate the regression and remediate it.''"
    by (simp add: 1(2) read_events describe_drift_def metric_part_def dict_get_Cons py_str_def)
  obtain rid2 gate dec comment where 2: "args2 = [rid2, gate, dec, comment]" "dec = ''approve'' \<or> dec = ''reject''"
      "ev2 = gate_event env st rid2 gate dec comment" "send_signal deliver GATE_TOPIC ev2 b2 = (c2, a2)"
    using assms(3) by (auto simp: publish_gate_def Let_def split: list.splits if_splits)
  have "dec \<in> set USABLE_STATUSES" using 2(2) by (auto simp: USABLE_STATUSES_def)
  define pl where "pl = [(''decision'', JStr dec), (''decided_by'', JStr (get_or ''jayakumar-devaraj'' (env ''GATE_DECIDED_BY''))),
      (''gate'', JStr gate), (''comment'', JStr comment)]"
  have p: "dict_get pl ''decision'' = Some (JStr dec)" "dict_get pl ''override_guardrails'' = None" by (simp_all add: pl_def dict_get_Cons)
  have e: "en_event_type (read_envelope ev2) = ''gate-decision''" "en_payload (read_envelope ev2) = Some pl" "en_correlation_id (read_envelope ev2) = rid2"
    by (simp_all add: 2(3) read_events pl_def)
  obtain d r where dr: "parse_decision validate raw2 = Inr (DecisionWork rid2 d None)" "make_gate_record g (read_decision d) ts = Inr r"
      "gr_status r = Approved \<longleftrightarrow> dec \<in> {''approve'', ''approved''}" "gr_status r = Rejected \<longleftrightarrow> dec \<in> {''reject'', ''rejected''}"
      "d_override_guardrails (read_decision d) = Some False"
    using decision_taken [of dec pl "read_envelope ev2" validate raw2 g ts, OF \<open>dec \<in> set USABLE_STATUSES\<close> p e(1,2) assms(4)] unfolding e(3) by (elim exE conjE)
  have plain: "dec \<noteq> ''approved''" "dec \<noteq> ''rejected''" using 2(2) by (elim disjE; simp)+
  then have st: "gr_status r = Approved \<longleftrightarrow> dec = ''approve''" "gr_status r = Rejected \<longleftrightarrow> dec = ''reject''"
    using dr(3,4) by simp_all
  note send_signal_landed [OF 1(3)] send_signal_landed [OF 2(4)]
  moreover have "parse_trigger validate raw1 = Inr (TriggerWork (hd args1) ''brownfield'' (tenant_repo env) ''main''
      ''Operational drift detected in interest_posting_accuracy: reference 0.997, current 0.951, threshold 2.0%. Investigate the regression and remediate it.'' None)"
    unfolding t words 1(1) list.sel by (rule refl)
  moreover have "parse_decision validate raw2 = Inr (DecisionWork (hd args2) d None)" using dr(1) by (simp add: 2(1))
  moreover have "gr_status r = Approved \<longleftrightarrow> args2 ! 2 = ''approve''" "gr_status r = Rejected \<longleftrightarrow> args2 ! 2 = ''reject''"
    using st by (simp_all add: 2(1))
  ultimately show ?thesis using dr(2,5) by blast
qed

lemma operator_signals_are_taken_witness:
  "\<exists>d r. parse_decision (\<lambda>ev. Inr (read_envelope ev)) (gate_event Map.empty \<lparr>st_event_id = ''e'', st_timestamp = ''t'', st_instance = ''i''\<rparr> ''r1'' ''g'' ''approve'' ''ok'')
     = Inr (DecisionWork ''r1'' d None) \<and> make_gate_record MergeReleaseApproval (read_decision d) None = Inr r \<and> gr_status r = Approved"
proof -
  define st where "st = \<lparr>st_event_id = ''e'', st_timestamp = ''t'', st_instance = ''i''\<rparr>"
  define deliver where "deliver = (\<lambda>topic (ev :: (string, json) dict) (b :: broker). (Inr (0, 0) :: (string, nat \<times> nat) result, b(topic \<mapsto> [Suc (end_offsets topic b)])))"
  define drift where "drift = drift_event Map.empty st ''r1''"
  define gate where "gate = gate_event Map.empty st ''r1'' ''g'' ''approve'' ''ok''"
  have 1: "publish_drift Map.empty st [''r1''] deliver Map.empty = (Some drift, send_signal deliver DRIFT_TOPIC drift Map.empty)"
    by (simp add: publish_drift_def drift_def Let_def)
  have 2: "publish_gate Map.empty st [''r1'', ''g'', ''approve'', ''ok''] deliver Map.empty = (Some gate, send_signal deliver GATE_TOPIC gate Map.empty)"
    by (simp add: publish_gate_def gate_def Let_def)
  obtain c1 a1 c2 a2 where c: "send_signal deliver DRIFT_TOPIC drift Map.empty = (c1, a1)" "send_signal deliver GATE_TOPIC gate Map.empty = (c2, a2)"
    by fastforce
  from operator_signals_are_taken [where validate = "\<lambda>ev. Inr (read_envelope ev)" and g = MergeReleaseApproval and ts = None,
      OF 1 [unfolded c] refl 2 [unfolded c] refl]
  show ?thesis unfolding st_def [symmetric] gate_def by auto
qed

end
