(* ===== verification/Threads.thy ===== *)
theory Threads
  imports WorkerProps
begin

text \<open>
  The threads \<open>main.py\<close> starts around one worker, taken apart to the moments at which another
  may come in between. The two poll loops share \<open>Worker.submit\<close>, which records, queues and
  forgets in three calls; the worker thread takes, carries out and forgets; the sweep of
  \<open>Worker.sweep_stale_runs\<close> decides which runs are stale and then expires them one by one.
  Each call on the inbox is a transaction and each call on the queue holds its lock, so these
  are the steps; a handler is one step, as the poll loops touch nothing it reads.
\<close>

section \<open>A submission, call by call\<close>

text \<open>
  Where a poll loop stands: its last submission has answered, or the item is recorded and not
  yet queued, or the queue was full and the item is not yet forgotten.
\<close>

datatype phase = Returned bool | Recorded work | Refused work

definition submit_record :: "work \<Rightarrow> ('w, 't) worker \<Rightarrow> phase \<times> ('w, 't) worker" where
  "submit_record wk k =
     (case wk_inbox k of
        None \<Rightarrow> (Recorded wk, k)
      | Some db \<Rightarrow>
          (case inbox_record (kind_of wk) (work_run_id wk) (payload_of wk) db of
             (Inl m, db') \<Rightarrow> (Returned False, k\<lparr>wk_inbox := Some db'\<rparr>)
           | (Inr i, db') \<Rightarrow> (Recorded (set_inbox_id (Some i) wk), k\<lparr>wk_inbox := Some db'\<rparr>)))"

definition submit_put :: "work \<Rightarrow> ('w, 't) worker \<Rightarrow> phase \<times> ('w, 't) worker" where
  "submit_put wk k = (case put_nowait wk k of (True, k') \<Rightarrow> (Returned True, k') | (False, k') \<Rightarrow> (Refused wk, k'))"

fun proceed :: "phase \<times> ('w, 't) worker \<Rightarrow> phase \<times> ('w, 't) worker" where
  "proceed (Recorded wk, k) = submit_put wk k"
| "proceed (Refused wk, k) = (Returned False, forget_work wk k)"
| "proceed (Returned b, k) = (Returned b, k)"

text \<open>Uninterrupted, the three calls are the submission.\<close>

lemma submit_in_steps: "submit wk k = (b, k') \<longleftrightarrow> proceed (proceed (submit_record wk k)) = (Returned b, k')"
  by (auto simp: submit_def submit_record_def submit_put_def enqueue_or_forget_def
      split: option.splits prod.splits sum.splits bool.splits)

fun in_loop :: "phase \<Rightarrow> work list" where
  "in_loop (Returned b) = []"
| "in_loop (Recorded wk) = [wk]"
| "in_loop (Refused wk) = [wk]"

lemma submit_record_durable:
  assumes "queue_durable hs (hands k)" "submit_record wk k = (p, k')"
  shows "queue_durable (in_loop p @ hs) (hands k')"
proof (cases "wk_inbox k")
  case None
  then show ?thesis using assms by (auto simp: submit_record_def hands_def queue_durable_no_inbox)
next
  case (Some db)
  obtain res db' where r: "inbox_record (kind_of wk) (work_run_id wk) (payload_of wk) db = (res, db')" by fastforce
  have q: "length (wk_queue k) \<le> WORK_QUEUE_MAXSIZE" "all_recorded (hs @ wk_queue k) (Some db)"
    using assms(1) Some by (simp_all add: queue_durable_def hands_def)
  show ?thesis using all_recorded_record [OF q(2) r] assms(2) Some r q(1)
    by (cases res) (auto simp: submit_record_def hands_def queue_durable_def)
qed

lemma proceed_durable:
  assumes "queue_durable (in_loop p @ hs) (hands k)" "proceed (p, k) = (p', k')"
  shows "queue_durable (in_loop p' @ hs) (hands k')"
proof (cases p)
  case (Returned b)
  then show ?thesis using assms by auto
next
  case (Recorded wk)
  have d: "queue_durable (wk # hs) (hands k)" using assms(1) Recorded by simp
  show ?thesis
  proof (cases "length (wk_queue k) \<ge> WORK_QUEUE_MAXSIZE")
    case True
    then show ?thesis using assms(2) Recorded d by (auto simp: submit_put_def put_nowait_def)
  next
    case False
    then have "p' = Returned True" "enqueue_or_forget wk k = (True, k')"
      using assms(2) Recorded by (auto simp: submit_put_def put_nowait_def enqueue_or_forget_def)
    then show ?thesis using enqueue_durable [OF d] by simp
  qed
next
  case (Refused wk)
  then show ?thesis using assms forget_durable [of wk hs k] by auto
qed

lemma submit_record_quiet: "submit_record wk k = (p, k') \<Longrightarrow> quiet k k'"
  by (auto simp: submit_record_def intro: inbox_quiet split: option.splits prod.splits sum.splits)

lemma proceed_quiet: "proceed (p, k) = (p', k') \<Longrightarrow> quiet k k'"
  by (cases p) (auto simp: submit_put_def intro: put_quiet forget_quiet split: prod.splits bool.splits)

section \<open>A sweep, run by run\<close>

definition stale_candidates :: "('w, 't) worker_env \<Rightarrow> time \<Rightarrow> ('w, 't) worker \<Rightarrow> (node_error, string list) result" where
  "stale_candidates X now k = (case wx_ttl X of
     Inl r \<Rightarrow> Inl r
   | Inr hrs \<Rightarrow> Inr (find_stale_runs (existing_run_ids (wx_root X (wk_world k))) (wk_threads k) now hrs))"

definition expire_run :: "('w, 't) worker_env \<Rightarrow> string \<Rightarrow> ('w, 't) worker \<Rightarrow> ('w, 't) worker" where
  "expire_run X rid k = clean X rid (publish_outcome X rid ''stale'' ''parked past the TTL with no decision'' [] k)"

lemma expire_runs_fold: "expire_runs X rids k = fold (expire_run X) rids k"
  by (induction rids arbitrary: k) (simp_all add: expire_run_def)

lemma sweep_in_steps:
  "sweep_stale_runs X now k = (case stale_candidates X now k of
     Inl r \<Rightarrow> (Inl r, k) | Inr rids \<Rightarrow> (Inr rids, fold (expire_run X) rids k))"
  by (simp add: sweep_stale_runs_def stale_candidates_def expire_runs_fold Let_def split: sum.splits)

lemma hands_expire_run [simp]: "hands (expire_run X rid k) = hands k"
  by (simp add: expire_run_def)

lemma expire_run_quiet: "quiet k (expire_run X rid k)"
  using expire_quiet [of k X "[rid]"] by (simp add: expire_run_def)

section \<open>The threads together\<close>

datatype loop_thread = Triggers | Decisions

definition in_loops :: "(loop_thread \<Rightarrow> phase) \<Rightarrow> work list" where
  "in_loops ph = in_loop (ph Triggers) @ in_loop (ph Decisions)"

text \<open>
  The worker, what the worker thread has in hand, where each poll loop stands and what the
  sweep has still to expire. A restart may come at any moment.
\<close>

inductive process_history :: "('w, 't) worker \<Rightarrow> hand \<Rightarrow> (loop_thread \<Rightarrow> phase) \<Rightarrow> string list \<Rightarrow> bool" where
  boot: "wk_threads k = Map.empty \<Longrightarrow> wk_queue k = [] \<Longrightarrow> wk_inbox k \<in> {None, Some new_inbox} \<Longrightarrow> po_sent (wk_producer k) = [] \<Longrightarrow>
     process_history k Idle (\<lambda>_. Returned True) []"
| record_work: "process_history k h ph s \<Longrightarrow> ph l = Returned b \<Longrightarrow> submit_record wk k = (p, k') \<Longrightarrow> process_history k' h (ph(l := p)) s"
| go_on: "process_history k h ph s \<Longrightarrow> proceed (ph l, k) = (p, k') \<Longrightarrow> process_history k' h (ph(l := p)) s"
| reject: "process_history k h ph s \<Longrightarrow>
     process_history (k\<lparr>wk_producer := publish_to_dlq a st raw topic reason (wk_producer k)\<rparr>) h ph s"
| take: "process_history k Idle ph s \<Longrightarrow> wk_queue k = wk # rest \<Longrightarrow> process_history (k\<lparr>wk_queue := rest\<rparr>) (Busy wk) ph s"
| carry_out: "process_history k (Busy wk) ph s \<Longrightarrow> process_history (snd (handle_work X x wk k)) (Finished wk) ph s"
| forget: "process_history k (Finished wk) ph s \<Longrightarrow> process_history (forget_work wk k) Idle ph s"
| find: "process_history k h ph [] \<Longrightarrow> stale_candidates X now k = Inr rids \<Longrightarrow> process_history k h ph rids"
| expire: "process_history k h ph (rid # s) \<Longrightarrow> process_history (expire_run X rid k) h ph s"
| elsewhere: "process_history k h ph s \<Longrightarrow> process_history (k\<lparr>wk_world := w, wk_targets := t,
     wk_inbox := map_option (\<lambda>db. db\<lparr>pg_answers := answers\<rparr>) (wk_inbox k)\<rparr>) h ph s"
| restart: "process_history k h ph s \<Longrightarrow> restore_pending (k\<lparr>wk_queue := [], wk_sink := sk, wk_log := lg\<rparr>) = (r, k') \<Longrightarrow>
     process_history k' Idle (\<lambda>_. Returned True) []"

text \<open>One loop's step changes what that loop has, and nothing of the other.\<close>

lemma in_loops_update: "\<exists>rest. (\<forall>p. mset (in_loops (ph(l := p))) = mset (in_loop p @ rest))"
  by (cases l) (auto simp: in_loops_def)

lemma loop_step_durable:
  assumes "queue_durable (hs @ in_loops ph) (hands k)"
    and "\<And>hs. queue_durable (in_loop (ph l) @ hs) (hands k) \<Longrightarrow> queue_durable (in_loop p @ hs) (hands k')"
  shows "queue_durable (hs @ in_loops (ph(l := p))) (hands k')"
proof -
  obtain rest where rest: "\<And>q. mset (in_loops (ph(l := q))) = mset (in_loop q @ rest)" using in_loops_update by blast
  have "mset (hs @ in_loops (ph(l := q))) = mset (in_loop q @ rest @ hs)" for q using rest by simp
  then have d: "queue_durable (hs @ in_loops (ph(l := q))) j = queue_durable (in_loop q @ rest @ hs) j" for q j
    by (rule queue_durable_mset)
  have "queue_durable (in_loop (ph l) @ rest @ hs) (hands k)" using assms(1) d [of "ph l"] by simp
  then show ?thesis using assms(2) d [of p] by simp
qed

lemma process_durable: "process_history k h ph s \<Longrightarrow> queue_durable (in_hand h @ in_loops ph) (hands k)"
proof (induction rule: process_history.induct)
  case (boot k)
  then have "worker_history k Idle" by (rule worker_history.boot)
  then show ?case using history_durable [of k Idle] by (simp add: in_loops_def)
next
  case (record_work k h ph s l b wk p k')
  then show ?case using loop_step_durable [OF record_work.IH, of l p k'] submit_record_durable by fastforce
next
  case (go_on k h ph s l p k')
  then show ?case using loop_step_durable [OF go_on.IH, of l p k'] proceed_durable by blast
next
  case (take k ph s wk rest)
  then have "queue_durable (in_loops ph) (wk # rest, wk_inbox k)" by (simp add: hands_def)
  moreover have "all_recorded (wk # in_loops ph @ rest) box = all_recorded (in_loops ph @ wk # rest) box" for box
    by (rule all_recorded_mset) simp
  ultimately show ?case by (simp add: queue_durable_def hands_def)
next
  case (carry_out k wk ph s X x)
  then show ?case by (simp add: hands_work)
next
  case (forget k wk ph s)
  then show ?case using forget_durable by simp
next
  case (elsewhere k h ph s w t answers)
  then show ?case by (simp add: queue_durable_def hands_def)
next
  case (restart k h ph s lg sk r k')
  have "all_recorded ((in_hand h @ in_loops ph) @ wk_queue k) (wk_inbox k)" using restart.IH by (simp add: queue_durable_def hands_def)
  then show ?case using restored_durable [OF _ _ restart.hyps(2)] by (simp add: in_loops_def)
qed simp_all

lemma process_sound: "process_history k h ph s \<Longrightarrow> sound k"
proof (induction rule: process_history.induct)
  case (boot k)
  then have "worker_history k Idle" by (rule worker_history.boot)
  then show ?case by (rule history_sound)
next
  case (record_work k h ph s l b wk p k')
  then show ?case using quiet_sound submit_record_quiet by blast
next
  case (go_on k h ph s l p k')
  then show ?case using quiet_sound proceed_quiet by blast
next
  case (reject k h ph s a st raw topic reason)
  then show ?case using quiet_sound dlq_quiet by blast
next
  case (carry_out k wk ph s X x)
  then show ?case using handle_work_sound by blast
next
  case (forget k wk ph s)
  then show ?case using quiet_sound forget_quiet by blast
next
  case (expire k h ph rid s X)
  then show ?case using quiet_sound expire_run_quiet by blast
next
  case (elsewhere k h ph s w t answers)
  then show ?case by (simp add: sound_def sound_for_def completed_outcomes_def)
next
  case (restart k h ph s lg sk r k')
  have "sound (k\<lparr>wk_queue := [], wk_sink := sk, wk_log := lg\<rparr>)" using restart.IH by simp
  then show ?case using quiet_sound restore_quiet [OF restart.hyps(2)] by blast
qed simp_all

text \<open>Nothing is lost in the taking apart: a history of whole operations is one of their steps.\<close>

lemma fold_expire: "process_history k h ph rids \<Longrightarrow> process_history (fold (expire_run X) rids k) h ph []"
  by (induction rids arbitrary: k) (auto intro: process_history.expire)

lemma submit_history:
  assumes "process_history k h ph s" "ph l = Returned c" "submit wk k = (b, k')"
  shows "process_history k' h (ph(l := Returned b)) s"
proof -
  obtain p1 k1 where 1: "submit_record wk k = (p1, k1)" by fastforce
  obtain p2 k2 where 2: "proceed (p1, k1) = (p2, k2)" by fastforce
  have 3: "proceed (p2, k2) = (Returned b, k')" using assms(3) 1 2 by (simp add: submit_in_steps)
  have "process_history k1 h (ph(l := p1)) s" by (rule process_history.record_work [OF assms(1,2) 1])
  then have "process_history k2 h (ph(l := p1, l := p2)) s" by (rule process_history.go_on [where l = l]) (simp add: 2)
  then have "process_history k' h (ph(l := p1, l := p2, l := Returned b)) s" by (rule process_history.go_on [where l = l]) (simp add: 3)
  then show ?thesis by simp
qed

lemma worker_history_in_steps:
  "worker_history k h \<Longrightarrow> \<exists>ph. (\<forall>l. \<exists>b. ph l = Returned b) \<and> process_history k h ph []"
proof (induction rule: worker_history.induct)
  case (boot k)
  from process_history.boot [OF this] show ?case by (intro exI conjI allI) simp
next
  case (accept k h wk b k')
  then obtain ph where ph: "\<forall>l. \<exists>b. ph l = Returned b" "process_history k h ph []" by blast
  then obtain c where "ph Triggers = Returned c" by blast
  from submit_history [OF ph(2) this accept.hyps(2)] have "process_history k' h (ph(Triggers := Returned b)) []" .
  moreover have "\<forall>l. \<exists>c. (ph(Triggers := Returned b)) l = Returned c" using ph(1) by simp
  ultimately show ?case by blast
next
  case (reject k h a st raw topic reason)
  then show ?case using process_history.reject by blast
next
  case (take k wk rest)
  then show ?case using process_history.take by blast
next
  case (carry_out k wk X x)
  then show ?case using process_history.carry_out by blast
next
  case (forget k wk)
  then show ?case using process_history.forget by blast
next
  case (sweep k h X now r k')
  then obtain ph where ph: "\<forall>l. \<exists>b. ph l = Returned b" "process_history k h ph []" by blast
  have "process_history k' h ph []"
  proof (cases "stale_candidates X now k")
    case (Inl e)
    then show ?thesis using sweep.hyps(2) ph(2) by (simp add: sweep_in_steps)
  next
    case (Inr rids)
    from process_history.find [OF ph(2) this] have "process_history k h ph rids" .
    from fold_expire [OF this] show ?thesis using sweep.hyps(2) Inr by (auto simp: sweep_in_steps)
  qed
  with ph(1) show ?case by blast
next
  case (elsewhere k h w t answers)
  then obtain ph where ph: "\<forall>l. \<exists>b. ph l = Returned b" "process_history k h ph []" by blast
  from process_history.elsewhere [OF ph(2)] ph(1) show ?case by (intro exI [of _ ph] conjI)
next
  case (restart k h lg sk r k')
  then obtain ph where "process_history k h ph []" by blast
  from process_history.restart [OF this restart.hyps(2)] show ?case by (intro exI conjI allI) simp
qed

section \<open>The outcomes of a run, in order\<close>

fun outcome_state :: "string \<Rightarrow> string \<times> string \<times> (out_event + string) \<Rightarrow> string option" where
  "outcome_state rid (topic, key, Inl o') = (if topic = RUN_OUTCOME_TOPIC \<and> oe_correlation_id o' = rid
     then (case dict_get (oe_payload o') ''terminal_state'' of Some (JStr t) \<Rightarrow> Some t | _ \<Rightarrow> None) else None)"
| "outcome_state rid (topic, key, Inr t) = None"

definition outcome_states :: "string \<Rightarrow> ('w, 't) worker \<Rightarrow> string list" where
  "outcome_states rid k = List.map_filter (outcome_state rid) (po_sent (wk_producer k))"

lemma outcome_state_completed: "completed_outcome rid m \<longleftrightarrow> outcome_state rid m = Some ''completed''"
proof -
  obtain topic key v where m: "m = (topic, key, v)" by (rule prod_cases3)
  then show ?thesis by (cases v) (auto split: option.splits json.splits)
qed

lemma completed_outcome_states: "completed_outcomes rid k = [] \<longleftrightarrow> ''completed'' \<notin> set (outcome_states rid k)"
proof -
  have "''completed'' \<in> set (outcome_states rid k) \<longleftrightarrow> (\<exists>m \<in> set (po_sent (wk_producer k)). outcome_state rid m = Some ''completed'')"
    unfolding outcome_states_def map_filter_def by force
  then show ?thesis by (auto simp: completed_outcomes_def filter_empty_conv outcome_state_completed)
qed

lemma map_filter_append: "List.map_filter f (xs @ ys) = List.map_filter f xs @ List.map_filter f ys"
  by (simp add: List.map_filter_def)

text \<open>Whatever has become of the run in the meantime, the sweep reports it.\<close>

lemma expire_run_reports:
  assumes "po_available (wk_producer k)" "wx_accepted X (sends k)"
  shows "outcome_states rid (expire_run X rid k) = outcome_states rid k @ [''stale'']"
proof -
  obtain t ts where t: "op_get (wx_ops X) rid (wk_targets k) = (t, ts)" by fastforce
  let ?o = "build_run_outcome (wx_stamp X (sends k)) rid ''stale'' (get_or unknown_target t) ''parked past the TTL with no decision'' []"
  have "po_sent (wk_producer (expire_run X rid k)) = po_sent (wk_producer k) @ [(RUN_OUTCOME_TOPIC, rid, Inl ?o)]"
    using assms t by (simp add: expire_run_def clean_def publish_outcome_def publish_run_outcome_def send_def build_run_outcome_def Let_def)
  moreover have "outcome_state rid (RUN_OUTCOME_TOPIC, rid, Inl ?o) = Some ''stale''"
    by (simp add: build_run_outcome_def dict_update_def dict_get_Cons)
  ultimately show ?thesis by (simp add: outcome_states_def map_filter_append List.map_filter_simps)
qed

section \<open>A race\<close>

text \<open>
  A worker with one run, of the built-in generator, that waits for its release. The sweep lists
  the workspaces and finds it stale; before it comes to expiring it, the worker thread carries
  out the approval.
\<close>

definition race_env :: "(fs, memory_targets) worker_env" where
  "race_env = demo_worker_env\<lparr>wx_root := (\<lambda>_. Some [(''r1'', True)])\<rparr>"

definition race_fixture :: json where
  "race_fixture = JObj [(''attempts'', JArr [JObj [(''attempt_number'', JInt 1), (''code_files'', JObj [])]])]"

definition race_slice :: "fs slice_in" where
  "race_slice = demo_slice\<lparr>sl_nodes := (\<lambda>_ _. demo_in\<lparr>ni_coder := (ni_coder demo_in)\<lparr>cd_fixture := Some (Inr (dumps race_fixture))\<rparr>\<rparr>)\<rparr>"

definition race_carried :: "work \<Rightarrow> (fs, memory_targets) worker \<Rightarrow> (fs, memory_targets) worker" where
  "race_carried wk k = work_once race_env race_slice (snd (submit wk k))"

definition race_trigger :: work where
  "race_trigger = TriggerWork ''r1'' ''ambiguous'' ''https://h/o/x'' ''main'' ''add x'' None"

definition race_parked :: "(fs, memory_targets) worker" where
  "race_parked = race_carried race_trigger demo_worker"

definition race_approved :: "(fs, memory_targets) worker" where
  "race_approved = race_carried demo_approval race_parked"

definition race_evaluated :: bool where
  "race_evaluated = (let k = race_parked; k' = race_carried demo_approval k in
     stale_candidates race_env 100000 k = Inr [''r1''] \<and> outcome_states ''r1'' k' = [''completed''] \<and> po_available (wk_producer k'))"

lemma race_outcomes: race_evaluated
  by code_simp

text \<open>Its history, and that of the sweep that comes in between.\<close>

lemma work_once_history:
  assumes "process_history k Idle ph s"
  shows "process_history (work_once X x k) Idle ph s"
proof (cases "wk_queue k")
  case Nil
  then show ?thesis using assms by (simp add: work_once_def)
next
  case (Cons wk rest)
  then show ?thesis
    using process_history.forget [OF process_history.carry_out [OF process_history.take [OF assms Cons]]] by (simp add: work_once_def)
qed

definition between_submissions :: "(loop_thread \<Rightarrow> phase) \<Rightarrow> bool" where
  "between_submissions ph \<longleftrightarrow> (\<forall>l. \<exists>b. ph l = Returned b)"

lemma race_carried_history:
  assumes "process_history k Idle ph s" "between_submissions ph"
  shows "\<exists>ph'. process_history (race_carried wk k) Idle ph' s \<and> between_submissions ph'"
proof -
  obtain c where c: "ph Triggers = Returned c" using assms(2) by (auto simp: between_submissions_def)
  obtain b k1 where b: "submit wk k = (b, k1)" by fastforce
  have "process_history (race_carried wk k) Idle (ph(Triggers := Returned b)) s"
    using work_once_history [OF submit_history [where l = Triggers, OF assms(1) c b]] b by (simp add: race_carried_def)
  moreover have "between_submissions (ph(Triggers := Returned b))" using assms(2) by (simp add: between_submissions_def)
  ultimately show ?thesis by blast
qed

lemma race_parked_history: "\<exists>ph. process_history race_parked Idle ph [] \<and> between_submissions ph"
  unfolding race_parked_def
  by (rule race_carried_history [OF process_history.boot]) (auto simp: demo_worker_def between_submissions_def)

lemma race_stale: "stale_candidates race_env 100000 race_parked = Inr [''r1'']"
  and race_completed: "outcome_states ''r1'' race_approved = [''completed'']"
  and race_available: "po_available (wk_producer race_approved)"
  using race_outcomes by (simp_all add: race_evaluated_def race_approved_def Let_def)

lemma race_expired_history: "\<exists>ph. process_history (expire_run race_env ''r1'' race_approved) Idle ph []"
proof -
  obtain ph where "process_history race_parked Idle ph []" and b: "between_submissions ph" using race_parked_history by blast
  from process_history.find [OF this(1) race_stale] have "process_history race_parked Idle ph [''r1'']" .
  from race_carried_history [OF this b] obtain ph' where "process_history race_approved Idle ph' [''r1'']"
    unfolding race_approved_def by blast
  then show ?thesis by (blast intro: process_history.expire)
qed

section \<open>Properties\<close>

text \<open>
  C30: however the threads come in between, no accepted work is lost. At every moment of the
  process - the poll loops anywhere in their submissions, the worker thread anywhere in its
  pass, the sweep anywhere among the runs it expires, after any number of restarts - the queue
  holds at most 32 items, no two of the items queued, in hand or being submitted share a row,
  and each of them is exactly what its row of the inbox reads as.
\<close>

theorem threads_keep_the_work:
  assumes "process_history k h ph s" "wk_inbox k = Some db"
  shows "length (wk_queue k) \<le> 32 \<and> distinct (map work_inbox_id (in_hand h @ in_loops ph @ wk_queue k)) \<and>
    (\<forall>wk \<in> set (in_hand h @ in_loops ph @ wk_queue k). \<exists>row \<in> set (rows db).
       ir_run_id row = work_run_id wk \<and> work_of_row (ir_id row) (ir_kind row) (ir_payload row) = Some wk)"
  using durable_items [of "in_hand h @ in_loops ph" k db] process_durable [OF assms(1)] assms(2) by simp

lemma threads_keep_the_work_witness:
  "\<exists>row \<in> set (rows demo_rows). work_of_row (ir_id row) (ir_kind row) (ir_payload row) = Some (set_inbox_id (Some 1) demo_trigger)"
proof -
  obtain ph where "process_history demo_busy (Busy (set_inbox_id (Some 1) demo_trigger)) ph []"
    using worker_history_in_steps [OF demo_busy_history] by blast
  from threads_keep_the_work [OF this, of demo_rows] show ?thesis
    using demo_busy_state by (simp del: bex_simps) (elim conjE bexE, rule bexI)
qed

text \<open>
  C32: a restart puts the work back. Wherever in their steps the threads are cut off, a new
  process that can read the inbox leaves the rows as they are and queues the first 32 of them,
  in the order they were accepted, each as the item that was accepted; whatever the old process
  had queued, in hand or half submitted has a row, and so is queued again when no more than 32 do.
\<close>

theorem restart_puts_the_work_back:
  assumes "process_history k h ph s" "wk_inbox k = Some db" "fst (next_answer db) = None"
    and "restore_pending (k\<lparr>wk_queue := []\<rparr>) = (res, k')"
  shows "map_option rows (wk_inbox k') = Some (rows db) \<and>
    wk_queue k' = take 32 (map work_in (rows db)) \<and> sorted_wrt (<) (map ir_id (rows db)) \<and>
    set (in_hand h @ in_loops ph @ wk_queue k) \<subseteq> set (map work_in (rows db)) \<and>
    (length (rows db) \<le> 32 \<longrightarrow> set (in_hand h @ in_loops ph @ wk_queue k) \<subseteq> set (wk_queue k'))"
  using restored_work [OF process_durable [OF assms(1)] assms(2,3) _ _ assms(4)] assms(2) by simp

lemma restart_puts_the_work_back_witness:
  "set_inbox_id (Some 1) demo_trigger \<in> set (wk_queue (snd (restore_pending (demo_busy\<lparr>wk_queue := []\<rparr>))))"
proof -
  obtain ph where ph: "process_history demo_busy (Busy (set_inbox_id (Some 1) demo_trigger)) ph []"
    using worker_history_in_steps [OF demo_busy_history] by blast
  have d: "fst (next_answer demo_rows) = None" "length (rows demo_rows) \<le> 32" by (simp_all add: next_answer_def demo_rows_def)
  have "set (in_hand (Busy (set_inbox_id (Some 1) demo_trigger)) @ in_loops ph @ wk_queue demo_busy) \<subseteq>
      set (wk_queue (snd (restore_pending (demo_busy\<lparr>wk_queue := []\<rparr>))))"
    using restart_puts_the_work_back [OF ph conjunct1 [OF demo_busy_state] d(1) prod.collapse [symmetric]] d(2) by blast
  then show ?thesis by simp
qed

text \<open>
  C29: what is reported as completed was governed, and is reported once. However the threads
  come in between, the outcome topic holds at most one completion of a run, and holds one only
  if the checkpoint of the run has nothing left to do and its values went through the gates:
  tested and released for an SDLC run, both gates approved before anything was published
  for a specialist run.
\<close>

theorem completed_outcome_is_governed:
  assumes "process_history k h ph s"
  shows "length (completed_outcomes rid k) \<le> 1 \<and>
    (completed_outcomes rid k \<noteq> [] \<longrightarrow>
       (\<exists>th. wk_threads k rid = Some th \<and> \<not> open_thread th \<and> governed (thread_values th)))"
  by (rule sound_completed [OF process_sound [OF assms]])

lemma completed_outcome_is_governed_witness:
  "\<exists>th. wk_threads demo_completed ''r1'' = Some th \<and> \<not> open_thread th \<and> governed (thread_values th)"
proof -
  obtain ph where "process_history demo_completed Idle ph []" using worker_history_in_steps [OF demo_completed_history] by blast
  from completed_outcome_is_governed [OF this, of "''r1''"] show ?thesis
    using demo_completed_reported by (fastforce simp: demo_reported_def)
qed

text \<open>
  C31: a sweep races a decision. A sweep that runs in one go expires exactly the runs that have
  a workspace, are SDLC runs with work left and were last written longer ago than the limit -
  never a specialist run, which it reads with the wrong graph, and, whatever the threads have
  done before, never a run already reported as completed. But nothing keeps a decision from
  being carried out between the moment the sweep finds a run stale and the moment it expires
  it: there is a history in which the same run is reported as completed and then as stale, for
  want of a decision.
\<close>

theorem sweep_races_a_decision:
  "(process_history k h ph s \<and> wx_ttl X = Inr hrs \<and> sweep_stale_runs X now k = (Inr stale, k') \<longrightarrow>
      (rid \<in> set stale \<longleftrightarrow> rid \<in> set (existing_run_ids (wx_root X (wk_world k))) \<and>
         (\<exists>g F t. wk_threads k rid = Some (SdlcThread g F t) \<and> F \<noteq> [] \<and> past_ttl hrs now t)) \<and>
      (rid \<in> set stale \<longrightarrow> ''completed'' \<notin> set (outcome_states rid k))) \<and>
   (\<exists>(j :: (fs, memory_targets) worker) ph'. process_history j Idle ph' [] \<and> outcome_states ''r1'' j = [''completed'', ''stale''])"
proof (intro conjI impI)
  assume a: "process_history k h ph s \<and> wx_ttl X = Inr hrs \<and> sweep_stale_runs X now k = (Inr stale, k')"
  then have "stale = find_stale_runs (existing_run_ids (wx_root X (wk_world k))) (wk_threads k) now hrs"
    by (auto simp: sweep_stale_runs_def Let_def)
  then show exact: "rid \<in> set stale \<longleftrightarrow> rid \<in> set (existing_run_ids (wx_root X (wk_world k))) \<and>
      (\<exists>g F t. wk_threads k rid = Some (SdlcThread g F t) \<and> F \<noteq> [] \<and> past_ttl hrs now t)"
    using sweep_expires_sdlc_runs_only [of rid "existing_run_ids (wx_root X (wk_world k))" "wk_threads k" now hrs] by (simp only:)
  assume "rid \<in> set stale"
  with exact obtain g F t where "wk_threads k rid = Some (SdlcThread g F t)" "F \<noteq> []" by blast
  moreover have "sound_for k rid" using process_sound [of k h ph s] a by (simp add: sound_def)
  ultimately show "''completed'' \<notin> set (outcome_states rid k)"
    using completed_outcome_states [of rid k] by (auto simp: sound_for_def run_completed_def)
next
  have "outcome_states ''r1'' (expire_run race_env ''r1'' race_approved) = [''completed''] @ [''stale'']"
    using expire_run_reports [OF race_available, of race_env "''r1''"] race_completed by (simp add: race_env_def demo_worker_env_def)
  then show "\<exists>(j :: (fs, memory_targets) worker) ph'. process_history j Idle ph' [] \<and> outcome_states ''r1'' j = [''completed'', ''stale'']"
    using race_expired_history by auto
qed

lemma sweep_races_a_decision_witness: "''completed'' \<notin> set (outcome_states ''r1'' race_parked)"
proof -
  obtain ph where "process_history race_parked Idle ph []" using race_parked_history by blast
  moreover have "sweep_stale_runs race_env 100000 race_parked = (Inr [''r1''], fold (expire_run race_env) [''r1''] race_parked)"
    by (simp add: sweep_in_steps race_stale)
  moreover have "wx_ttl race_env = Inr 24" by (simp add: race_env_def demo_worker_env_def)
  ultimately show ?thesis
    using sweep_races_a_decision [of race_parked Idle ph "[]" race_env 24 100000 "[''r1'']" "fold (expire_run race_env) [''r1''] race_parked" "''r1''"]
    by simp
qed

end
