(* ===== verification/Spec2Isabelle.thy ===== *)
theory Spec2Isabelle
  imports AuditTrail SpecGraph Startup Metrics Operator Threads
begin

text \<open>
  A verification development for the agentic SDLC control plane: a Kafka-driven service that
  clones a repository, runs a graph of nodes over it - its own SDLC graph or the graph of an
  external specialist - stops at gates for human decisions, delivers what was approved and
  reports how each run ended.

  \<^bold>\<open>The program and where it is modelled.\<close> File names are those under
  \<open>src/agentic_control_plane/\<close>. A theory has the definitions of its file in the file's order, under
  the file's names where Isabelle allows it, then the lemmas, then the properties, each with a
  witness that applies it to a concrete input.

  \<^item> Ground: \<open>Prelude\<close> (error-or-value results, state-and-error steps, insertion-ordered dicts),
    \<open>PyStr\<close>, \<open>PyRe\<close> and \<open>PyJson\<close> (the \<open>str\<close>, \<open>re\<close> and \<open>json\<close> operations the program calls).
  \<^item> \<open>RunState\<close>: \<open>state.py\<close> and \<open>specialist_state.py\<close>, the states of both graphs and the reducers
    of their channels. A field is a record field, a \<open>Literal\<close> a datatype with its reader.
  \<^item> \<open>Tools\<close>: \<open>tools.py\<close>, sandboxed tests, guardrails, the contained writer, git.
  \<^item> \<open>Nodes\<close>, \<open>Specialists\<close>, \<open>Coder\<close>: \<open>nodes/*.py\<close> and \<open>specialists.py\<close>. A node takes what the
    outside answers during the call and the state, and returns the channels it writes, an
    interrupt, or what it raises. \<open>NodeFacts\<close> has one lemma per node on those writes.
  \<^item> \<open>SdlcGraph\<close>: \<open>graph.py\<close>, routers, edges and supersteps. \<open>SdlcInvariants\<close> has the invariants
    every move keeps; \<open>SdlcRuns\<close> states what holds of every run.
  \<^item> \<open>Workspace\<close>, \<open>Publish\<close>, \<open>Invocation\<close>, \<open>SpecGraph\<close>: \<open>workspace.py\<close>, \<open>publish.py\<close>,
    \<open>specialist_invocation.py\<close>, \<open>specialist_graph.py\<close>.
  \<^item> \<open>Telemetry\<close>: \<open>telemetry.py\<close>, the hash-chained audit log and its per-run cursors.
  \<^item> \<open>Stores\<close>: \<open>run_targets.py\<close> and \<open>inbox.py\<close>, two tables of a database that may refuse any
    statement. The locales \<open>target_store\<close> and \<open>reliable_target_store\<close> say what the worker may
    rely on; the in-memory and the Postgres store are interpretations.
  \<^item> \<open>Runner\<close>, \<open>Routing\<close>: \<open>runner.py\<close> and \<open>run_routing.py\<close>. Checkpoints are a map from run ids to
    threads; a slice runs a graph from a thread to its next pause or its end. \<open>AuditTrail\<close>: what
    the events of a checkpoint say of its gates; the locale \<open>gated_run\<close> is what a graph keeps for
    that, both graphs are its interpretations.
  \<^item> \<open>Messages\<close>, \<open>PollLoop\<close>, \<open>Worker\<close>: \<open>consumer.py\<close> and \<open>events.py\<close>. Messages become work, work
    becomes inbox rows and comes back from them; the poll loop hands work over, rewinds and
    pauses on a refusal, and commits; the worker carries work out, delivers and reports. The
    locale \<open>hand_off\<close> is what a poll loop relies on; the worker behind the trigger loop and
    behind the decision loop are its interpretations.
  \<^item> \<open>WorkerRuns\<close>, \<open>WorkerProps\<close>: the life of a worker (\<open>worker_history\<close>): accepting, carrying out,
    forgetting, sweeping, restarting at any moment, with the tables answering or refusing. Two
    invariants carry the properties: whatever is queued or in hand has its row
    (\<open>queue_durable\<close>), and checkpoints are those of governed runs with at most one completion
    reported for each (\<open>sound\<close>).
  \<^item> \<open>Threads\<close>: the threads of \<open>main.py\<close> around one worker, between the single calls of
    \<open>Worker.submit\<close> and the single runs of \<open>Worker.sweep_stale_runs\<close> (\<open>process_history\<close>). Every
    \<open>worker_history\<close> is one of these, and the two invariants carry over.
  \<^item> \<open>Metrics\<close>, \<open>Settings\<close>, \<open>Heartbeat\<close>, \<open>Service\<close>: \<open>metrics.py\<close>, the settings of
    \<open>checkpointer.py\<close>, \<open>heartbeat.py\<close>, and \<open>main.py\<close> with the worker thread under its stop flag.
  \<^item> \<open>Checkpointer\<close>: the rest of \<open>checkpointer.py\<close>. The models of both state modules with their
    declared field types, a state written out as the value the serializer gets, the allowlist found
    by introspection, the serde and both savers.
  \<^item> \<open>Startup\<close>: \<open>logging_config.py\<close>, places and tables, the Kafka consumers of \<open>consumer.py\<close>, and
    \<open>main\<close> as the sequence of its actions, each of which may raise.
  \<^item> \<open>Operator\<close>: \<open>src/scripts/\<close>, the signals a human sends by hand and the check of the lock file.

  \<^bold>\<open>What is shown.\<close> Safety of the gates: nothing is committed, published or reported as
  completed without the recorded approvals, tests and overrides it needs, in either graph, over
  any slices, restarts and redeliveries. Containment: generated files stay in the workspace,
  tokens stay out of texts, sweeps remove only what is over. Termination: graphs end, and
  backpressure ends. Durability: accepted work, delivery targets and the audit trail survive
  restarts, and a checkpoint has the declared types and is read back as it was written. Record:
  the audit trail holds one decision per decided gate, with the recorded status. Exactness:
  guardrails, routing, decisions, connection strings and metrics are what they are meant to be.
  Some theorems state behaviour that falls short of what the program means to do: a decision
  answers whatever gate is open, a stopped worker cannot be drained, specialist runs never
  expire, a completed run is reported stale when its decision comes during a sweep, parked
  events are written again after a restart, a consumer that cannot be built closes the
  checkpointer under running threads.

  \<^bold>\<open>Bounds.\<close> The driver of the SDLC graph gets \<open>3 * (retry_limit + 1) + 11\<close> supersteps, which every
  run is shown to need at most; a specialist run gets five. A slice of \<open>Runner\<close> gets the weight of
  its state as fuel, which every superstep lowers. The JSON reader gets \<open>2 * length + 2\<close>. The
  work queue holds 32 items and resumes at 16; ten failed polls in a row end a loop; the drain
  waits sixty times. These are the code's constants, or are shown to be enough.

  \<^bold>\<open>What is an argument.\<close> Processes (git, pytest, the model CLI, a specialist), HTTP, the clock,
  fresh ids, file systems and the answers of Kafka and Postgres are arguments: functions of a
  world, or answers per call. SHA-256 is a function \<open>h\<close>, assumed free of collisions on the
  records of the two files compared where tampering is detected. The validation of envelopes and of the routing document is the packages' own.
  LangGraph runs the nodes of a frontier on one state and applies their writes together; a
  node that pauses or raises leaves the state as it was.

  The saver of checkpoints is a map from run ids to states; that the serializer returns
  what it was given, as long as every model in it is on the allowlist, is a hypothesis of the one
  theorem about it.

  \<^bold>\<open>Not modelled.\<close> Timeouts and pauses between attempts: how long a call may take is the
  library's affair, that it may fail is modelled. Log output, but for the set-up of logging. The
  texts of errors raised by libraries are abbreviated; those the program words itself are its own.
  The sweep thread and the poll loops come between the steps of \<open>process_history\<close>, where the
  handling of one item is one step, as is the search for stale runs; a crash comes between those
  steps, too, and a slice is not cut off in the middle. A script that cannot reach the
  broker at all ends with the client's exception. Text is limited to code points below 256.
\<close>

end
